(* ===== verification/Py_Prelude.thy ===== *)
theory Py_Prelude
  imports Complex_Main "HOL-Library.Log_Nat" "HOL-Library.Multiset"
begin

text \<open>
  The part of Python that every script of the repository uses: exceptions as values of a
  sum type, strings, decimal integers, and the padding of f-strings.

  A Python \<open>str\<close> is a HOL \<^typ>\<open>string\<close> holding its UTF-8 encoding, which is also what
  \<open>open(path, "w").write\<close> puts into a file. Concatenation, equality, \<open>split\<close> at an ASCII
  separator, \<open>startswith\<close> and \<open>endswith\<close> commute with that encoding; \<open>len\<close>
  counts code points, so it counts the bytes that do not continue a character
  (\<open>py_len\<close>).

  An operation that may raise returns \<open>py_error + 'a\<close>, with \<open>Inl\<close> for the exception;
  \<open>bindE\<close> is the sequencing of the source's statements.
\<close>

named_theorems py_res "rewriting rules for results and their sequencing"
named_theorems py_eval "definitions unfolded to evaluate the string operations"

section \<open>Exceptions\<close>

text \<open>\<open>SystemExitMsg\<close> is \<open>raise SystemExit(message)\<close>. \<open>Diverged\<close> is not an
  exception of Python: it marks a loop that has no end.\<close>

datatype py_error =
    ValueError
  | KeyError string
  | IndexError
  | TypeError
  | AttributeError
  | ZeroDivisionError
  | OverflowError
  | StopIteration
  | CsvError
  | UnicodeDecodeError
  | RecursionError
  | FileNotFoundError string
  | FileExistsError string
  | SystemExit int
  | SystemExitMsg string
  | Diverged

type_synonym 'a res = "py_error + 'a"

definition bindE :: "'a res \<Rightarrow> ('a \<Rightarrow> 'b res) \<Rightarrow> 'b res" where
  "bindE m f = (case m of Inl e \<Rightarrow> Inl e | Inr x \<Rightarrow> f x)"

lemma bindE_Inl [simp, py_res]: "bindE (Inl e) f = Inl e"
  by (simp add: bindE_def)

lemma bindE_Inr [simp, py_res]: "bindE (Inr x) f = f x"
  by (simp add: bindE_def)

lemma bindE_eq_Inr [py_res]: "bindE m f = Inr y \<longleftrightarrow> (\<exists>x. m = Inr x \<and> f x = Inr y)"
  by (cases m) auto

lemma bindE_eq_Inl [py_res]:
  "bindE m f = Inl e \<longleftrightarrow> m = Inl e \<or> (\<exists>x. m = Inr x \<and> f x = Inl e)"
  by (cases m) auto

lemma bindE_cong: "m = m' \<Longrightarrow> (\<And>x. m' = Inr x \<Longrightarrow> f x = g x) \<Longrightarrow> bindE m f = bindE m' g"
  by (cases m') auto

lemma bindE_assoc: "bindE (bindE m f) g = bindE m (\<lambda>x. bindE (f x) g)"
  by (cases m) auto

lemma bindE_return [simp]: "bindE m Inr = m"
  by (cases m) auto

text \<open>A comprehension \<open>[f(x) for x in xs]\<close>: the first exception ends it.\<close>

fun mapE :: "('a \<Rightarrow> 'b res) \<Rightarrow> 'a list \<Rightarrow> 'b list res" where
  "mapE f [] = Inr []"
| "mapE f (x # xs) = bindE (f x) (\<lambda>y. bindE (mapE f xs) (\<lambda>ys. Inr (y # ys)))"

text \<open>A loop \<open>for x in xs: acc = f(acc, x)\<close>.\<close>

fun foldE :: "('s \<Rightarrow> 'a \<Rightarrow> 's res) \<Rightarrow> 's \<Rightarrow> 'a list \<Rightarrow> 's res" where
  "foldE f s [] = Inr s"
| "foldE f s (x # xs) = bindE (f s x) (\<lambda>t. foldE f t xs)"

text \<open>\<open>[x for x in xs if f(x)]\<close>.\<close>

fun filterE :: "('a \<Rightarrow> bool res) \<Rightarrow> 'a list \<Rightarrow> 'a list res" where
  "filterE f [] = Inr []"
| "filterE f (x # xs) = bindE (f x) (\<lambda>b. bindE (filterE f xs) (\<lambda>ys. Inr (if b then x # ys else ys)))"

lemma filterE_total: "(\<And>x. x \<in> set xs \<Longrightarrow> f x = Inr (g x)) \<Longrightarrow> filterE f xs = Inr (filter g xs)"
  by (induction xs) auto

text \<open>A loop whose rounds append to one list.\<close>

definition collectE :: "('a \<Rightarrow> 'b list res) \<Rightarrow> 'a list \<Rightarrow> 'b list res" where
  "collectE f xs = bindE (mapE f xs) (\<lambda>yss. Inr (concat yss))"

lemma collectE_simps [simp]:
  "collectE f [] = Inr []"
  "collectE f (x # xs) = bindE (f x) (\<lambda>ys. bindE (collectE f xs) (\<lambda>zs. Inr (ys @ zs)))"
  by (auto simp: collectE_def bindE_assoc)

lemma collectE_ex: "(\<And>x. x \<in> set xs \<Longrightarrow> \<exists>ys. f x = Inr ys) \<Longrightarrow> \<exists>ys. collectE f xs = Inr ys"
proof (induction xs)
  case (Cons x xs)
  then obtain ys zs where "f x = Inr ys" "collectE f xs = Inr zs" by (meson list.set_intros)
  then show ?case by simp
qed simp

text \<open>What the rounds returned, put together.\<close>

lemma collectE_parts:
  "collectE f xs = Inr zs \<Longrightarrow> \<exists>parts. zs = concat parts \<and> (\<forall>ys \<in> set parts. \<exists>x \<in> set xs. f x = Inr ys)"
proof (induction xs arbitrary: zs)
  case Nil
  then show ?case by (intro exI[of _ "[]"]) simp
next
  case (Cons x xs)
  then obtain ys ws where o: "f x = Inr ys" "collectE f xs = Inr ws" "zs = ys @ ws" by (auto simp: bindE_eq_Inr)
  from Cons.IH[OF o(2)] obtain parts where "ws = concat parts" "\<forall>ys \<in> set parts. \<exists>x \<in> set xs. f x = Inr ys" by blast
  then show ?case using o by (intro exI[of _ "ys # parts"]) auto
qed

text \<open>When only one exception can occur, it does not matter which round raises it.\<close>

lemma collectE_one_error:
  "(\<And>x. x \<in> set xs \<Longrightarrow> f x = Inl e \<or> (\<exists>ys. f x = Inr ys)) \<Longrightarrow> \<exists>x \<in> set xs. f x = Inl e \<Longrightarrow> collectE f xs = Inl e"
proof (induction xs)
  case (Cons x xs)
  then consider "f x = Inl e" | ys where "f x = Inr ys" by auto
  then show ?case using Cons by cases auto
qed simp

lemma mapE_eq_Inr: "mapE f xs = Inr ys \<longleftrightarrow> list_all2 (\<lambda>x y. f x = Inr y) xs ys"
  by (induction xs arbitrary: ys) (auto simp: py_res list_all2_Cons1)

lemma mapE_total: "(\<And>x. x \<in> set xs \<Longrightarrow> f x = Inr (g x)) \<Longrightarrow> mapE f xs = Inr (map g xs)"
  by (induction xs) auto

lemma collectE_singles: "(\<And>x. x \<in> set xs \<Longrightarrow> f x = Inr [g x]) \<Longrightarrow> collectE f xs = Inr (map g xs)"
  by (induction xs) auto

lemma mapE_append: "mapE f (xs @ ys) = bindE (mapE f xs) (\<lambda>us. bindE (mapE f ys) (\<lambda>vs. Inr (us @ vs)))"
  by (induction xs) (auto simp: bindE_assoc)

lemma mapE_cong: "(\<And>x. x \<in> set xs \<Longrightarrow> f x = g x) \<Longrightarrow> mapE f xs = mapE g xs"
  by (induction xs) auto

lemma mapE_length: "mapE f xs = Inr ys \<Longrightarrow> length ys = length xs"
  by (metis mapE_eq_Inr list_all2_lengthD)

lemma foldE_append: "foldE f s (xs @ ys) = bindE (foldE f s xs) (\<lambda>t. foldE f t ys)"
  by (induction xs arbitrary: s) (auto simp: bindE_assoc)

lemma foldE_total: "foldE (\<lambda>s x. Inr (f s x)) s xs = Inr (foldl f s xs)"
  by (induction xs arbitrary: s) auto

lemma foldE_mapE:
  "foldE (\<lambda>s x. bindE (f x) (\<lambda>y. Inr (g s y))) s xs = bindE (mapE f xs) (\<lambda>ys. Inr (foldl g s ys))"
  by (induction xs arbitrary: s) (auto simp: bindE_assoc)

text \<open>\<open>max\<close> of a list.\<close>

lemma foldl_max: "foldl max a xs \<in> set (a # xs) \<and> (\<forall>x \<in> set (a # xs). x \<le> foldl max a xs)" for a :: int
proof (induction xs arbitrary: a)
  case (Cons x xs)
  define F where "F = foldl max (max a x) xs"
  have "F \<in> set (max a x # xs)" "\<forall>y \<in> set (max a x # xs). y \<le> F" using Cons[of "max a x"] by (simp_all add: F_def)
  then have "F \<in> set (a # x # xs) \<and> (\<forall>y \<in> set (a # x # xs). y \<le> F)" by (auto simp: max_def split: if_splits)
  then show ?case by (simp add: F_def)
qed simp

section \<open>Strings\<close>

text \<open>\<open>len(s)\<close>: the code points of a UTF-8 encoded string.\<close>

definition utf8_cont :: "char \<Rightarrow> bool" where
  "utf8_cont c \<longleftrightarrow> (of_char c :: nat) div 64 = 2"

definition py_len :: "string \<Rightarrow> int" where
  "py_len s = int (length (filter (\<lambda>c. \<not> utf8_cont c) s))"

lemma py_len_Nil [simp]: "py_len [] = 0"
  by (simp add: py_len_def)

lemma py_len_append [simp]: "py_len (s @ t) = py_len s + py_len t"
  by (simp add: py_len_def)

lemma py_len_nonneg [simp]: "0 \<le> py_len s"
  by (simp add: py_len_def)

text \<open>\<open>s.split(sep)\<close> for a one-character separator: never an empty list.\<close>

fun split_on :: "char \<Rightarrow> string \<Rightarrow> string list" where
  "split_on c [] = [[]]"
| "split_on c (x # xs) =
     (if x = c then [] # split_on c xs
      else (case split_on c xs of [] \<Rightarrow> [[x]] | w # ws \<Rightarrow> (x # w) # ws))"

fun join :: "string \<Rightarrow> string list \<Rightarrow> string" where
  "join sep [] = []"
| "join sep [w] = w"
| "join sep (w # ws) = w @ sep @ join sep ws"

lemma split_on_not_Nil [simp]: "split_on c s \<noteq> []"
  by (cases s) (auto split: list.splits)

lemma join_Cons: "ws \<noteq> [] \<Longrightarrow> join sep (w # ws) = w @ sep @ join sep ws"
  by (cases ws) auto

lemma join_split_on: "join [c] (split_on c s) = s"
proof (induction s)
  case (Cons x xs)
  then show ?case
    by (cases "split_on c xs") (auto simp: join_Cons split: list.splits, cases "tl (split_on c xs)", auto)
qed simp

lemma split_on_no_sep: "w \<in> set (split_on c s) \<Longrightarrow> c \<notin> set w"
  by (induction s arbitrary: w) (auto split: if_splits list.splits)

lemma split_on_word: "c \<notin> set w \<Longrightarrow> split_on c w = [w]"
  by (induction w) auto

lemma split_on_append: "c \<notin> set w \<Longrightarrow> split_on c (w @ c # s) = w # split_on c s"
  by (induction w) auto

lemma split_on_join:
  "ws \<noteq> [] \<Longrightarrow> \<forall>w \<in> set ws. c \<notin> set w \<Longrightarrow> split_on c (join [c] ws) = ws"
  by (induction ws rule: list_nonempty_induct) (auto simp: split_on_word split_on_append join_Cons)

definition starts_with :: "string \<Rightarrow> string \<Rightarrow> bool" where
  [py_eval]: "starts_with s p \<longleftrightarrow> take (length p) s = p"

definition ends_with :: "string \<Rightarrow> string \<Rightarrow> bool" where
  [py_eval]: "ends_with s p \<longleftrightarrow> starts_with (rev s) (rev p)"

text \<open>ASCII white space, as \<open>str.strip()\<close> and \<open>int()\<close> strip it: the six characters of
  C's \<open>isspace\<close> and the four separators 28 to 31.\<close>

definition is_space :: "char \<Rightarrow> bool" where
  [py_eval]: "is_space c \<longleftrightarrow> (let n = of_char c :: nat in n = 32 \<or> (9 \<le> n \<and> n \<le> 13) \<or> (28 \<le> n \<and> n \<le> 31))"

definition strip :: "string \<Rightarrow> string" where
  [py_eval]: "strip s = rev (dropWhile is_space (rev (dropWhile is_space s)))"

lemma strip_id: "s = [] \<or> (\<not> is_space (hd s) \<and> \<not> is_space (last s)) \<Longrightarrow> strip s = s"
proof (cases s rule: rev_cases)
  case (snoc t z)
  assume "s = [] \<or> (\<not> is_space (hd s) \<and> \<not> is_space (last s))"
  then have "dropWhile is_space s = s" "\<not> is_space z"
    using snoc by (auto simp: dropWhile_eq_self_iff)
  then show ?thesis by (simp add: strip_def snoc)
qed (simp add: strip_def)

lemma strip_trailing: "is_space c \<Longrightarrow> strip (s @ [c]) = strip s"
proof -
  assume c: "is_space c"
  have "dropWhile is_space (s @ [c]) = (if \<forall>x \<in> set s. is_space x then [] else dropWhile is_space s @ [c])"
    using c by (auto simp: dropWhile_append)
  then show ?thesis using c by (auto simp: strip_def dropWhile_eq_Nil_conv[THEN iffD2])
qed

section \<open>Decimal integers\<close>

definition digit_char :: "nat \<Rightarrow> char" where
  "digit_char d = char_of (48 + d)"

definition is_digit :: "char \<Rightarrow> bool" where
  "is_digit c \<longleftrightarrow> 48 \<le> (of_char c :: nat) \<and> (of_char c :: nat) \<le> 57"

definition digit_val :: "char \<Rightarrow> nat" where
  "digit_val c = of_char c - 48"

lemma of_digit_char [simp]: "d < 10 \<Longrightarrow> of_char (digit_char d) = 48 + d"
  by (simp add: digit_char_def)

lemma is_digit_digit_char [simp]: "d < 10 \<Longrightarrow> is_digit (digit_char d)"
  by (simp add: is_digit_def)

lemma digit_val_digit_char [simp]: "d < 10 \<Longrightarrow> digit_val (digit_char d) = d"
  by (simp add: digit_val_def)

text \<open>\<open>str(n)\<close>.\<close>

fun str_of_nat :: "nat \<Rightarrow> string" where
  "str_of_nat n = (if n < 10 then [digit_char n] else str_of_nat (n div 10) @ [digit_char (n mod 10)])"

declare str_of_nat.simps [simp del]

definition str_of_int :: "int \<Rightarrow> string" where
  "str_of_int n = (if n < 0 then CHR ''-'' # str_of_nat (nat (- n)) else str_of_nat (nat n))"

text \<open>
  \<open>int(s)\<close> for a string: surrounding white space is ignored, then an optional sign and
  digits, in which single underscores may separate digits.
\<close>

fun int_digits :: "nat \<Rightarrow> string \<Rightarrow> nat option" where
  "int_digits acc [] = Some acc"
| "int_digits acc [c] = (if is_digit c then Some (10 * acc + digit_val c) else None)"
| "int_digits acc (c # d # s) =
     (if is_digit c then
        (if d = CHR ''_'' then (if s = [] then None else int_digits (10 * acc + digit_val c) s)
         else int_digits (10 * acc + digit_val c) (d # s))
      else None)"

definition nat_literal :: "string \<Rightarrow> nat option" where
  "nat_literal s = (if s = [] then None else int_digits 0 s)"

definition py_int :: "string \<Rightarrow> int res" where
  "py_int s = (let t = strip s in
     case (if t \<noteq> [] \<and> hd t = CHR ''-'' then map_option (\<lambda>n. - int n) (nat_literal (tl t))
           else if t \<noteq> [] \<and> hd t = CHR ''+'' then map_option int (nat_literal (tl t))
           else map_option int (nat_literal t))
     of Some n \<Rightarrow> Inr n | None \<Rightarrow> Inl ValueError)"

lemma str_of_nat_not_Nil [simp]: "str_of_nat n \<noteq> []"
  by (subst str_of_nat.simps) simp

lemma str_of_nat_digits: "c \<in> set (str_of_nat n) \<Longrightarrow> is_digit c"
  by (induction n rule: str_of_nat.induct) (subst (asm) (2) str_of_nat.simps, auto split: if_splits)

lemma digit_not_special:
  assumes "is_digit c"
  shows "c \<noteq> CHR ''_''" "c \<noteq> CHR ''-''" "c \<noteq> CHR ''+''" "c \<noteq> CHR '',''" "\<not> is_space c" "\<not> utf8_cont c"
  using assms by (auto simp: is_digit_def is_space_def utf8_cont_def Let_def)

lemma int_digits_append:
  "\<forall>c \<in> set s. is_digit c \<Longrightarrow> is_digit d \<Longrightarrow>
     int_digits acc (s @ [d]) = map_option (\<lambda>n. 10 * n + digit_val d) (int_digits acc s)"
proof (induction acc s rule: int_digits.induct)
  case (2 acc c) then show ?case by (auto simp: digit_not_special)
next
  case (3 acc c e s)
  then have "e \<noteq> CHR ''_''" by (auto simp: digit_not_special)
  with 3 show ?case by simp
qed simp

lemma int_digits_str_of_nat: "int_digits 0 (str_of_nat n) = Some n"
proof (induction n rule: str_of_nat.induct)
  case (1 n)
  show ?case
  proof (cases "n < 10")
    case False
    then have "int_digits 0 (str_of_nat (n div 10) @ [digit_char (n mod 10)]) = Some n"
      using 1 by (subst int_digits_append) (auto simp: str_of_nat_digits)
    then show ?thesis using False by (subst str_of_nat.simps) simp
  qed (subst str_of_nat.simps, simp)
qed

lemma nat_literal_str_of_nat [simp]: "nat_literal (str_of_nat n) = Some n"
  by (simp add: nat_literal_def int_digits_str_of_nat)

lemma hd_str_of_nat: "is_digit (hd (str_of_nat n))"
  by (rule str_of_nat_digits[of _ n]) simp

lemma last_str_of_nat: "is_digit (last (str_of_nat n))"
  by (rule str_of_nat_digits[of _ n]) simp

lemma strip_str_of_nat: "strip (str_of_nat n) = str_of_nat n"
  by (rule strip_id) (simp add: digit_not_special last_str_of_nat hd_str_of_nat)

lemma strip_str_of_int: "strip (str_of_int n) = str_of_int n"
proof (cases "n < 0")
  case True
  have "\<not> is_space (CHR ''-'')" by (simp add: is_space_def)
  then show ?thesis using True
    by (intro strip_id) (simp add: str_of_int_def digit_not_special last_str_of_nat)
qed (simp add: str_of_int_def strip_str_of_nat)

lemma str_of_int_chars: "c \<in> set (str_of_int n) \<Longrightarrow> is_digit c \<or> c = CHR ''-''"
  by (auto simp: str_of_int_def dest: str_of_nat_digits split: if_splits)

lemma str_of_int_no_space: "c \<in> set (str_of_int n) \<Longrightarrow> \<not> is_space c \<and> c \<noteq> CHR '',''"
  by (drule str_of_int_chars) (auto simp: digit_not_special, auto simp: is_space_def is_digit_def)

lemma str_of_int_not_Nil [simp]: "str_of_int n \<noteq> []"
  by (simp add: str_of_int_def)

lemma py_int_str_of_int: "py_int (str_of_int n) = Inr n"
proof (cases "n < 0")
  case True
  then show ?thesis using strip_str_of_int[of n]
    by (simp add: py_int_def str_of_int_def Let_def)
next
  case False
  have "hd (str_of_nat (nat n)) \<noteq> CHR ''-''" "hd (str_of_nat (nat n)) \<noteq> CHR ''+''"
    using hd_str_of_nat digit_not_special by blast+
  then show ?thesis using False strip_str_of_int[of n]
    by (simp add: py_int_def str_of_int_def Let_def)
qed

lemmas py_int_eval = py_int_def strip_def nat_literal_def is_space_def Let_def is_digit_def digit_val_def

section \<open>Padding and grouping in f-strings\<close>

text \<open>\<open>{s:<w}\<close> and \<open>{s:>w}\<close>.\<close>

definition ljust :: "nat \<Rightarrow> string \<Rightarrow> string" where
  "ljust w s = s @ replicate (w - nat (py_len s)) (CHR '' '')"

definition rjust :: "nat \<Rightarrow> string \<Rightarrow> string" where
  "rjust w s = replicate (w - nat (py_len s)) (CHR '' '') @ s"

text \<open>\<open>{n:,}\<close>: commas between groups of three digits, from the right.\<close>

fun group3 :: "string \<Rightarrow> string" where
  "group3 (a # b # c # d # s) = a # b # c # CHR '','' # group3 (d # s)"
| "group3 s = s"

definition commas :: "int \<Rightarrow> string" where
  "commas n = (if n < 0 then [CHR ''-''] else []) @ rev (group3 (rev (str_of_nat (nat \<bar>n\<bar>))))"

lemma group3_ungroup: "CHR '','' \<notin> set s \<Longrightarrow> filter (\<lambda>c. c \<noteq> CHR '','') (group3 s) = s"
  by (induction s rule: group3.induct) auto

lemma commas_ungroup: "filter (\<lambda>c. c \<noteq> CHR '','') (commas n) = str_of_int n"
proof -
  have "CHR '','' \<notin> set (rev (str_of_nat (nat \<bar>n\<bar>)))"
    using str_of_nat_digits digit_not_special(4) by auto
  then show ?thesis
    by (simp add: commas_def str_of_int_def group3_ungroup flip: rev_filter)
qed

lemma py_len_ljust: "py_len (ljust w s) = max (int w) (py_len s)"
proof -
  have "py_len (replicate k (CHR '' '')) = int k" for k
    by (simp add: py_len_def utf8_cont_def)
  then show ?thesis by (simp add: ljust_def max_def)
qed

lemma py_len_rjust: "py_len (rjust w s) = max (int w) (py_len s)"
proof -
  have "py_len (replicate k (CHR '' '')) = int k" for k
    by (simp add: py_len_def utf8_cont_def)
  then show ?thesis by (simp add: rjust_def max_def)
qed

section \<open>Ordinary exceptions\<close>

text \<open>A result is \<open>ordinary\<close> when it is a value or an exception that ends the process with
  status 1: no \<open>SystemExit\<close>, and no loop without end. The rules follow the structure of a
  definition.\<close>

fun ordinary_error :: "py_error \<Rightarrow> bool" where
  "ordinary_error (SystemExit n) = False"
| "ordinary_error (SystemExitMsg s) = False"
| "ordinary_error Diverged = False"
| "ordinary_error e = True"

definition ordinary :: "'a res \<Rightarrow> bool" where
  "ordinary r \<longleftrightarrow> (\<forall>e. r = Inl e \<longrightarrow> ordinary_error e)"

named_theorems ordinary "introduction rules for ordinary"

lemma ordinary_Inr [ordinary]: "ordinary (Inr x)"
  by (simp add: ordinary_def)

lemma ordinary_Inl [ordinary]: "ordinary_error e \<Longrightarrow> ordinary (Inl e)"
  by (simp add: ordinary_def)

lemma ordinary_bind [ordinary]: "ordinary m \<Longrightarrow> (\<And>x. ordinary (f x)) \<Longrightarrow> ordinary (bindE m f)"
  by (auto simp: ordinary_def bindE_eq_Inl)

lemma ordinary_if [ordinary]: "ordinary m \<Longrightarrow> ordinary n \<Longrightarrow> ordinary (if b then m else n)"
  by simp

lemma ordinary_fold [ordinary]: "(\<And>s x. ordinary (f s x)) \<Longrightarrow> ordinary (foldE f s xs)"
  by (induction xs arbitrary: s) (simp_all add: ordinary)

lemma ordinary_map [ordinary]: "(\<And>x. ordinary (f x)) \<Longrightarrow> ordinary (mapE f xs)"
  by (induction xs) (simp_all add: ordinary)

lemma ordinary_py_int [ordinary]: "ordinary (py_int s)"
  by (simp add: py_int_def Let_def ordinary split: option.split)

end
