(* ===== verification/Py_Float.thy ===== *)
theory Py_Float
  imports Py_Prelude
begin

text \<open>
  Python's numbers. An \<open>int\<close> is an \<^typ>\<open>int\<close>. A \<open>float\<close> is an IEEE 754 binary64
  number; it is kept as the rational number it denotes, and every operation of the source
  is the exact rational operation followed by \<open>fl\<close>, the rounding to the nearest double
  with ties to even (53 bits of precision, exponent down to \<open>-1074\<close>, so subnormal numbers
  are included). Conversions of integers that leave the range of the doubles raise
  \<open>OverflowError\<close> as in CPython; infinities, NaN and the sign of zero are not represented,
  no finite input of the scripts' own size reaches them.

  The contract that the clients rely on is the locale \<open>rounding\<close>: monotonicity, exactness
  on integers up to \<open>2^53\<close> and the relative error bound. It is interpreted on \<open>fl\<close>.
  The last part is the printing of numbers by f-strings.
\<close>

section \<open>Rounding to the nearest double\<close>

text \<open>Round half to even to an integer: also Python's \<open>round(x)\<close>.\<close>

definition rhe :: "'a::floor_ceiling \<Rightarrow> int" where
  "rhe x = (let f = \<lfloor>x\<rfloor>; d = x - of_int f in
     if d < 1 / 2 then f else if 1 / 2 < d then f + 1 else if even f then f else f + 1)"

text \<open>The binary exponent: \<open>2^(ilog2 x) \<le> x < 2^(ilog2 x + 1)\<close> for positive \<open>x\<close>.\<close>

definition ilog2 :: "rat \<Rightarrow> int" where
  "ilog2 x = (let (p, q) = quotient_of x;
                  k = bitlen p - bitlen q
              in if 2 powi k \<le> x then k else k - 1)"

text \<open>The exponent of the last bit of the significand of the double nearest to \<open>x\<close>.\<close>

definition fexp :: "rat \<Rightarrow> int" where
  "fexp x = max (ilog2 \<bar>x\<bar> - 52) (-1074)"

definition fl :: "rat \<Rightarrow> rat" where
  "fl x = (if x = 0 then 0 else of_int (rhe (x / 2 powi (fexp x))) * 2 powi (fexp x))"

lemma rhe_cases: "rhe x = \<lfloor>x\<rfloor> \<or> rhe x = \<lfloor>x\<rfloor> + 1"
  by (simp add: rhe_def Let_def)

lemma rhe_error: "\<bar>of_int (rhe x) - x\<bar> \<le> 1 / 2"
  for x :: "'a::floor_ceiling"
proof -
  have "of_int \<lfloor>x\<rfloor> \<le> x" "x < of_int \<lfloor>x\<rfloor> + 1" by linarith+
  then show ?thesis unfolding rhe_def Let_def abs_if by (simp add: field_simps; linarith)
qed

lemma rhe_of_int [simp]: "rhe (of_int n :: 'a::floor_ceiling) = n"
  by (simp add: rhe_def)

lemma rhe_mono:
  fixes x y :: "'a::floor_ceiling"
  assumes "x \<le> y" shows "rhe x \<le> rhe y"
proof (cases "\<lfloor>x\<rfloor> = \<lfloor>y\<rfloor>")
  case True
  then show ?thesis using assms by (auto simp: rhe_def Let_def)
next
  case False
  then have "\<lfloor>x\<rfloor> + 1 \<le> \<lfloor>y\<rfloor>" using floor_mono[OF assms] by linarith
  then show ?thesis using rhe_cases[of x] rhe_cases[of y] by linarith
qed

lemma rhe_minus: "rhe (- x) = - rhe x" for x :: "'a::floor_ceiling"
proof (cases "x = of_int \<lfloor>x\<rfloor>")
  case True
  then show ?thesis by (metis of_int_minus rhe_of_int)
next
  case False
  have f: "\<lfloor>- x\<rfloor> = - \<lfloor>x\<rfloor> - 1"
    using False by (metis ceiling_altdef ceiling_def minus_minus  diff_minus_eq_add minus_diff_eq add.commute uminus_add_conv_diff)
  show ?thesis
    unfolding rhe_def Let_def f by (auto simp: field_simps)
qed


lemma floorlog2_bounds:
  assumes "0 < (n::int)"
  shows "2 powi (int (floorlog 2 (nat n)) - 1) \<le> (of_int n :: rat)"
    and "(of_int n :: rat) < 2 powi int (floorlog 2 (nat n))"
proof -
  let ?k = "floorlog 2 (nat n)"
  have b: "2 ^ (?k - 1) \<le> nat n" "nat n < 2 ^ ?k"
    using floorlog_bounds[of "nat n" 2] assms by auto
  have "0 < ?k" using b(2) assms by (cases ?k) auto
  then have e: "int ?k - 1 = int (?k - 1)" by simp
  have "2 ^ (?k - 1) \<le> n" "n < 2 ^ ?k" using b assms
    by (simp_all add: nat_less_iff le_nat_iff)
  then have "of_int (2 ^ (?k - 1)) \<le> (of_int n :: rat)" "(of_int n :: rat) < of_int (2 ^ ?k)"
    by (simp_all only: of_int_le_iff of_int_less_iff)
  then show "2 powi (int ?k - 1) \<le> (of_int n :: rat)" "(of_int n :: rat) < 2 powi int ?k"
    unfolding e power_int_of_nat by simp_all
qed

lemma ilog2_bounds:
  assumes "0 < x"
  shows "2 powi (ilog2 x) \<le> x" and "x < 2 powi (ilog2 x + 1)"
proof -
  obtain p q where pq: "quotient_of x = (p, q)" by fastforce
  have q: "0 < q" and x: "x = of_int p / of_int q"
    using quotient_of_denom_pos[OF pq] quotient_of_div[OF pq] by auto
  then have p: "0 < p" using assms by (simp add: zero_less_divide_iff)
  define a where "a = bitlen p"
  define b where "b = bitlen q"
  note A = floorlog2_bounds[OF p, folded bitlen_def a_def]
  note B = floorlog2_bounds[OF q, folded bitlen_def b_def]
  have "2 powi (a - 1) / 2 powi b \<le> x" unfolding x
    by (rule frac_le) (use A B p q in auto)
  then have lo: "2 powi (a - b - 1) \<le> x"
    using power_int_diff[of "2::rat" "a - 1" b] by (simp add: algebra_simps)
  have "x < 2 powi a / 2 powi (b - 1)" unfolding x
    by (rule frac_less) (use A B p q in auto)
  then have hi: "x < 2 powi (a - b + 1)"
    using power_int_diff[of "2::rat" a "b - 1"] by (simp add: algebra_simps)
  have i: "ilog2 x = (if 2 powi (a - b) \<le> x then a - b else a - b - 1)"
    by (simp add: ilog2_def pq a_def b_def Let_def)
  show "2 powi (ilog2 x) \<le> x" using lo by (simp add: i)
  show "x < 2 powi (ilog2 x + 1)" using hi by (simp add: i)
qed

lemma ilog2_less: "0 < x \<Longrightarrow> x < 2 powi k \<Longrightarrow> ilog2 x < k"
proof (rule ccontr)
  assume "0 < x" "x < 2 powi k" "\<not> ilog2 x < k"
  then have "2 powi k \<le> (2::rat) powi (ilog2 x)" by (intro power_int_increasing) auto
  then show False using ilog2_bounds(1)[OF \<open>0 < x\<close>] \<open>x < 2 powi k\<close> by linarith
qed

lemma ilog2_ge: "0 < x \<Longrightarrow> 2 powi k \<le> x \<Longrightarrow> k \<le> ilog2 x"
proof (rule ccontr)
  assume "0 < x" "2 powi k \<le> x" "\<not> k \<le> ilog2 x"
  then have "(2::rat) powi (ilog2 x + 1) \<le> 2 powi k" by (intro power_int_increasing) auto
  then show False using ilog2_bounds(2)[OF \<open>0 < x\<close>] \<open>2 powi k \<le> x\<close> by linarith
qed

lemma ilog2_mono: "0 < x \<Longrightarrow> x \<le> y \<Longrightarrow> ilog2 x \<le> ilog2 y"
  by (meson ilog2_bounds(1) ilog2_ge order.trans order.strict_trans2)

lemma fl_0 [simp]: "fl 0 = 0"
  by (simp add: fl_def)

lemma fl_minus: "fl (- x) = - fl x"
  by (simp add: fl_def fexp_def rhe_minus)

lemma fl_pos: "0 < x \<Longrightarrow> fl x = of_int (rhe (x / 2 powi (fexp x))) * 2 powi (fexp x)"
  by (simp add: fl_def)

lemma fexp_upper: "0 < x \<Longrightarrow> x < 2 powi (fexp x + 53)"
proof -
  assume x: "0 < x"
  have "(2::rat) powi (ilog2 x + 1) \<le> 2 powi (fexp x + 53)"
    using x by (intro power_int_increasing) (auto simp: fexp_def)
  then show ?thesis using ilog2_bounds(2)[OF x] by linarith
qed

lemma fl_nonneg: "0 \<le> x \<Longrightarrow> 0 \<le> fl x"
proof -
  assume "0 \<le> x"
  then have "0 \<le> x / 2 powi (fexp x)" by simp
  then have "rhe (0::rat) \<le> rhe (x / 2 powi (fexp x))" by (rule rhe_mono)
  moreover have "rhe (0::rat) = 0" using rhe_of_int[of 0] by simp
  ultimately show ?thesis by (simp add: fl_def)
qed

lemma fl_le_pow2: "0 < x \<Longrightarrow> fl x \<le> 2 powi (fexp x + 53)"
proof -
  assume x: "0 < x"
  have "x / 2 powi (fexp x) \<le> of_int (2 ^ 53)"
    using fexp_upper[OF x] by (simp add: field_simps power_int_add)
  then have "rhe (x / 2 powi (fexp x)) \<le> 2 ^ 53" by (metis rhe_mono rhe_of_int)
  then have "of_int (rhe (x / 2 powi (fexp x))) \<le> (of_int (2 ^ 53) :: rat)"
    by (simp only: of_int_le_iff)
  then show ?thesis using x
    by (simp add: fl_pos power_int_add mult.commute mult_left_mono)
qed

lemma fl_mono_pos:
  assumes "0 < x" and "x \<le> y" shows "fl x \<le> fl y"
proof -
  have y: "0 < y" using assms by linarith
  have le: "fexp x \<le> fexp y" using ilog2_mono[OF assms] assms y by (simp add: fexp_def)
  show ?thesis
  proof (cases "fexp x = fexp y")
    case True
    have "rhe (x / 2 powi (fexp y)) \<le> rhe (y / 2 powi (fexp y))"
      by (intro rhe_mono divide_right_mono assms) simp
    then show ?thesis by (simp add: fl_pos assms y True mult_right_mono)
  next
    case False
    then have ey: "fexp y = ilog2 y - 52" "fexp x + 1 \<le> fexp y"
      using le y by (auto simp: fexp_def)
    then have "2 powi (fexp y + 52) \<le> y" using ilog2_bounds(1)[OF y] by simp
    then have "of_int (2 ^ 52) \<le> y / 2 powi (fexp y)"
      by (simp add: field_simps power_int_add)
    then have "2 ^ 52 \<le> rhe (y / 2 powi (fexp y))" by (metis rhe_mono rhe_of_int)
    then have "of_int (2 ^ 52) \<le> (of_int (rhe (y / 2 powi (fexp y))) :: rat)"
      by (simp only: of_int_le_iff)
    then have "2 powi (fexp y + 52) \<le> fl y"
      by (simp add: fl_pos y power_int_add mult.commute mult_left_mono)
    moreover have "(2::rat) powi (fexp x + 53) \<le> 2 powi (fexp y + 52)"
      using ey by (intro power_int_increasing) auto
    ultimately show ?thesis using fl_le_pow2[OF assms(1)] by linarith
  qed
qed

lemma fl_mono: "x \<le> y \<Longrightarrow> fl x \<le> fl y"
proof -
  assume xy: "x \<le> y"
  consider "0 < x" | "x \<le> 0" "0 \<le> y" | "y < 0" by linarith
  then show ?thesis
  proof cases
    case 1 then show ?thesis using xy by (rule fl_mono_pos)
  next
    case 2
    then show ?thesis using fl_nonneg[of y] fl_nonneg[of "- x"] by (simp add: fl_minus)
  next
    case 3
    then show ?thesis using fl_mono_pos[of "- y" "- x"] xy by (simp add: fl_minus)
  qed
qed

lemma fl_representable_pos:
  assumes "0 < m" "m < 2 ^ 53" "-1074 \<le> k"
  shows "fl (of_int m * 2 powi k) = of_int m * 2 powi k"
proof -
  let ?x = "of_int m * 2 powi k :: rat"
  have x: "0 < ?x" using assms by simp
  have "(of_int m :: rat) < of_int (2 ^ 53)" using assms by (simp only: of_int_less_iff)
  then have "?x < 2 powi (k + 53)" by (simp add: power_int_add)
  then have "fexp ?x \<le> k" using ilog2_less[OF x] assms x by (force simp: fexp_def)
  then obtain j where j: "k = fexp ?x + int j" using zle_iff_zadd by auto
  define e where "e = fexp ?x"
  have xe: "?x = of_int (m * 2 ^ j) * 2 powi e"
    unfolding j[folded e_def] by (simp add: power_int_add)
  have "?x / 2 powi e = of_int (m * 2 ^ j)" by (subst xe) simp
  then have "rhe (?x / 2 powi e) = m * 2 ^ j" by (metis rhe_of_int)
  then have "fl ?x = of_int (m * 2 ^ j) * 2 powi e" using x by (simp only: fl_pos e_def)
  then show ?thesis by (simp only: xe[symmetric])
qed

lemma fl_representable:
  assumes "\<bar>m\<bar> < 2 ^ 53" "-1074 \<le> k"
  shows "fl (of_int m * 2 powi k) = of_int m * 2 powi k"
proof -
  consider "0 < m" | "m = 0" | "0 < - m" by linarith
  then show ?thesis
  proof cases
    case 1 then show ?thesis using assms by (intro fl_representable_pos) auto
  next
    case 3
    then have "fl (of_int (- m) * 2 powi k) = of_int (- m) * 2 powi k"
      using assms by (intro fl_representable_pos) auto
    then show ?thesis by (simp add: fl_minus)
  qed simp
qed

lemma fl_of_int: "\<bar>n\<bar> \<le> 2 ^ 53 \<Longrightarrow> fl (of_int n) = of_int n"
proof -
  assume n: "\<bar>n\<bar> \<le> 2 ^ 53"
  consider "\<bar>n\<bar> < 2 ^ 53" | "n = 2 ^ 53" | "n = - (2 ^ 53)" using n by linarith
  then show ?thesis
  proof cases
    case 1 then show ?thesis using fl_representable[of n 0] by simp
  next
    case 2 then show ?thesis using fl_representable[of 1 53] by simp
  next
    case 3 then show ?thesis using fl_representable[of "-1" 53] by simp
  qed
qed

lemma fl_abs_error: "\<bar>fl x - x\<bar> \<le> 2 powi (fexp x) / 2"
proof (cases "x = 0")
  case False
  define e where "e = fexp x"
  have "fl x - x = (of_int (rhe (x / 2 powi e)) - x / 2 powi e) * 2 powi e"
    using False by (simp add: fl_def e_def field_simps)
  then have "\<bar>fl x - x\<bar> = \<bar>of_int (rhe (x / 2 powi e)) - x / 2 powi e\<bar> * 2 powi e"
    by (simp add: abs_mult)
  also have "\<dots> \<le> 1 / 2 * 2 powi e" by (intro mult_right_mono rhe_error) simp
  finally show ?thesis by (simp add: e_def)
qed simp

lemma fl_rel_error:
  assumes "2 powi (-1022) \<le> \<bar>x\<bar>"
  shows "\<bar>fl x - x\<bar> \<le> \<bar>x\<bar> / 2 ^ 53"
proof -
  have x: "0 < \<bar>x\<bar>" using assms by (auto intro: less_le_trans[of _ "2 powi (-1022)"])
  have "-1022 \<le> ilog2 \<bar>x\<bar>" using assms x by (rule ilog2_ge[rotated])
  then have e: "fexp x = ilog2 \<bar>x\<bar> - 52" by (simp add: fexp_def)
  have "2 powi (fexp x) / 2 = 2 powi (ilog2 \<bar>x\<bar>) / (2 ^ 53 :: rat)"
    by (simp add: e power_int_diff)
  also have "\<dots> \<le> \<bar>x\<bar> / 2 ^ 53" using ilog2_bounds(1)[OF x] by (intro divide_right_mono) auto
  finally show ?thesis using fl_abs_error[of x] by linarith
qed


text \<open>On the scale of a canvas the error is far below a pixel.\<close>

lemma fl_error_below:
  assumes "\<bar>x\<bar> < 2 ^ k" "k \<le> 53"
  shows "\<bar>fl x - x\<bar> \<le> 1 / 2 ^ (54 - k)"
proof (cases "x = 0")
  case False
  then have "ilog2 \<bar>x\<bar> < int k" using assms(1) by (intro ilog2_less) auto
  then have "fexp x \<le> - int (54 - k) + 1" using assms(2) by (simp add: fexp_def of_nat_diff)
  then have "2 powi (fexp x) \<le> (2 powi (- int (54 - k) + 1) :: rat)" by (intro power_int_increasing) simp_all
  also have "\<dots> = 2 powi (- int (54 - k)) * 2" by (rule power_int_add_1) simp
  also have "2 powi (- int (54 - k)) = (1 / 2 ^ (54 - k) :: rat)" by (simp only: power_int_minus power_int_of_nat inverse_eq_divide)
  finally have "2 powi (fexp x) / 2 \<le> (1 / 2 ^ (54 - k) :: rat)" by (simp only: divide_le_eq_numeral1 times_divide_eq_left)
  with fl_abs_error[of x] show ?thesis by (rule order_trans)
qed simp

lemma fl_canvas_error: "\<bar>x\<bar> < 2 ^ 13 \<Longrightarrow> \<bar>fl x - x\<bar> \<le> 1 / 2 ^ 41"
  using fl_error_below[of x 13] by simp

lemma fl_real_error:
  assumes "\<bar>real_of_rat x\<bar> < 2 ^ 20"
  shows "\<bar>real_of_rat (fl x) - real_of_rat x\<bar> \<le> 1 / 2 ^ 34"
proof -
  have "real_of_rat \<bar>x\<bar> < real_of_rat (2 ^ 20)" using assms by (simp add: of_rat_power)
  then have "\<bar>x\<bar> < 2 ^ 20" by (simp only: of_rat_less)
  then have "\<bar>fl x - x\<bar> \<le> 1 / 2 ^ 34" using fl_error_below[of x 20] by simp
  then have "real_of_rat \<bar>fl x - x\<bar> \<le> real_of_rat (1 / 2 ^ 34)" by (simp only: of_rat_less_eq)
  then have "\<bar>real_of_rat (fl x - x)\<bar> \<le> real_of_rat (1 / 2 ^ 34)" by simp
  moreover have "real_of_rat (1 / 2 ^ 34) = 1 / 2 ^ 34" by (simp add: of_rat_divide)
  ultimately show ?thesis by (simp only: of_rat_diff)
qed

text \<open>Code equations on integers, so that the kernel evaluates \<open>fl\<close> on concrete numbers.\<close>

definition round_div :: "int \<Rightarrow> int \<Rightarrow> int" where
  "round_div n d = (let f = n div d; r = 2 * (n mod d) in
     if r < d then f else if d < r then f + 1 else if even f then f else f + 1)"

lemma rhe_divide: "0 < d \<Longrightarrow> rhe (of_int n / of_int d :: 'a::floor_ceiling) = round_div n d"
proof -
  assume d: "0 < d"
  have f: "\<lfloor>of_int n / of_int d :: 'a\<rfloor> = n div d" by (rule floor_divide_of_int_eq)
  have nd: "n = d * (n div d) + n mod d" by simp
  have "(of_int n :: 'a) = of_int d * of_int (n div d) + of_int (n mod d)"
    by (subst nd) (simp only: of_int_add of_int_mult)
  then have r: "(of_int n / of_int d - of_int (n div d) :: 'a) = of_int (n mod d) / of_int d"
    using d by (simp add: field_simps)
  have c1: "(of_int (n mod d) / of_int d < (1 / 2 :: 'a)) = (2 * (n mod d) < d)"
    using d by (simp add: field_simps) (metis of_int_less_iff of_int_mult of_int_numeral mult.commute)
  have c2: "((1 / 2 :: 'a) < of_int (n mod d) / of_int d) = (d < 2 * (n mod d))"
    using d by (simp add: field_simps) (metis of_int_less_iff of_int_mult of_int_numeral mult.commute)
  show ?thesis by (simp only: rhe_def round_div_def Let_def f r c1 c2)
qed

lemma pow2_le_code:
  "0 < q \<Longrightarrow> (2 powi k \<le> (of_int p / of_int q :: rat)) =
     (if k < 0 then q \<le> p * 2 ^ nat (- k) else q * 2 ^ nat k \<le> p)"
proof (cases "k < 0")
  case True
  assume "0 < q"
  then have "(2 powi k \<le> (of_int p / of_int q :: rat)) = ((of_int q :: rat) \<le> of_int (p * 2 ^ nat (- k)))"
    using True by (simp add: power_int_def field_simps)
  then show ?thesis using True by (simp only: of_int_le_iff) simp
next
  case False
  assume "0 < q"
  then have "(2 powi k \<le> (of_int p / of_int q :: rat)) = ((of_int (q * 2 ^ nat k) :: rat) \<le> of_int p)"
    using False by (simp add: power_int_def field_simps)
  then show ?thesis using False by (simp only: of_int_le_iff) simp
qed

lemma ilog2_code [code]:
  "ilog2 x = (let (p, q) = quotient_of x; k = bitlen p - bitlen q in
     if (if k < 0 then q \<le> p * 2 ^ nat (- k) else q * 2 ^ nat k \<le> p) then k else k - 1)"
proof -
  obtain p q where pq: "quotient_of x = (p, q)" by fastforce
  note q = quotient_of_denom_pos[OF pq] and x = quotient_of_div[OF pq]
  show ?thesis by (simp only: ilog2_def Let_def pq case_prod_conv) (simp only: x pow2_le_code[OF q])
qed

lemma fl_code [code]:
  "fl x = (let (p, q) = quotient_of x; e = fexp x in
     if p = 0 then 0
     else if e < 0 then of_int (round_div (p * 2 ^ nat (- e)) q) / of_int (2 ^ nat (- e))
     else of_int (round_div p (q * 2 ^ nat e) * 2 ^ nat e))"
proof -
  obtain p q where pq: "quotient_of x = (p, q)" by fastforce
  note q = quotient_of_denom_pos[OF pq] and x = quotient_of_div[OF pq]
  define e where "e = fexp x"
  have p0: "x = 0 \<longleftrightarrow> p = 0" using q by (subst x) simp
  have F: "x \<noteq> 0 \<Longrightarrow> fl x = of_int (rhe (x / 2 powi e)) * 2 powi e"
    by (simp add: fl_def e_def)
  show ?thesis
  proof (cases "e < 0")
    case True
    have "x / 2 powi e = of_int (p * 2 ^ nat (- e)) / of_int q"
      using True by (subst x) (simp add: power_int_def field_simps)
    then have r: "rhe (x / 2 powi e) = round_div (p * 2 ^ nat (- e)) q"
      by (simp only: rhe_divide[OF q])
    have "2 powi e = 1 / (of_int (2 ^ nat (- e)) :: rat)"
      using True by (simp add: power_int_def field_simps)
    then show ?thesis using True p0 F
      unfolding pq e_def[symmetric] Let_def case_prod_conv r by (cases "p = 0") simp_all
  next
    case False
    have "x / 2 powi e = of_int p / of_int (q * 2 ^ nat e)"
      using False by (subst x) (simp add: power_int_def field_simps)
    moreover have "0 < q * 2 ^ nat e" using q by simp
    ultimately have r: "rhe (x / 2 powi e) = round_div p (q * 2 ^ nat e)"
      by (simp only: rhe_divide)
    have "2 powi e = (of_int (2 ^ nat e) :: rat)"
      using False by (simp add: power_int_def)
    then show ?thesis using False p0 F
      unfolding pq e_def[symmetric] Let_def case_prod_conv r by (cases "p = 0") simp_all
  qed
qed

section \<open>The contract of rounding\<close>

locale rounding =
  fixes rnd :: "rat \<Rightarrow> rat"
  assumes rnd_mono: "x \<le> y \<Longrightarrow> rnd x \<le> rnd y"
    and rnd_int: "\<bar>n\<bar> \<le> 2 ^ 53 \<Longrightarrow> rnd (of_int n) = of_int n"
    and rnd_rel: "2 powi (-1022) \<le> \<bar>x\<bar> \<Longrightarrow> \<bar>rnd x - x\<bar> \<le> \<bar>x\<bar> / 2 ^ 53"
begin

lemma rnd_0 [simp]: "rnd 0 = 0"
  using rnd_int[of 0] by simp

lemma rnd_1 [simp]: "rnd 1 = 1"
  using rnd_int[of 1] by simp

lemma rnd_ge_int: "\<bar>n\<bar> \<le> 2 ^ 53 \<Longrightarrow> of_int n \<le> x \<Longrightarrow> of_int n \<le> rnd x"
  by (metis rnd_mono rnd_int)

lemma rnd_le_int: "\<bar>n\<bar> \<le> 2 ^ 53 \<Longrightarrow> x \<le> of_int n \<Longrightarrow> rnd x \<le> of_int n"
  by (metis rnd_mono rnd_int)

lemma rnd_nonneg: "0 \<le> x \<Longrightarrow> 0 \<le> rnd x"
  using rnd_ge_int[of 0 x] by simp

lemma rnd_le_1: "x \<le> 1 \<Longrightarrow> rnd x \<le> 1"
  using rnd_le_int[of 1 x] by simp

text \<open>
  A quotient of integers whose numerator is below \<open>2^53\<close> never crosses an integer when it
  is rounded, so comparing the rounded quotient with an integer is comparing exactly.
\<close>

lemma rnd_quot_close:
  assumes a: "0 < a" "a < 2 ^ 53" and b: "0 < b" "b < 2 ^ 53"
  shows "\<bar>rnd (of_int a / of_int b) - of_int a / of_int b\<bar> < 1 / of_int b"
proof -
  define q where "q = (of_int a / of_int b :: rat)"
  have ab: "(of_int 1 :: rat) \<le> of_int a" "(of_int a :: rat) < of_int (2 ^ 53)"
      "(of_int b :: rat) < of_int (2 ^ 53)" "(0 :: rat) < of_int b"
    using a b by (simp_all only: of_int_le_iff of_int_less_iff of_int_0_less_iff)
  have "2 powi (-1022) \<le> (1 / 2 ^ 53 :: rat)" by simp
  also have "\<dots> \<le> 1 / of_int b" using ab by (intro divide_left_mono) auto
  also have "\<dots> \<le> q" using ab by (simp add: q_def divide_right_mono)
  finally have "\<bar>rnd q - q\<bar> \<le> q / 2 ^ 53" using rnd_rel[of q] ab by (simp add: q_def)
  also have "\<dots> < 1 / of_int b" using ab by (simp add: q_def field_simps)
  finally show ?thesis by (simp add: q_def)
qed

lemma rnd_quot_le_iff:
  assumes a: "0 \<le> a" "a < 2 ^ 53" and b: "0 < b" "b < 2 ^ 53"
  shows "rnd (of_int a / of_int b) \<le> of_int n \<longleftrightarrow> a \<le> n * b"
proof (cases "a = 0")
  case True
  then show ?thesis using b by (simp add: zero_le_mult_iff)
next
  case False
  then have c: "\<bar>rnd (of_int a / of_int b) - of_int a / of_int b\<bar> < 1 / of_int b"
    using a b by (intro rnd_quot_close) auto
  have bq: "(0 :: rat) < of_int b" using b by simp
  show ?thesis
  proof
    assume le: "rnd (of_int a / of_int b) \<le> of_int n"
    then have "of_int a / of_int b < of_int n + 1 / (of_int b :: rat)" using c by linarith
    then have "(of_int a :: rat) < of_int (n * b + 1)" using bq by (simp add: field_simps)
    then have "a < n * b + 1" by (simp only: of_int_less_iff)
    then show "a \<le> n * b" by linarith
  next
    assume le: "a \<le> n * b"
    then have "(of_int a :: rat) \<le> of_int (n * b)" by (simp only: of_int_le_iff)
    then have q: "of_int a / of_int b \<le> (of_int n :: rat)" using bq by (simp add: field_simps)
    have "0 \<le> n" using le a b by (metis mult_less_0_iff not_less order_trans)
    have "of_int a / of_int b \<le> (of_int (2 ^ 53) :: rat)"
    proof -
      have "a \<le> 2 ^ 53 * b" using a b by (smt (verit) mult_le_cancel_left1)
      then have "(of_int a :: rat) \<le> of_int (2 ^ 53 * b)" by (simp only: of_int_le_iff)
      then show ?thesis using bq by (simp add: field_simps)
    qed
    then have "of_int a / of_int b \<le> (of_int (min n (2 ^ 53)) :: rat)"
      using q by (simp add: min_def)
    then have "rnd (of_int a / of_int b) \<le> of_int (min n (2 ^ 53))"
      using \<open>0 \<le> n\<close> by (intro rnd_le_int) auto
    also have "\<dots> \<le> of_int n" by (simp only: of_int_le_iff min.cobounded1)
    finally show "rnd (of_int a / of_int b) \<le> of_int n" .
  qed
qed

end

interpretation binary64: rounding fl
  by unfold_locales (erule fl_mono fl_of_int fl_rel_error)+

section \<open>Dynamically typed numbers\<close>

text \<open>
  Where the source mixes \<open>int\<close> and \<open>float\<close> in one variable (\<open>pct\<close>, the legend's
  \<open>lx\<close>) the number carries its type.
\<close>

datatype pynum = PyInt int | PyFloat rat

fun num_val :: "pynum \<Rightarrow> rat" where
  "num_val (PyInt n) = of_int n"
| "num_val (PyFloat x) = x"

definition in_range :: "rat \<Rightarrow> rat res" where
  "in_range x = (if 2 ^ 1024 \<le> \<bar>x\<bar> then Inl OverflowError else Inr x)"

text \<open>\<open>float(n)\<close>, and the implicit conversion of an \<open>int\<close> operand.\<close>

definition float_of_int :: "int \<Rightarrow> rat res" where
  "float_of_int n = in_range (fl (of_int n))"

text \<open>\<open>m / n\<close> on two integers: the correctly rounded quotient.\<close>

definition int_truediv :: "int \<Rightarrow> int \<Rightarrow> rat res" where
  "int_truediv m n = (if n = 0 then Inl ZeroDivisionError else in_range (fl (of_int m / of_int n)))"

fun to_float :: "pynum \<Rightarrow> rat res" where
  "to_float (PyInt n) = float_of_int n"
| "to_float (PyFloat x) = Inr x"

fun num_add :: "pynum \<Rightarrow> pynum \<Rightarrow> pynum res" where
  "num_add (PyInt m) (PyInt n) = Inr (PyInt (m + n))"
| "num_add a b = bindE (to_float a) (\<lambda>x. bindE (to_float b) (\<lambda>y. Inr (PyFloat (fl (x + y)))))"

fun num_mul :: "pynum \<Rightarrow> pynum \<Rightarrow> pynum res" where
  "num_mul (PyInt m) (PyInt n) = Inr (PyInt (m * n))"
| "num_mul a b = bindE (to_float a) (\<lambda>x. bindE (to_float b) (\<lambda>y. Inr (PyFloat (fl (x * y)))))"

lemma abs_less_2_1024: "\<bar>x\<bar> \<le> 2 ^ 1000 \<Longrightarrow> in_range x = Inr x"
proof -
  assume "\<bar>x\<bar> \<le> 2 ^ 1000"
  moreover have "(2::rat) ^ 1000 < 2 ^ 1024" by simp
  ultimately show ?thesis by (simp only: in_range_def) auto
qed

lemma float_of_int_small: "\<bar>n\<bar> \<le> 2 ^ 53 \<Longrightarrow> float_of_int n = Inr (of_int n)"
proof -
  assume n: "\<bar>n\<bar> \<le> 2 ^ 53"
  then have "\<bar>of_int n :: rat\<bar> \<le> of_int (2 ^ 53)" by (simp only: of_int_le_iff flip: of_int_abs)
  also have "\<dots> \<le> 2 ^ 1000" by simp
  finally show ?thesis using n by (simp only: float_of_int_def fl_of_int abs_less_2_1024)
qed

lemma int_truediv_small:
  assumes "\<bar>m\<bar> \<le> 2 ^ 53" "n \<noteq> 0"
  shows "int_truediv m n = Inr (fl (of_int m / of_int n))"
proof -
  have n: "1 \<le> \<bar>of_int n :: rat\<bar>" using assms(2) by (simp flip: of_int_abs)
  have m: "\<bar>of_int m :: rat\<bar> \<le> of_int (2 ^ 53)"
    using assms(1) by (simp only: of_int_le_iff flip: of_int_abs)
  have "\<bar>of_int m :: rat\<bar> / \<bar>of_int n\<bar> \<le> \<bar>of_int m\<bar> / 1"
    using n by (intro divide_left_mono) auto
  then have q: "\<bar>of_int m / of_int n :: rat\<bar> \<le> of_int (2 ^ 53)" using m by (simp add: abs_divide)
  then have lo: "of_int (- (2 ^ 53)) \<le> (of_int m / of_int n :: rat)"
    and hi: "(of_int m / of_int n :: rat) \<le> of_int (2 ^ 53)"
    unfolding abs_le_iff by simp_all
  have "of_int (- (2 ^ 53)) \<le> fl (of_int m / of_int n)" "fl (of_int m / of_int n) \<le> of_int (2 ^ 53)"
    using binary64.rnd_ge_int[OF _ lo] binary64.rnd_le_int[OF _ hi] by simp_all
  then have "\<bar>fl (of_int m / of_int n)\<bar> \<le> of_int (2 ^ 53)" by (simp add: abs_le_iff)
  also have "\<dots> \<le> 2 ^ 1000" by simp
  finally show ?thesis using assms(2) by (simp only: int_truediv_def abs_less_2_1024 if_False)
qed

section \<open>Numbers in f-strings\<close>

text \<open>\<open>{x:.nf}\<close>: the decimal with \<open>n\<close> places nearest to the exact value, ties to even;
  the sign of a negative number is kept even when the digits are all zero.\<close>

definition zfill :: "nat \<Rightarrow> string \<Rightarrow> string" where
  "zfill w s = replicate (w - length s) (CHR ''0'') @ s"

definition fixed_digits :: "nat \<Rightarrow> int \<Rightarrow> string" where
  "fixed_digits n k = str_of_nat (nat k div 10 ^ n) @
     (if n = 0 then [] else CHR ''.'' # zfill n (str_of_nat (nat k mod 10 ^ n)))"

definition fmt_fixed :: "nat \<Rightarrow> rat \<Rightarrow> string" where
  "fmt_fixed n x = (if x < 0 then [CHR ''-''] else []) @ fixed_digits n (rhe (\<bar>x\<bar> * 10 ^ n))"

text \<open>
  \<open>repr(x)\<close> of a float with \<open>10^(-4) \<le> \<bar>x\<bar> < 10^16\<close> or 0: the fewest decimal places
  that read back as \<open>x\<close>, and at least one place.
\<close>

definition repr_places :: "rat \<Rightarrow> nat" where
  "repr_places x = (case find (\<lambda>d. fl (of_int (rhe (\<bar>x\<bar> * 10 ^ d)) / 10 ^ d) = \<bar>x\<bar>) [1..<21] of
     Some d \<Rightarrow> d | None \<Rightarrow> 20)"

definition repr_float :: "rat \<Rightarrow> string" where
  "repr_float x = fmt_fixed (repr_places x) x"

text \<open>\<open>str(v)\<close> of a number, as in \<open>{lx+5}\<close>.\<close>

fun str_of_num :: "pynum \<Rightarrow> string" where
  "str_of_num (PyInt n) = str_of_int n"
| "str_of_num (PyFloat x) = repr_float x"

lemma repr_places_reads_back:
  assumes "fl (of_int (rhe (\<bar>x\<bar> * 10 ^ d)) / 10 ^ d) = \<bar>x\<bar>" "1 \<le> d" "d \<le> 20"
  shows "fl (of_int (rhe (\<bar>x\<bar> * 10 ^ repr_places x)) / 10 ^ repr_places x) = \<bar>x\<bar>"
    and "repr_places x \<le> d"
proof -
  let ?P = "\<lambda>d. fl (of_int (rhe (\<bar>x\<bar> * 10 ^ d)) / 10 ^ d) = \<bar>x\<bar>"
  have "find ?P [1..<21] \<noteq> None" using assms by (auto simp: find_None_iff intro!: exI[of _ d])
  then obtain k where k: "find ?P [1..<21] = Some k" by blast
  then have r: "repr_places x = k" by (simp add: repr_places_def)
  obtain i where i: "i < length [1..<21]" "?P ([1..<21] ! i)" "k = [1..<21] ! i"
      "\<forall>j<i. \<not> ?P ([1..<21] ! j)"
    using k unfolding find_Some_iff by blast
  then show "?P (repr_places x)" by (simp only: r)
  have "\<not> d < k"
  proof
    assume "d < k"
    then have "d - 1 < i" "[1..<21] ! (d - 1) = d" using i assms(2) by (auto simp del: upt.simps upt_rec_numeral)
    then show False using i(4) assms(1) by metis
  qed
  then show "repr_places x \<le> d" using r by simp
qed

lemma ordinary_float [ordinary]: "ordinary (in_range x)" "ordinary (float_of_int n)" "ordinary (to_float a)" "ordinary (num_mul a b)"
proof -
  show "ordinary (in_range y)" for y by (simp add: in_range_def ordinary)
  then show f: "ordinary (float_of_int n)" for n by (simp add: float_of_int_def)
  show t: "ordinary (to_float c)" for c by (cases c) (simp_all add: ordinary f)
  show "ordinary (num_mul a b)" by (cases a; cases b) (simp_all add: ordinary f)
qed

end
