(* ===== verification/Py_Dict.thy ===== *)
theory Py_Dict
  imports Py_Prelude
begin

text \<open>
  Python dictionaries. Iteration follows insertion order, and the order shows in the
  output of the scripts, so a \<open>dict\<close> is an association list with distinct keys:
  \<open>dict_get\<close> is \<open>d.get(k)\<close>, \<open>dict_set\<close> is \<open>d[k] = v\<close>, which keeps the
  place of an existing key. The interface is the locale \<open>ordered_dict\<close>; the accumulation
  \<open>d.setdefault(k, []).append(v)\<close>, by which every script groups its rows, is proved
  correct once from that interface.
\<close>

type_synonym ('k, 'v) dict = "('k \<times> 'v) list"

definition dict_keys :: "('k, 'v) dict \<Rightarrow> 'k list" where
  "dict_keys d = map fst d"

fun dict_get :: "('k, 'v) dict \<Rightarrow> 'k \<Rightarrow> 'v option" where
  "dict_get [] k = None"
| "dict_get ((k', v) # d) k = (if k' = k then Some v else dict_get d k)"

fun dict_set :: "'k \<Rightarrow> 'v \<Rightarrow> ('k, 'v) dict \<Rightarrow> ('k, 'v) dict" where
  "dict_set k v [] = [(k, v)]"
| "dict_set k v ((k', v') # d) = (if k' = k then (k, v) # d else (k', v') # dict_set k v d)"

text \<open>\<open>d.setdefault(k, []).append(v)\<close>.\<close>

definition dict_append :: "'k \<Rightarrow> 'v \<Rightarrow> ('k, 'v list) dict \<Rightarrow> ('k, 'v list) dict" where
  "dict_append k v d = dict_set k ((case dict_get d k of None \<Rightarrow> [] | Some vs \<Rightarrow> vs) @ [v]) d"

text \<open>\<open>d[k]\<close>: the lookup that raises.\<close>

definition dict_index :: "('k \<Rightarrow> string) \<Rightarrow> ('k, 'v) dict \<Rightarrow> 'k \<Rightarrow> 'v res" where
  "dict_index show_key d k = (case dict_get d k of None \<Rightarrow> Inl (KeyError (show_key k)) | Some v \<Rightarrow> Inr v)"

section \<open>The interface of dictionaries\<close>

locale ordered_dict =
  fixes emp :: 'd
    and get :: "'d \<Rightarrow> 'k \<Rightarrow> 'v option"
    and put :: "'k \<Rightarrow> 'v \<Rightarrow> 'd \<Rightarrow> 'd"
    and keys :: "'d \<Rightarrow> 'k list"
    and inv :: "'d \<Rightarrow> bool"
  assumes get_emp: "get emp k = None"
    and keys_emp: "keys emp = []"
    and get_put: "inv d \<Longrightarrow> get (put k v d) k' = (if k' = k then Some v else get d k')"
    and keys_put: "inv d \<Longrightarrow> keys (put k v d) = (if k \<in> set (keys d) then keys d else keys d @ [k])"
    and keys_get: "inv d \<Longrightarrow> k \<in> set (keys d) \<longleftrightarrow> get d k \<noteq> None"
    and keys_distinct: "inv d \<Longrightarrow> distinct (keys d)"
    and inv_emp: "inv emp"
    and inv_put: "inv d \<Longrightarrow> inv (put k v d)"
begin

lemma put_put_get: "inv d \<Longrightarrow> get (put k v (put k u d)) k' = get (put k v d) k'"
  by (simp add: get_put inv_put)

lemma keys_put_set: "inv d \<Longrightarrow> set (keys (put k v d)) = insert k (set (keys d))"
  by (auto simp: keys_put)

lemma foldl_put_inv: "inv d \<Longrightarrow> inv (foldl (\<lambda>d (k, v). put k v d) d kvs)"
  by (induction kvs arbitrary: d) (auto simp: inv_put)

text \<open>Filling a dictionary from pairs: the last pair of a key wins.\<close>

lemma foldl_put_get:
  "inv d \<Longrightarrow> get (foldl (\<lambda>d (k, v). put k v d) d kvs) k =
     (case map_of (rev kvs) k of None \<Rightarrow> get d k | Some v \<Rightarrow> Some v)"
  by (induction kvs arbitrary: d) (auto simp: inv_put get_put map_add_def split: option.splits)

end

text \<open>Dictionaries whose values are lists: grouping.\<close>

locale grouping_dict = ordered_dict emp get put keys inv
  for emp :: 'd and get :: "'d \<Rightarrow> 'k \<Rightarrow> 'a list option"
    and put :: "'k \<Rightarrow> 'a list \<Rightarrow> 'd \<Rightarrow> 'd" and keys :: "'d \<Rightarrow> 'k list" and inv :: "'d \<Rightarrow> bool" +
  fixes app :: "'k \<Rightarrow> 'a \<Rightarrow> 'd \<Rightarrow> 'd"
  assumes app_put: "app k a d = put k ((case get d k of None \<Rightarrow> [] | Some as \<Rightarrow> as) @ [a]) d"
begin

lemma group_inv: "inv d \<Longrightarrow> inv (foldl (\<lambda>d (k, a). app k a d) d kas)"
  by (induction kas arbitrary: d) (auto simp: app_put inv_put)

lemma group_get_from:
  "inv d \<Longrightarrow> get (foldl (\<lambda>d (k, a). app k a d) d kas) k =
     (let as = map snd (filter (\<lambda>p. fst p = k) kas) in
      if as = [] then get d k else Some ((case get d k of None \<Rightarrow> [] | Some bs \<Rightarrow> bs) @ as))"
  by (induction kas arbitrary: d)
     (auto simp: app_put inv_put get_put Let_def split: option.splits)

lemma group_get:
  "get (foldl (\<lambda>d (k, a). app k a d) emp kas) k =
     (let as = map snd (filter (\<lambda>p. fst p = k) kas) in if as = [] then None else Some as)"
  by (simp add: group_get_from inv_emp get_emp)

lemma group_keys_from:
  "inv d \<Longrightarrow> set (keys (foldl (\<lambda>d (k, a). app k a d) d kas)) = set (keys d) \<union> fst ` set kas"
  by (induction kas arbitrary: d) (auto simp: app_put inv_put keys_put_set, force)

lemma group_keys: "set (keys (foldl (\<lambda>d (k, a). app k a d) emp kas)) = fst ` set kas"
  by (simp add: group_keys_from inv_emp keys_emp)

lemma group_distinct: "distinct (keys (foldl (\<lambda>d (k, a). app k a d) emp kas))"
  by (intro keys_distinct group_inv inv_emp)

end

section \<open>Association lists implement it\<close>

lemma dict_get_set: "dict_get (dict_set k v d) k' = (if k' = k then Some v else dict_get d k')"
  by (induction d rule: dict_set.induct) auto

lemma dict_keys_set: "dict_keys (dict_set k v d) = (if k \<in> set (dict_keys d) then dict_keys d else dict_keys d @ [k])"
  by (induction k v d rule: dict_set.induct) (auto simp: dict_keys_def)

lemma dict_get_keys: "k \<in> set (dict_keys d) \<longleftrightarrow> dict_get d k \<noteq> None"
  by (induction d k rule: dict_get.induct) (auto simp: dict_keys_def)

interpretation alist: ordered_dict "[]" dict_get dict_set dict_keys "\<lambda>d. distinct (dict_keys d)"
  by unfold_locales (auto simp: dict_get_set dict_keys_set dict_get_keys, simp_all add: dict_keys_def)

interpretation alist_group: grouping_dict "[]" dict_get dict_set dict_keys "\<lambda>d. distinct (dict_keys d)" dict_append
  by unfold_locales (simp add: dict_append_def)

lemma dict_get_Some_mem: "dict_get d k = Some v \<Longrightarrow> (k, v) \<in> set d"
  by (induction d k rule: dict_get.induct) (auto split: if_splits)

lemma dict_get_mem: "distinct (dict_keys d) \<Longrightarrow> (k, v) \<in> set d \<Longrightarrow> dict_get d k = Some v"
  by (induction d k rule: dict_get.induct) (auto simp: dict_keys_def rev_image_eqI split: if_splits)

lemma dict_get_map: "dict_get (map (\<lambda>(k, v). (k, f k v)) d) k = map_option (f k) (dict_get d k)"
  by (induction d k rule: dict_get.induct) auto

end
