(* ===== verification/Py_IO.thy ===== *)
theory Py_IO
  imports Py_Prelude
begin

text \<open>
  A script as a state transformer: the \<open>world\<close> holds the files, the two output streams and
  the directories the script asked for,
  and a statement returns its value or the exception it raises together with the world it
  leaves, so output printed before an exception is kept. \<open>run\<close> is the process: its exit
  status and the world at exit.
\<close>

record world =
  files :: "string \<rightharpoonup> string"
  stdout :: string
  stderr :: string
  dirs :: "string list"

type_synonym 'a io = "world \<Rightarrow> 'a res \<times> world"

definition returnI :: "'a \<Rightarrow> 'a io" where
  "returnI x w = (Inr x, w)"

definition raiseI :: "py_error \<Rightarrow> 'a io" where
  "raiseI e w = (Inl e, w)"

definition liftI :: "'a res \<Rightarrow> 'a io" where
  "liftI r w = (r, w)"

definition bindI :: "'a io \<Rightarrow> ('a \<Rightarrow> 'b io) \<Rightarrow> 'b io" where
  "bindI m f w = (case m w of (Inl e, w') \<Rightarrow> (Inl e, w') | (Inr x, w') \<Rightarrow> f x w')"

text \<open>\<open>print(s)\<close> and \<open>print(s, file=sys.stderr)\<close>.\<close>

definition printI :: "string \<Rightarrow> unit io" where
  "printI s w = (Inr (), w\<lparr>stdout := stdout w @ s @ [CHR 0x0A]\<rparr>)"

definition eprintI :: "string \<Rightarrow> unit io" where
  "eprintI s w = (Inr (), w\<lparr>stderr := stderr w @ s @ [CHR 0x0A]\<rparr>)"

text \<open>\<open>open(path).read()\<close> and \<open>open(path, "w").write(text)\<close>.\<close>

definition readI :: "string \<Rightarrow> string io" where
  "readI path w = (case files w path of None \<Rightarrow> (Inl (FileNotFoundError path), w) | Some t \<Rightarrow> (Inr t, w))"

definition existsI :: "string \<Rightarrow> bool io" where
  "existsI path w = (Inr (files w path \<noteq> None), w)"

definition writeI :: "string \<Rightarrow> string \<Rightarrow> unit io" where
  "writeI path t w = (Inr (), w\<lparr>files := (files w)(path \<mapsto> t)\<rparr>)"

text \<open>\<open>os.makedirs(path, exist_ok=True)\<close>. The directory is recorded; whether it can
  be created is not modelled beyond a file of that name (an empty name or a parent that
  cannot be written to would raise), and \<open>writeI\<close> takes the directory
  of the file it writes to exist.\<close>

definition makedirsI :: "string \<Rightarrow> unit io" where
  "makedirsI path w = (if files w path \<noteq> None then (Inl (FileExistsError path), w)
     else (Inr (), w\<lparr>dirs := (if path \<in> set (dirs w) then dirs w else dirs w @ [path])\<rparr>))"

text \<open>\<open>os.path.join(a, b)\<close> and \<open>os.path.dirname(p)\<close>, as in \<open>posixpath\<close>.\<close>

definition path_join :: "string \<Rightarrow> string \<Rightarrow> string" where
  [py_eval]: "path_join a b =
     (if starts_with b ''/'' then b else if a = [] \<or> ends_with a ''/'' then a @ b else a @ ''/'' @ b)"

definition dirname :: "string \<Rightarrow> string" where
  [py_eval]: "dirname p = (let h = rev (dropWhile (\<lambda>c. c \<noteq> CHR ''/'') (rev p)) in
     if \<forall>c \<in> set h. c = CHR ''/'' then h else rev (dropWhile (\<lambda>c. c = CHR ''/'') (rev h)))"

text \<open>Reading a text file: the newline conventions are translated to \<open>\n\<close>, and iteration
  yields the lines with their terminator.\<close>

function universal_newlines :: "string \<Rightarrow> string" where
  "universal_newlines [] = []"
| "universal_newlines (c # s) =
     (if c = CHR 0x0D
      then CHR 0x0A # universal_newlines (if s \<noteq> [] \<and> hd s = CHR 0x0A then tl s else s)
      else c # universal_newlines s)"
  by pat_completeness auto
termination
  by (relation "measure length") auto

fun keep_lines :: "string \<Rightarrow> string \<Rightarrow> string list" where
  "keep_lines acc [] = (if acc = [] then [] else [rev acc])"
| "keep_lines acc (c # s) =
     (if c = CHR 0x0A then rev (c # acc) # keep_lines [] s else keep_lines (c # acc) s)"

definition text_lines :: "string \<Rightarrow> string list" where
  "text_lines t = keep_lines [] (universal_newlines t)"

lemma concat_keep_lines: "concat (keep_lines acc s) = rev acc @ s"
  by (induction acc s rule: keep_lines.induct) auto

lemma concat_text_lines: "concat (text_lines t) = universal_newlines t"
  by (simp add: text_lines_def concat_keep_lines)

lemma universal_newlines_id: "CHR 0x0D \<notin> set s \<Longrightarrow> universal_newlines s = s"
  by (induction s) auto

lemma keep_lines_line: "CHR 0x0A \<notin> set l \<Longrightarrow> keep_lines acc (l @ CHR 0x0A # s) = (rev acc @ l @ [CHR 0x0A]) # keep_lines [] s"
  by (induction l arbitrary: acc) auto

lemma text_lines_concat:
  assumes "\<forall>l \<in> set ls. CHR 0x0A \<notin> set l \<and> CHR 0x0D \<notin> set l"
  shows "text_lines (concat (map (\<lambda>l. l @ [CHR 0x0A]) ls)) = map (\<lambda>l. l @ [CHR 0x0A]) ls"
proof -
  have "CHR 0x0D \<notin> set (concat (map (\<lambda>l. l @ [CHR 0x0A]) ls))" using assms by auto
  moreover have "keep_lines [] (concat (map (\<lambda>l. l @ [CHR 0x0A]) ls)) = map (\<lambda>l. l @ [CHR 0x0A]) ls"
    using assms by (induction ls) (auto simp: keep_lines_line)
  ultimately show ?thesis by (simp add: text_lines_def universal_newlines_id)
qed

text \<open>\<open>for x in xs: s = body(s, x)\<close>.\<close>

fun forI :: "('s \<Rightarrow> 'a \<Rightarrow> 's io) \<Rightarrow> 's \<Rightarrow> 'a list \<Rightarrow> 's io" where
  "forI body s [] = returnI s"
| "forI body s (x # xs) = bindI (body s x) (\<lambda>t. forI body t xs)"

text \<open>
  The exit status of the process: \<open>sys.exit(n)\<close> gives \<open>n\<close>, \<open>SystemExit\<close> with a
  message and every uncaught exception give 1.
\<close>

fun exit_status :: "int res \<Rightarrow> int" where
  "exit_status (Inr n) = n"
| "exit_status (Inl (SystemExit n)) = n"
| "exit_status (Inl e) = 1"

definition run :: "int io \<Rightarrow> world \<Rightarrow> int \<times> world" where
  "run m w = (let (r, w') = m w in
     (exit_status r, case r of Inl (SystemExitMsg s) \<Rightarrow> w'\<lparr>stderr := stderr w' @ s @ [CHR 0x0A]\<rparr> | _ \<Rightarrow> w'))"

lemma exit_ordinary: "ordinary_error e \<Longrightarrow> exit_status (Inl e) = 1"
  by (cases e) simp_all

lemmas io_defs = returnI_def raiseI_def liftI_def printI_def eprintI_def readI_def existsI_def writeI_def

lemma bindI_return [simp]: "bindI (returnI x) f = f x"
  by (simp add: bindI_def returnI_def fun_eq_iff)

lemma bindI_raise [simp]: "bindI (raiseI e) f = raiseI e"
  by (simp add: bindI_def raiseI_def fun_eq_iff)

lemma bindI_assoc: "bindI (bindI m f) g = bindI m (\<lambda>x. bindI (f x) g)"
  by (auto simp: bindI_def fun_eq_iff split: prod.splits sum.splits)

lemma bindI_Inr: "m w = (Inr x, w') \<Longrightarrow> bindI m f w = f x w'"
  by (simp add: bindI_def)

lemma bindI_Inl: "m w = (Inl e, w') \<Longrightarrow> bindI m f w = (Inl e, w')"
  by (simp add: bindI_def)

lemma bindI_print: "bindI (printI s) f w = f () (w\<lparr>stdout := stdout w @ s @ [CHR 0x0A]\<rparr>)"
  by (simp add: bindI_def printI_def)

lemma bindI_lift: "bindI (liftI r) f w = (case r of Inl e \<Rightarrow> (Inl e, w) | Inr x \<Rightarrow> f x w)"
  by (simp add: bindI_def liftI_def split: sum.splits)

lemma bindI_eqE:
  assumes "bindI m f w = (Inr y, w')"
  obtains x v where "m w = (Inr x, v)" and "f x v = (Inr y, w')"
  using assms by (auto simp: bindI_def split: prod.splits sum.splits)

lemma forI_Inr: "body s x w = (Inr t, w') \<Longrightarrow> forI body s (x # xs) w = forI body t xs w'"
  by (simp add: bindI_def)

text \<open>A loop invariant: what every round keeps, the whole loop keeps, whether it ends
  normally or by an exception.\<close>

lemma forI_invariant:
  assumes "\<And>s x w r w'. I w \<Longrightarrow> body s x w = (r, w') \<Longrightarrow> I w'"
  shows "I w \<Longrightarrow> forI body s xs w = (r, w') \<Longrightarrow> I w'"
proof (induction xs arbitrary: s w)
  case Nil
  then show ?case by (simp add: returnI_def)
next
  case (Cons x xs)
  obtain r1 w1 where b: "body s x w = (r1, w1)" by fastforce
  then have "I w1" using Cons.prems(1) assms by blast
  then show ?case using Cons b by (cases r1) (auto simp: bindI_def)
qed

section \<open>Which files a script may change\<close>

text \<open>\<open>writes_only S Q m\<close>: whatever happens, \<open>m\<close> leaves every file as it was, or it is one of
  \<open>S\<close> and now holds a text that satisfies \<open>Q\<close>. The rules follow the structure of a script,
  so what it may leave behind is found by introduction from its text; the rule for sequencing
  passes on what the first step returned.\<close>

definition writes_only :: "string set \<Rightarrow> (string \<Rightarrow> bool) \<Rightarrow> 'a io \<Rightarrow> bool" where
  "writes_only S Q m \<longleftrightarrow> (\<forall>w p. files (snd (m w)) p = files w p \<or> p \<in> S \<and> (\<exists>t. files (snd (m w)) p = Some t \<and> Q t))"

named_theorems frame "introduction rules for writes_only"

lemma writes_only_quiet [frame]:
  "writes_only S Q (returnI x)" "writes_only S Q (raiseI e)" "writes_only S Q (liftI r)"
  "writes_only S Q (printI s)" "writes_only S Q (eprintI s)" "writes_only S Q (readI path)"
  "writes_only S Q (existsI path)" "writes_only S Q (makedirsI path)"
  by (auto simp: writes_only_def io_defs makedirsI_def split: option.splits)

lemma writes_only_write [frame]: "path \<in> S \<Longrightarrow> Q t \<Longrightarrow> writes_only S Q (writeI path t)"
  by (auto simp: writes_only_def writeI_def)

lemma writes_only_bind [frame]:
  assumes "writes_only S Q m" "\<And>x w v. m w = (Inr x, v) \<Longrightarrow> writes_only S Q (f x)"
  shows "writes_only S Q (bindI m f)"
  unfolding writes_only_def
proof (intro allI)
  fix w p
  obtain r v where m: "m w = (r, v)" by fastforce
  have 1: "files v p = files w p \<or> p \<in> S \<and> (\<exists>t. files v p = Some t \<and> Q t)"
    using assms(1) m unfolding writes_only_def by (metis snd_conv)
  show "files (snd (bindI m f w)) p = files w p \<or> p \<in> S \<and> (\<exists>t. files (snd (bindI m f w)) p = Some t \<and> Q t)"
  proof (cases r)
    case (Inr x)
    then have "writes_only S Q (f x)" using assms(2) m by blast
    then show ?thesis using 1 m Inr unfolding writes_only_def by (simp add: bindI_def) metis
  qed (use 1 m in \<open>simp add: bindI_def\<close>)
qed

lemma writes_only_for [frame]: "(\<And>s x. x \<in> set xs \<Longrightarrow> writes_only S Q (body s x)) \<Longrightarrow> writes_only S Q (forI body s xs)"
proof (induction xs arbitrary: s)
  case (Cons x xs)
  then show ?case by (simp add: writes_only_bind)
qed (simp add: writes_only_quiet)

lemma writes_only_if [frame]: "(b \<Longrightarrow> writes_only S Q m) \<Longrightarrow> (\<not> b \<Longrightarrow> writes_only S Q n) \<Longrightarrow> writes_only S Q (if b then m else n)"
  by simp

lemma liftI_Inr [simp]: "liftI r w = (Inr x, v) \<longleftrightarrow> r = Inr x \<and> v = w"
  by (auto simp: liftI_def)

lemma run_files: "files (snd (run m w)) = files (snd (m w))"
  by (auto simp: run_def split: prod.splits sum.splits py_error.splits)

lemma writes_only_run:
  "writes_only S Q m \<Longrightarrow> files (snd (run m w)) p = files w p \<or> p \<in> S \<and> (\<exists>t. files (snd (run m w)) p = Some t \<and> Q t)"
  by (simp add: run_files writes_only_def)

end
