(* ===== verification/Safe_Plan.thy ===== *)
theory Safe_Plan
  imports Py_Float Py_Dict Py_IO
begin

text \<open>
  \<^verbatim>\<open>deploy/assert-safe-plan.py\<close>: the guard that refuses an unattended
  \<^verbatim>\<open>terraform apply\<close> whose plan destroys or replaces a resource.

  \<open>json\<close> is the value that \<open>json.load\<close> returns; the dynamic operations the script
  applies to it (\<open>.get\<close>, iteration, \<open>in\<close>) raise as Python does on a value of the
  wrong type. \<open>classify\<close> is one round of the loop, \<open>assert_safe_plan\<close> the script.
  The theorems: the exit status is 0 exactly when the plan is well formed and destroys
  nothing (or the override was passed), the three lists are exactly the changes of their
  kind, in order, what is printed names each of them, and everything that is wrong with the
  input gives a non-zero status. A \<open>JNaN\<close> and a \<open>JInfinity\<close> are the non-standard literals
  that \<open>json.load\<close> accepts, the latter with its sign; a string is its UTF-8 bytes, so a lone
  surrogate escape is not represented.
\<close>

section \<open>JSON values\<close>

datatype json =
    JNull
  | JBool bool
  | JInt int
  | JFloat rat
  | JNaN
  | JInfinity bool
  | JStr string
  | JArr "json list"
  | JObj "(string \<times> json) list"

text \<open>\<open>v.get(k, default)\<close>: only a \<open>dict\<close> has the method.\<close>

fun json_get :: "json \<Rightarrow> string \<Rightarrow> json \<Rightarrow> json res" where
  "json_get (JObj d) k v = Inr (case dict_get d k of None \<Rightarrow> v | Some u \<Rightarrow> u)"
| "json_get _ k v = Inl AttributeError"

text \<open>The characters of a string, as iteration over it yields them.\<close>

function utf8_chars :: "string \<Rightarrow> string list" where
  "utf8_chars [] = []"
| "utf8_chars (c # s) = (c # takeWhile utf8_cont s) # utf8_chars (dropWhile utf8_cont s)"
  by pat_completeness auto
termination
  by (relation "measure length") (auto simp: le_imp_less_Suc length_dropWhile_le)

text \<open>\<open>for x in v\<close>.\<close>

fun json_iter :: "json \<Rightarrow> json list res" where
  "json_iter (JArr xs) = Inr xs"
| "json_iter (JObj d) = Inr (map JStr (dict_keys d))"
| "json_iter (JStr s) = Inr (map JStr (utf8_chars s))"
| "json_iter _ = Inl TypeError"

fun is_substring :: "string \<Rightarrow> string \<Rightarrow> bool" where
  "is_substring p [] \<longleftrightarrow> p = []"
| "is_substring p (c # s) \<longleftrightarrow> starts_with (c # s) p \<or> is_substring p s"

text \<open>\<open>"x" in v\<close>.\<close>

fun json_in :: "string \<Rightarrow> json \<Rightarrow> bool res" where
  "json_in x (JArr xs) = Inr (JStr x \<in> set xs)"
| "json_in x (JObj d) = Inr (x \<in> set (dict_keys d))"
| "json_in x (JStr s) = Inr (is_substring x s)"
| "json_in x _ = Inl TypeError"

text \<open>\<open>str(v)\<close>, as an f-string prints it; \<open>repr\<close> inside a container.\<close>

definition repr_char :: "char \<Rightarrow> char \<Rightarrow> string" where
  "repr_char q c = (if c = q \<or> c = CHR 0x5C then [CHR 0x5C, c]
     else if c = CHR 0x0A then [CHR 0x5C, CHR ''n'']
     else if c = CHR 0x0D then [CHR 0x5C, CHR ''r'']
     else if c = CHR 0x09 then [CHR 0x5C, CHR ''t'']
     else [c])"

definition repr_str :: "string \<Rightarrow> string" where
  "repr_str s = (let q = if CHR 0x27 \<in> set s \<and> CHR 0x22 \<notin> set s then CHR 0x22 else CHR 0x27
     in [q] @ concat (map (repr_char q) s) @ [q])"

fun json_repr :: "json \<Rightarrow> string" where
  "json_repr JNull = ''None''"
| "json_repr (JBool b) = (if b then ''True'' else ''False'')"
| "json_repr (JInt n) = str_of_int n"
| "json_repr (JFloat x) = repr_float x"
| "json_repr JNaN = ''nan''"
| "json_repr (JInfinity negative) = (if negative then ''-inf'' else ''inf'')"
| "json_repr (JStr s) = repr_str s"
| "json_repr (JArr xs) = ''['' @ join '', '' (map json_repr xs) @ '']''"
| "json_repr (JObj d) = ''{'' @ join '', '' (map (\<lambda>(k, v). repr_str k @ '': '' @ json_repr v) d) @ ''}''"

fun json_str :: "json \<Rightarrow> string" where
  "json_str (JStr s) = s"
| "json_str v = json_repr v"

section \<open>The script\<close>

record changes =
  created :: "json list"
  updated :: "json list"
  destroyed :: "(json \<times> json) list"

definition no_changes :: changes where
  "no_changes = \<lparr>created = [], updated = [], destroyed = []\<rparr>"

text \<open>One round of the loop over \<open>resource_changes\<close>.\<close>

definition classify :: "changes \<Rightarrow> json \<Rightarrow> changes res" where
  "classify st change =
     bindE (json_get change ''change'' (JObj [])) (\<lambda>ch.
     bindE (json_get ch ''actions'' (JArr [])) (\<lambda>actions.
     bindE (json_get change ''address'' (JStr ''?'')) (\<lambda>addr.
     bindE (json_in ''delete'' actions) (\<lambda>del.
       if del then Inr (st\<lparr>destroyed := destroyed st @ [(addr, actions)]\<rparr>)
       else bindE (json_in ''create'' actions) (\<lambda>cre.
         if cre then Inr (st\<lparr>created := created st @ [addr]\<rparr>)
         else bindE (json_in ''update'' actions) (\<lambda>upd.
           if upd then Inr (st\<lparr>updated := updated st @ [addr]\<rparr>)
           else Inr st))))))"

definition plan_changes :: "json \<Rightarrow> changes res" where
  "plan_changes plan =
     bindE (json_get plan ''resource_changes'' (JArr [])) (\<lambda>rc.
     bindE (json_iter rc) (\<lambda>cs. foldE classify no_changes cs))"

definition print_changes :: "changes \<Rightarrow> unit io" where
  "print_changes st =
     bindI (forI (\<lambda>_ addr. printI (''  create  '' @ json_str addr)) () (created st)) (\<lambda>_.
     bindI (forI (\<lambda>_ addr. printI (''  update  '' @ json_str addr)) () (updated st)) (\<lambda>_.
     forI (\<lambda>_ (addr, actions). bindI (liftI (json_in ''create'' actions)) (\<lambda>cre.
       printI (''  '' @ (if cre then ''replace'' else ''destroy'') @ '' '' @ json_str addr)))
       () (destroyed st)))"

definition refusal :: "changes \<Rightarrow> string" where
  "refusal st = [CHR 0x0A] @ ''assert-safe-plan: REFUSING -- '' @ str_of_int (int (length (destroyed st)))
     @ '' resource(s) would be destroyed or replaced.'' @ [CHR 0x0A]
     @ ''Run the apply interactively and read the plan yourself, or pass --allow-destroy if this is a deliberate teardown.''"

definition verdict_ok :: "changes \<Rightarrow> string" where
  "verdict_ok st = [CHR 0x0A] @ ''assert-safe-plan: OK -- '' @ str_of_int (int (length (created st)))
     @ '' to add, '' @ str_of_int (int (length (updated st))) @ '' to change, ''
     @ str_of_int (int (length (destroyed st))) @ '' to destroy.''"

text \<open>
  The exceptions of \<open>json.load(sys.stdin)\<close>: text that is not JSON, with the message of the
  \<open>JSONDecodeError\<close>; bytes that are not UTF-8, such as a binary plan file; values nested
  too deeply; an integer with too many digits. The handler catches only the first.
\<close>

datatype load_error = DecodeError string | Undecodable | TooDeep | TooManyDigits

fun parse_failure :: "load_error \<Rightarrow> int io" where
  "parse_failure (DecodeError exc) =
     bindI (eprintI (''assert-safe-plan: could not parse the plan JSON: '' @ exc)) (\<lambda>_. raiseI (SystemExit 2))"
| "parse_failure Undecodable = raiseI UnicodeDecodeError"
| "parse_failure TooDeep = raiseI RecursionError"
| "parse_failure TooManyDigits = raiseI ValueError"

text \<open>The script, from \<open>sys.argv\<close> and the outcome of \<open>json.load\<close>.\<close>

definition assert_safe_plan :: "string list \<Rightarrow> load_error + json \<Rightarrow> int io" where
  "assert_safe_plan argv input =
     (let allow_destroy = ''--allow-destroy'' \<in> set argv in
      case input of
        Inl exc \<Rightarrow> parse_failure exc
      | Inr plan \<Rightarrow>
          bindI (liftI (plan_changes plan)) (\<lambda>st.
          bindI (print_changes st) (\<lambda>_.
            if destroyed st \<noteq> [] \<and> \<not> allow_destroy
            then bindI (eprintI (refusal st)) (\<lambda>_. raiseI (SystemExit 1))
            else bindI (printI (verdict_ok st)) (\<lambda>_. returnI 0))))"

section \<open>Specification\<close>

text \<open>
  What one entry of \<open>resource_changes\<close> asks for: its address and its actions, when the entry
  has the shape that terraform documents.
\<close>

fun change_of :: "json \<Rightarrow> (json \<times> json) option" where
  "change_of (JObj d) =
     (case (case dict_get d ''change'' of None \<Rightarrow> JObj [] | Some c \<Rightarrow> c) of
        JObj c \<Rightarrow>
          (let acts = (case dict_get c ''actions'' of None \<Rightarrow> JArr [] | Some a \<Rightarrow> a);
               addr = (case dict_get d ''address'' of None \<Rightarrow> JStr ''?'' | Some a \<Rightarrow> a)
           in if json_in ''delete'' acts = Inl TypeError then None else Some (addr, acts))
      | _ \<Rightarrow> None)"
| "change_of _ = None"

definition asks :: "string \<Rightarrow> json \<Rightarrow> bool" where
  "asks act acts \<longleftrightarrow> json_in act acts = Inr True"

fun plan_entries :: "json \<Rightarrow> json list option" where
  "plan_entries (JObj d) =
     (case json_iter (case dict_get d ''resource_changes'' of None \<Rightarrow> JArr [] | Some rc \<Rightarrow> rc) of
        Inr cs \<Rightarrow> Some cs | Inl _ \<Rightarrow> None)"
| "plan_entries _ = None"

definition well_formed_plan :: "json \<Rightarrow> bool" where
  "well_formed_plan plan \<longleftrightarrow>
     (case plan_entries plan of None \<Rightarrow> False | Some cs \<Rightarrow> list_all (\<lambda>c. change_of c \<noteq> None) cs)"

definition requested :: "json \<Rightarrow> (json \<times> json) list" where
  "requested plan = (case plan_entries plan of None \<Rightarrow> [] | Some cs \<Rightarrow> map (\<lambda>c. the (change_of c)) cs)"

text \<open>The abstract classification: a change is destroyed when it asks for \<open>delete\<close>, else
  created when it asks for \<open>create\<close>, else updated when it asks for \<open>update\<close>.\<close>

definition abs_changes :: "(json \<times> json) list \<Rightarrow> changes" where
  "abs_changes rs =
     \<lparr>created = map fst (filter (\<lambda>(_, a). \<not> asks ''delete'' a \<and> asks ''create'' a) rs),
      updated = map fst (filter (\<lambda>(_, a). \<not> asks ''delete'' a \<and> \<not> asks ''create'' a \<and> asks ''update'' a) rs),
      destroyed = filter (\<lambda>(_, a). asks ''delete'' a) rs\<rparr>"

section \<open>The loop computes the classification\<close>

lemma json_in_total: "json_in x acts \<noteq> Inl TypeError \<Longrightarrow> json_in y acts = Inr (asks y acts)"
  by (cases acts) (auto simp: asks_def)

lemma json_in_error: "json_in x acts = Inl e \<longleftrightarrow> e = TypeError \<and> json_in y acts = Inl TypeError"
  by (cases acts) auto

lemma classify_Some:
  assumes "change_of c = Some (addr, acts)"
  shows "classify st c = Inr (
    if asks ''delete'' acts then st\<lparr>destroyed := destroyed st @ [(addr, acts)]\<rparr>
    else if asks ''create'' acts then st\<lparr>created := created st @ [addr]\<rparr>
    else if asks ''update'' acts then st\<lparr>updated := updated st @ [addr]\<rparr> else st)"
proof -
  obtain d ch where d: "c = JObj d" "(case dict_get d ''change'' of None \<Rightarrow> JObj [] | Some c \<Rightarrow> c) = JObj ch"
    and a: "acts = (case dict_get ch ''actions'' of None \<Rightarrow> JArr [] | Some a \<Rightarrow> a)"
    and b: "addr = (case dict_get d ''address'' of None \<Rightarrow> JStr ''?'' | Some a \<Rightarrow> a)"
    and ok: "json_in ''delete'' acts \<noteq> Inl TypeError"
    using assms by (cases c) (auto simp: Let_def split: json.splits if_splits)
  show ?thesis
    using d by (simp add: classify_def a[symmetric] b[symmetric] json_in_total[OF ok])
qed

lemma classify_None: "change_of c = None \<Longrightarrow> \<exists>e. classify st c = Inl e \<and> (\<forall>n. e \<noteq> SystemExit n)"
  by (cases c) (auto simp: classify_def Let_def split: json.splits if_splits option.splits)

lemma foldE_classify:
  "list_all (\<lambda>c. change_of c \<noteq> None) cs \<Longrightarrow>
   foldE classify st cs =
     Inr (let t = abs_changes (map (\<lambda>c. the (change_of c)) cs) in
       \<lparr>created = created st @ created t, updated = updated st @ updated t,
        destroyed = destroyed st @ destroyed t\<rparr>)"
proof (induction cs arbitrary: st)
  case Nil
  then show ?case by (simp add: abs_changes_def)
next
  case (Cons c cs)
  then obtain addr acts where c: "change_of c = Some (addr, acts)" by auto
  show ?case using Cons c by (auto simp: classify_Some[OF c] Let_def abs_changes_def)
qed

lemma foldE_classify_error:
  "\<not> list_all (\<lambda>c. change_of c \<noteq> None) cs \<Longrightarrow>
   \<exists>e. foldE classify st cs = Inl e \<and> (\<forall>n. e \<noteq> SystemExit n)"
proof (induction cs arbitrary: st)
  case (Cons c cs)
  show ?case
  proof (cases "change_of c")
    case None
    then show ?thesis using classify_None[OF None, of st] by auto
  next
    case (Some r)
    then show ?thesis using Cons classify_Some[of c "fst r" "snd r" st] by auto
  qed
qed simp

lemma plan_changes_ok: "well_formed_plan plan \<Longrightarrow> plan_changes plan = Inr (abs_changes (requested plan))"
  by (cases plan)
     (auto simp: well_formed_plan_def requested_def plan_changes_def foldE_classify no_changes_def Let_def abs_changes_def[of "[]"]
       split: option.splits sum.splits)

lemma json_iter_error: "json_iter v = Inl e \<Longrightarrow> e = TypeError"
  by (cases v) auto

lemma plan_changes_error:
  "\<not> well_formed_plan plan \<Longrightarrow> \<exists>e. plan_changes plan = Inl e \<and> (\<forall>n. e \<noteq> SystemExit n)"
  by (cases plan)
     (auto simp: well_formed_plan_def plan_changes_def foldE_classify_error
       dest: json_iter_error split: option.splits sum.splits)

section \<open>What is printed\<close>

definition text_line :: "string \<Rightarrow> string" where
  "text_line l = l @ [CHR 0x0A]"

text \<open>The listing: a line for every created, updated, replaced and destroyed address.\<close>

definition listing :: "(json \<times> json) list \<Rightarrow> string" where
  "listing rs =
     concat (map (\<lambda>(addr, a). text_line (''  create  '' @ json_str addr)) (filter (\<lambda>(addr, a). \<not> asks ''delete'' a \<and> asks ''create'' a) rs)) @
     concat (map (\<lambda>(addr, a). text_line (''  update  '' @ json_str addr))
       (filter (\<lambda>(addr, a). \<not> asks ''delete'' a \<and> \<not> asks ''create'' a \<and> asks ''update'' a) rs)) @
     concat (map (\<lambda>(addr, a). text_line (''  '' @ (if asks ''create'' a then ''replace'' else ''destroy'') @ '' '' @ json_str addr))
       (filter (\<lambda>(addr, a). asks ''delete'' a) rs))"

lemma print_loop: "forI (\<lambda>_ x. printI (f x)) () xs w = (Inr (), w\<lparr>stdout := stdout w @ concat (map (\<lambda>x. text_line (f x)) xs)\<rparr>)"
  by (induction xs arbitrary: w) (auto simp: returnI_def bindI_print text_line_def)

lemma print_destroyed_loop:
  "\<forall>p \<in> set ps. asks ''delete'' (snd p) \<Longrightarrow>
   forI (\<lambda>_ (addr, actions). bindI (liftI (json_in ''create'' actions)) (\<lambda>cre.
       printI (''  '' @ (if cre then ''replace'' else ''destroy'') @ '' '' @ json_str addr))) () ps w =
     (Inr (), w\<lparr>stdout := stdout w @ concat (map (\<lambda>(addr, a).
       text_line (''  '' @ (if asks ''create'' a then ''replace'' else ''destroy'') @ '' '' @ json_str addr)) ps)\<rparr>)"
proof (induction ps arbitrary: w)
  case (Cons p ps)
  then have "json_in ''create'' (snd p) = Inr (asks ''create'' (snd p))"
    by (intro json_in_total[where x = "''delete''"]) (simp add: asks_def)
  with Cons show ?case
    by (cases p) (auto simp: bindI_lift bindI_assoc bindI_print text_line_def)
qed (simp add: returnI_def)

lemma print_changes_eq:
  "print_changes (abs_changes rs) w = (Inr (), w\<lparr>stdout := stdout w @ listing rs\<rparr>)"
proof -
  have d: "\<forall>p \<in> set (destroyed (abs_changes rs)). asks ''delete'' (snd p)" by (auto simp: abs_changes_def)
  show ?thesis unfolding print_changes_def
    by (subst bindI_Inr, rule print_loop, subst bindI_Inr, rule print_loop, subst print_destroyed_loop[OF d])
       (simp add: abs_changes_def listing_def comp_def case_prod_unfold)
qed

lemma status_parse_error: "fst (run (assert_safe_plan argv (Inl e)) w) = (case e of DecodeError exc \<Rightarrow> 2 | _ \<Rightarrow> 1)"
  by (cases e) (simp_all add: run_def assert_safe_plan_def bindI_def eprintI_def raiseI_def)

lemma status_malformed:
  "\<not> well_formed_plan plan \<Longrightarrow> fst (run (assert_safe_plan argv (Inr plan)) w) = 1"
proof -
  assume "\<not> well_formed_plan plan"
  then obtain e where e: "plan_changes plan = Inl e" "\<forall>n. e \<noteq> SystemExit n"
    using plan_changes_error by blast
  then have "assert_safe_plan argv (Inr plan) w = (Inl e, w)"
    by (simp add: assert_safe_plan_def bindI_lift)
  then show ?thesis using e(2) by (cases e) (auto simp: run_def)
qed

lemma run_well_formed:
  assumes "well_formed_plan plan"
  shows "run (assert_safe_plan argv (Inr plan)) w =
    (let st = abs_changes (requested plan) in
     if destroyed st \<noteq> [] \<and> ''--allow-destroy'' \<notin> set argv
     then (1, w\<lparr>stdout := stdout w @ listing (requested plan), stderr := stderr w @ refusal st @ [CHR 0x0A]\<rparr>)
     else (0, w\<lparr>stdout := stdout w @ listing (requested plan) @ verdict_ok st @ [CHR 0x0A]\<rparr>))"
  by (simp add: run_def assert_safe_plan_def bindI_lift plan_changes_ok[OF assms]
      bindI_def[of "print_changes _"] print_changes_eq bindI_print returnI_def bindI_def[of "eprintI _"] eprintI_def raiseI_def Let_def)

lemma status_well_formed:
  assumes "well_formed_plan plan"
  shows "fst (run (assert_safe_plan argv (Inr plan)) w) =
    (if destroyed (abs_changes (requested plan)) \<noteq> [] \<and> ''--allow-destroy'' \<notin> set argv then 1 else 0)"
  by (simp add: run_well_formed[OF assms] Let_def)

lemmas status_cases = status_parse_error status_malformed status_well_formed

section \<open>Properties\<close>

text \<open>C1: the process exits with status 0 exactly when the input parsed, every entry of
  \<open>resource_changes\<close> has a readable action list, and either no entry asks for \<open>delete\<close>
  or \<^verbatim>\<open>--allow-destroy\<close> was passed. Everything else, parse errors and malformed plans
  included, ends the pipeline with a non-zero status: the guard fails closed.\<close>

theorem safe_plan_exit_zero_iff:
  "fst (run (assert_safe_plan argv input) w) = 0 \<longleftrightarrow>
     (\<exists>plan. input = Inr plan \<and> well_formed_plan plan \<and>
       (''--allow-destroy'' \<in> set argv \<or> list_all (\<lambda>r. \<not> asks ''delete'' (snd r)) (requested plan)))"
proof (cases input)
  case (Inl exc)
  then show ?thesis by (simp add: status_parse_error split: load_error.split)
next
  case (Inr plan)
  have "destroyed (abs_changes rs) = [] \<longleftrightarrow> list_all (\<lambda>r. \<not> asks ''delete'' (snd r)) rs" for rs
    by (auto simp: abs_changes_def filter_empty_conv list_all_iff)
  then show ?thesis using Inr
    by (cases "well_formed_plan plan") (auto simp: status_malformed status_well_formed)
qed

text \<open>C14: one entry that asks for \<open>delete\<close> is enough to refuse the plan with status 1,
  also when it asks for \<open>create\<close> too (a replacement) and whatever the other entries are,
  unless the override was passed.\<close>

theorem safe_plan_refuses_delete:
  assumes "plan_entries plan = Some cs" "c \<in> set cs" "change_of c = Some (addr, acts)"
    "asks ''delete'' acts" "''--allow-destroy'' \<notin> set argv"
  shows "fst (run (assert_safe_plan argv (Inr plan)) w) = 1"
proof (cases "well_formed_plan plan")
  case True
  have "(addr, acts) \<in> set (requested plan)" using assms by (force simp: requested_def)
  then have "destroyed (abs_changes (requested plan)) \<noteq> []"
    using assms(4) by (force simp: abs_changes_def filter_empty_conv)
  then show ?thesis using True assms(5) by (simp add: status_well_formed)
qed (simp add: status_malformed)

definition sample_plan :: json where
  "sample_plan = JObj [(''resource_changes'', JArr
     [JObj [(''address'', JStr ''aws_instance.node''), (''change'', JObj [(''actions'', JArr [JStr ''no-op''])])],
      JObj [(''address'', JStr ''aws_instance.client''),
            (''change'', JObj [(''actions'', JArr [JStr ''delete'', JStr ''create''])])]])]"

lemma safe_plan_refuses_delete_witness:
  "fst (run (assert_safe_plan [''assert-safe-plan.py''] (Inr sample_plan))
     \<lparr>files = Map.empty, stdout = [], stderr = [], dirs = []\<rparr>) = 1"
proof -
  obtain cs where cs: "plan_entries sample_plan = Some cs" "cs ! 1 \<in> set cs"
      "change_of (cs ! 1) = Some (JStr ''aws_instance.client'', JArr [JStr ''delete'', JStr ''create''])"
    by (simp add: sample_plan_def)
  then show ?thesis
    using safe_plan_refuses_delete[OF cs, of "[''assert-safe-plan.py'']"] by (simp add: asks_def)
qed

text \<open>C13: the loop over \<open>resource_changes\<close> implements the abstract classification: the
  created, updated and destroyed lists are exactly the requested changes of their kind, in
  plan order, with \<open>delete\<close> taking precedence over \<open>create\<close> and \<open>create\<close> over
  \<open>update\<close>.\<close>

theorem plan_changes_refines:
  assumes "well_formed_plan plan"
  shows "plan_changes plan = Inr (abs_changes (requested plan))"
  by (rule plan_changes_ok[OF assms])

lemma plan_changes_refines_witness:
  "plan_changes sample_plan = Inr \<lparr>created = [], updated = [],
     destroyed = [(JStr ''aws_instance.client'', JArr [JStr ''delete'', JStr ''create''])]\<rparr>"
proof -
  have "well_formed_plan sample_plan" by (simp add: well_formed_plan_def sample_plan_def)
  from plan_changes_refines[OF this] show ?thesis
    by (simp add: abs_changes_def requested_def sample_plan_def asks_def)
qed

text \<open>C28: what the operator reads before the verdict. For a well-formed plan the output is a
  line for every address that is created, then for every updated one, then for every one that
  is destroyed, each in plan order, and a destroyed resource is called a replacement exactly
  when its entry also asks for \<open>create\<close>. Then either the refusal with the number of destroyed
  resources goes to the error stream and the status is 1, or the three counts are printed and
  the status is 0; the override changes the verdict and not the listing.\<close>

theorem safe_plan_report:
  fixes plan argv w
  defines "deleted \<equiv> filter (\<lambda>r. asks ''delete'' (snd r)) (requested plan)"
  assumes "well_formed_plan plan"
  shows "\<exists>w'. run (assert_safe_plan argv (Inr plan)) w =
      (if deleted \<noteq> [] \<and> ''--allow-destroy'' \<notin> set argv then 1 else 0, w') \<and>
    (if deleted \<noteq> [] \<and> ''--allow-destroy'' \<notin> set argv
     then stdout w' = stdout w @ listing (requested plan) \<and>
       stderr w' = stderr w @ [CHR 0x0A] @ ''assert-safe-plan: REFUSING -- '' @ str_of_int (int (length deleted))
         @ '' resource(s) would be destroyed or replaced.'' @ [CHR 0x0A]
         @ ''Run the apply interactively and read the plan yourself, or pass --allow-destroy if this is a deliberate teardown.'' @ [CHR 0x0A]
     else stderr w' = stderr w \<and>
       stdout w' = stdout w @ listing (requested plan) @ [CHR 0x0A] @ ''assert-safe-plan: OK -- ''
         @ str_of_int (int (length (filter (\<lambda>r. \<not> asks ''delete'' (snd r) \<and> asks ''create'' (snd r)) (requested plan)))) @ '' to add, ''
         @ str_of_int (int (length (filter (\<lambda>r. \<not> asks ''delete'' (snd r) \<and> \<not> asks ''create'' (snd r) \<and> asks ''update'' (snd r)) (requested plan))))
         @ '' to change, '' @ str_of_int (int (length deleted)) @ '' to destroy.'' @ [CHR 0x0A]) \<and>
    files w' = files w"
  unfolding run_well_formed[OF assms(2)] deleted_def
  by (simp add: Let_def abs_changes_def case_prod_unfold refusal_def verdict_ok_def)

theorem safe_plan_report_witness:
  "\<exists>w'. run (assert_safe_plan [''assert-safe-plan.py''] (Inr sample_plan)) \<lparr>files = Map.empty, stdout = [], stderr = [], dirs = []\<rparr> = (1, w') \<and>
     stdout w' = ''  replace aws_instance.client'' @ [CHR 0x0A]"
proof -
  have "well_formed_plan sample_plan" by (simp add: well_formed_plan_def sample_plan_def)
  moreover have "requested sample_plan = [(JStr ''aws_instance.node'', JArr [JStr ''no-op'']),
      (JStr ''aws_instance.client'', JArr [JStr ''delete'', JStr ''create''])]"
    by (simp add: requested_def sample_plan_def)
  ultimately show ?thesis
    using safe_plan_report[of sample_plan "[''assert-safe-plan.py'']" "\<lparr>files = Map.empty, stdout = [], stderr = [], dirs = []\<rparr>"]
    by (auto simp: asks_def listing_def text_line_def)
qed

end
