(* ===== verification/Merge_Hdr.thy ===== *)
theory Merge_Hdr
  imports Py_Float Py_IO "HOL-Library.Product_Lexorder"
begin

text \<open>
  \<^verbatim>\<open>sweep/merge-hdr.py\<close>: merging the histograms of several load-generating clients and
  reading percentiles off the merged distribution.

  \<open>load_lines\<close> parses a file, \<open>summarise\<close> sorts the buckets and counts the samples,
  \<open>percentile\<close> walks them, \<open>merge_main\<close> is the script with everything it prints.
  The specification is \<open>quantile\<close>: the least recorded value whose cumulative count reaches
  the requested share of all samples, in exact arithmetic.
\<close>

section \<open>The script\<close>

text \<open>One line of a \<open>value,count\<close> file; \<open>None\<close> for a blank line and the header.\<close>

definition load_line :: "string \<Rightarrow> (int \<times> int) option res" where
  "load_line raw = (let line = strip raw in
     if line = [] \<or> starts_with line ''value'' then Inr None
     else case split_on (CHR '','') line of
       [value, cnt] \<Rightarrow> bindE (py_int value) (\<lambda>v. bindE (py_int cnt) (\<lambda>c. Inr (Some (v, c))))
     | _ \<Rightarrow> Inl ValueError)"

definition load_lines :: "string list \<Rightarrow> (int \<times> int) list res" where
  "load_lines ls = foldE (\<lambda>buckets l. bindE (load_line l)
     (\<lambda>b. Inr (case b of None \<Rightarrow> buckets | Some vc \<Rightarrow> buckets @ [vc]))) [] ls"

definition load :: "string \<Rightarrow> (int \<times> int) list io" where
  "load path = bindI (readI path) (\<lambda>t. liftI (load_lines (text_lines t)))"

fun walk :: "rat \<Rightarrow> int \<Rightarrow> (int \<times> int) list \<Rightarrow> int option" where
  "walk target seen [] = None"
| "walk target seen ((value, cnt) # bs) =
     (if target \<le> of_int (seen + cnt) then Some value else walk target (seen + cnt) bs)"

text \<open>\<open>total * pct / 100.0\<close>.\<close>

definition pct_target :: "int \<Rightarrow> pynum \<Rightarrow> rat res" where
  "pct_target tot pct =
     bindE (num_mul (PyInt tot) pct) (\<lambda>m. bindE (to_float m) (\<lambda>x. Inr (fl (x / 100))))"

definition percentile :: "(int \<times> int) list \<Rightarrow> int \<Rightarrow> pynum \<Rightarrow> int res" where
  "percentile sorted_buckets tot pct =
     (if tot = 0 then Inr 0
      else bindE (pct_target tot pct) (\<lambda>target.
        case walk target 0 sorted_buckets of
          Some value \<Rightarrow> Inr value
        | None \<Rightarrow> if sorted_buckets = [] then Inl IndexError else Inr (fst (last sorted_buckets))))"

definition summarise :: "(int \<times> int) list \<Rightarrow> (int \<times> int) list \<times> int" where
  "summarise buckets = (let bs = sort buckets in (bs, sum_list (map snd bs)))"

text \<open>\<open>{pct:g}\<close> for \<open>1 \<le> pct < 10^6\<close>: six significant digits without trailing zeros.\<close>

definition fmt_g :: "rat \<Rightarrow> string" where
  "fmt_g x = (let d = 6 - length (str_of_nat (nat \<lfloor>x\<rfloor>)); s = fmt_fixed d x in
     if d = 0 then s
     else rev (let z = dropWhile (\<lambda>c. c = CHR ''0'') (rev s) in
       if z \<noteq> [] \<and> hd z = CHR ''.'' then tl z else z))"

definition pct_999 :: rat where
  "pct_999 = fl (999 / 10)"

definition nl :: string where
  "nl = [CHR 0x0A]"

definition file_row :: "string \<Rightarrow> (int \<times> int) list \<Rightarrow> int \<Rightarrow> string res" where
  "file_row label buckets tot =
     bindE (percentile buckets tot (PyInt 50)) (\<lambda>p50.
     bindE (percentile buckets tot (PyInt 99)) (\<lambda>p99.
     Inr (ljust 44 label @ rjust 12 (commas tot) @ rjust 9 (str_of_int p50) @ rjust 10 (str_of_int p99))))"

definition pct_row :: "(int \<times> int) list \<Rightarrow> int \<Rightarrow> rat \<Rightarrow> string res" where
  "pct_row buckets tot pct =
     bindE (percentile buckets tot (PyFloat pct)) (\<lambda>p.
     Inr (''  p'' @ ljust 6 (fmt_g pct) @ '' '' @ rjust 8 (str_of_int p) @ '' us''))"

definition keyed_row :: "string \<Rightarrow> (int \<times> int) list \<Rightarrow> int \<Rightarrow> pynum \<Rightarrow> string res" where
  "keyed_row key buckets tot pct =
     bindE (percentile buckets tot pct) (\<lambda>p. Inr (key @ ''='' @ str_of_int p))"

definition print_res :: "string res \<Rightarrow> unit io" where
  "print_res r = bindI (liftI r) printI"

definition merged_report :: "nat \<Rightarrow> (int \<times> int) list \<Rightarrow> int \<Rightarrow> int io" where
  "merged_report nclients buckets tot =
     bindI (print_res (bindE (file_row (''MERGED ('' @ str_of_int (int nclients) @ '' clients)'') buckets tot)
                        (\<lambda>s. Inr (nl @ s)))) (\<lambda>_.
     bindI (forI (\<lambda>_ pct. print_res (pct_row buckets tot pct)) () [50, 90, 99, pct_999]) (\<lambda>_.
     bindI (printI (''  max     '' @ rjust 8 (str_of_int (fst (last buckets))) @ '' us'')) (\<lambda>_.
     bindI (printI (''merged_count='' @ str_of_int tot)) (\<lambda>_.
     bindI (print_res (keyed_row ''merged_p50_us'' buckets tot (PyInt 50))) (\<lambda>_.
     bindI (print_res (keyed_row ''merged_p90_us'' buckets tot (PyInt 90))) (\<lambda>_.
     bindI (print_res (keyed_row ''merged_p99_us'' buckets tot (PyInt 99))) (\<lambda>_.
     bindI (print_res (keyed_row ''merged_p99_9_us'' buckets tot (PyFloat pct_999))) (\<lambda>_.
     bindI (printI (''merged_max_us='' @ str_of_int (fst (last buckets)))) (\<lambda>_.
     returnI 0)))))))))"

definition merge_file :: "(int \<times> int) list \<Rightarrow> string \<Rightarrow> (int \<times> int) list io" where
  "merge_file merged path =
     bindI (load path) (\<lambda>raw.
       let (buckets, tot) = summarise raw; label = last (split_on (CHR ''/'') path) in
       bindI (print_res (file_row label buckets tot)) (\<lambda>_. returnI (merged @ buckets)))"

definition merge_main :: "string \<Rightarrow> string list \<Rightarrow> int io" where
  "merge_main doc paths =
     (if paths = [] then bindI (eprintI doc) (\<lambda>_. returnI 2)
      else
        bindI (printI (ljust 44 ''file'' @ rjust 12 ''count'' @ rjust 9 ''p50'' @ rjust 10 ''p99'')) (\<lambda>_.
        bindI (forI merge_file [] paths) (\<lambda>merged.
          let (buckets, tot) = summarise merged in
          if tot = 0 then bindI (eprintI (nl @ ''no samples'')) (\<lambda>_. returnI 1)
          else merged_report (length paths) buckets tot)))"

section \<open>Specification\<close>

text \<open>The samples at or below a value, and the exact quantile.\<close>

definition cum :: "(int \<times> int) list \<Rightarrow> int \<Rightarrow> int" where
  "cum bs v = sum_list (map snd (filter (\<lambda>b. fst b \<le> v) bs))"

definition total_count :: "(int \<times> int) list \<Rightarrow> int" where
  "total_count bs = sum_list (map snd bs)"

definition counts_ok :: "(int \<times> int) list \<Rightarrow> bool" where
  "counts_ok bs \<longleftrightarrow> list_all (\<lambda>b. 0 \<le> snd b) bs"

text \<open>\<open>v\<close> is the \<open>num/den\<close> quantile of \<open>bs\<close>.\<close>

definition is_quantile :: "int \<Rightarrow> int \<Rightarrow> (int \<times> int) list \<Rightarrow> int \<Rightarrow> bool" where
  "is_quantile num den bs v \<longleftrightarrow>
     v \<in> fst ` set bs \<and> num * total_count bs \<le> den * cum bs v \<and>
     (\<forall>u \<in> fst ` set bs. u < v \<longrightarrow> den * cum bs u < num * total_count bs)"

section \<open>Cumulative counts\<close>

lemma cum_append [simp]: "cum (xs @ ys) v = cum xs v + cum ys v"
  by (simp add: cum_def)

lemma cum_Cons: "cum (b # bs) v = (if fst b \<le> v then snd b else 0) + cum bs v"
  by (simp add: cum_def)

lemma total_count_append [simp]: "total_count (xs @ ys) = total_count xs + total_count ys"
  by (simp add: total_count_def)

lemma counts_ok_append [simp]: "counts_ok (xs @ ys) \<longleftrightarrow> counts_ok xs \<and> counts_ok ys"
  by (simp add: counts_ok_def)

lemma cum_alt: "cum bs v = (\<Sum>b \<in># filter_mset (\<lambda>b. fst b \<le> v) (mset bs). snd b)"
  by (simp add: cum_def flip: mset_filter sum_mset_sum_list)

lemma total_count_alt: "total_count bs = (\<Sum>b \<in># mset bs. snd b)"
  by (simp add: total_count_def flip: sum_mset_sum_list)

lemma cum_mset: "mset xs = mset ys \<Longrightarrow> cum xs v = cum ys v"
  by (simp add: cum_alt)

lemma total_count_mset: "mset xs = mset ys \<Longrightarrow> total_count xs = total_count ys"
  by (simp add: total_count_alt)

lemma cum_nonneg: "counts_ok bs \<Longrightarrow> 0 \<le> cum bs v"
  by (induction bs) (auto simp: cum_Cons counts_ok_def cum_def)

lemma cum_mono: "counts_ok bs \<Longrightarrow> u \<le> v \<Longrightarrow> cum bs u \<le> cum bs v"
  by (induction bs) (auto simp: cum_Cons counts_ok_def, auto simp: cum_def)

lemma cum_le_total: "counts_ok bs \<Longrightarrow> cum bs v \<le> total_count bs"
  by (induction bs) (auto simp: cum_Cons counts_ok_def total_count_def, auto simp: cum_def)

lemma cum_all: "\<forall>b \<in> set bs. fst b \<le> v \<Longrightarrow> cum bs v = total_count bs"
  by (induction bs) (auto simp: cum_Cons total_count_def, auto simp: cum_def)

lemma cum_none: "\<forall>b \<in> set bs. v < fst b \<Longrightarrow> cum bs v = 0"
  by (induction bs) (auto simp: cum_Cons, auto simp: cum_def)

lemma total_nonneg: "counts_ok bs \<Longrightarrow> 0 \<le> total_count bs"
  by (induction bs) (auto simp: counts_ok_def total_count_def)

lemma summarise_sorted: "sorted (fst (summarise bs))"
  by (simp add: summarise_def Let_def)

lemma summarise_mset: "mset (fst (summarise bs)) = mset bs"
  by (simp add: summarise_def Let_def)

lemma summarise_total: "snd (summarise bs) = total_count bs"
proof -
  have "total_count (sort bs) = total_count bs" by (rule total_count_mset) simp
  then show ?thesis by (simp add: summarise_def Let_def total_count_def)
qed

lemma summarise_cong: "mset xs = mset ys \<Longrightarrow> summarise xs = summarise ys"
  by (simp add: summarise_def Let_def) (metis properties_for_sort sorted_sort mset_sort)

lemma sorted_fst: "sorted (bs :: (int \<times> int) list) \<Longrightarrow> sorted (map fst bs)"
  by (induction bs) (auto simp: less_eq_prod_def)

section \<open>The walk finds the least value that reaches the target\<close>

lemma walk_None: "walk t seen bs = None \<Longrightarrow> bs \<noteq> [] \<Longrightarrow> of_int (seen + total_count bs) < t"
proof (induction t seen bs rule: walk.induct)
  case (2 t seen v c bs)
  then have lt: "\<not> t \<le> of_int (seen + c)" and w: "walk t (seen + c) bs = None"
    by (auto split: if_splits)
  show ?case
  proof (cases "bs = []")
    case True
    then show ?thesis using lt by (simp add: total_count_def)
  next
    case False
    then show ?thesis using "2.IH"[OF lt w] by (simp add: total_count_def add.assoc)
  qed
qed simp

lemma walk_mem: "walk t seen bs = Some v \<Longrightarrow> v \<in> fst ` set bs"
  by (induction t seen bs rule: walk.induct) (auto split: if_splits)

lemma walk_Some:
  assumes "walk t seen bs = Some v" "sorted (map fst bs)" "counts_ok bs"
  shows "v \<in> fst ` set bs \<and> t \<le> of_int (seen + cum bs v) \<and>
    (\<forall>u \<in> fst ` set bs. u < v \<longrightarrow> of_int (seen + cum bs u) < t)"
  using assms
proof (induction t seen bs rule: walk.induct)
  case (2 t seen x c bs)
  have c0: "counts_ok bs" "0 \<le> c" and ge: "\<forall>b \<in> set bs. x \<le> fst b" and srt: "sorted (map fst bs)"
    using "2.prems" by (auto simp: counts_ok_def)
  show ?case
  proof (cases "t \<le> of_int (seen + c)")
    case True
    then have v: "v = x" using "2.prems"(1) by simp
    have "seen + c \<le> seen + (c + cum bs x)" using cum_nonneg[OF c0(1), of x] by simp
    then have "of_int (seen + c) \<le> (of_int (seen + (c + cum bs x)) :: rat)"
      by (simp only: of_int_le_iff)
    then have "t \<le> of_int (seen + (c + cum bs x))" using True by (rule order_trans[rotated])
    then show ?thesis using ge by (auto simp: v cum_Cons)
  next
    case False
    then have w: "walk t (seen + c) bs = Some v" using "2.prems"(1) by simp
    note IH = "2.IH"[OF False w srt c0(1)]
    have xv: "x \<le> v" using IH ge by auto
    have "of_int (seen + c + cum bs u) < t" if "u = x \<or> u \<in> fst ` set bs" "u < v" for u
    proof (cases "u \<in> fst ` set bs")
      case True then show ?thesis using IH that by blast
    next
      case Fu: False
      then have "\<forall>b \<in> set bs. u < fst b" using that ge by force
      then show ?thesis using False by (simp add: cum_none)
    qed
    moreover have "t \<le> of_int (seen + c + cum bs v)" using IH by blast
    ultimately show ?thesis using IH xv ge
      by (auto simp: cum_Cons add.assoc[symmetric])
  qed
qed simp

lemma walk_finds:
  assumes "t \<le> of_int (seen + total_count bs)" "bs \<noteq> []"
  shows "\<exists>v. walk t seen bs = Some v"
proof (cases "walk t seen bs")
  case None
  then show ?thesis using walk_None[OF None assms(2)] assms(1) by linarith
qed simp

text \<open>A larger target is reached at the same value or later.\<close>

lemma walk_mono:
  assumes "walk t seen bs = Some u" "walk t' seen bs = Some v" "t \<le> t'" "sorted (map fst bs)"
  shows "u \<le> v"
  using assms
proof (induction t seen bs rule: walk.induct)
  case (2 t seen x c bs)
  show ?case
  proof (cases "t \<le> of_int (seen + c)")
    case True
    have "v \<in> fst ` set ((x, c) # bs)"
      using "2.prems"(2) by (rule walk_mem)
    then show ?thesis using True "2.prems" by auto
  next
    case False
    moreover have "\<not> t' \<le> of_int (seen + c)" using False "2.prems"(3) by linarith
    ultimately show ?thesis using 2 by auto
  qed
qed simp

section \<open>Quantiles\<close>

lemma is_quantile_mset: "mset xs = mset ys \<Longrightarrow> is_quantile num den xs v = is_quantile num den ys v"
  by (simp add: is_quantile_def cum_mset[of xs ys] total_count_mset[of xs ys] mset_eq_setD[of xs ys])

lemma is_quantile_le: "is_quantile num den bs u \<Longrightarrow> is_quantile num den bs v \<Longrightarrow> v \<le> u"
proof (rule ccontr)
  assume u: "is_quantile num den bs u" and v: "is_quantile num den bs v" and "\<not> v \<le> u"
  then have "den * cum bs u < num * total_count bs" unfolding is_quantile_def not_le by blast
  then show False using u unfolding is_quantile_def by simp
qed

lemma is_quantile_unique: "is_quantile num den bs u \<Longrightarrow> is_quantile num den bs v \<Longrightarrow> u = v"
  by (intro antisym is_quantile_le)

lemma cum_at_recorded:
  assumes "\<exists>x \<in> fst ` set bs. x \<le> u"
  shows "\<exists>m \<in> fst ` set bs. m \<le> u \<and> cum bs m = cum bs u"
proof -
  let ?S = "{x \<in> fst ` set bs. x \<le> u}"
  have fin: "finite ?S" "?S \<noteq> {}" using assms by auto
  have m: "Max ?S \<in> ?S" using fin by (rule Max_in)
  have "fst b \<le> Max ?S \<longleftrightarrow> fst b \<le> u" if "b \<in> set bs" for b
  proof
    assume "fst b \<le> u"
    then have "fst b \<in> ?S" using that by simp
    then show "fst b \<le> Max ?S" by (rule Max_ge[OF fin(1)])
  next
    assume "fst b \<le> Max ?S"
    then show "fst b \<le> u" using m by simp
  qed
  then have "filter (\<lambda>b. fst b \<le> Max ?S) bs = filter (\<lambda>b. fst b \<le> u) bs"
    by (intro filter_cong) auto
  then have "cum bs (Max ?S) = cum bs u" by (simp add: cum_def)
  then show ?thesis using m by blast
qed

lemma quantile_below:
  assumes "is_quantile num den bs v" "u < v" "0 < num * total_count bs"
  shows "den * cum bs u < num * total_count bs"
proof (cases "\<exists>x \<in> fst ` set bs. x \<le> u")
  case True
  then obtain m where "m \<in> fst ` set bs" "m \<le> u" "cum bs m = cum bs u"
    using cum_at_recorded by blast
  then show ?thesis using assms unfolding is_quantile_def by (metis le_less_trans)
next
  case False
  then have "cum bs u = 0" by (intro cum_none) (auto simp: not_le)
  then show ?thesis using assms(3) by simp
qed

lemma quantile_above:
  assumes "is_quantile num den bs v" "v \<le> u" "counts_ok bs" "0 \<le> den"
  shows "num * total_count bs \<le> den * cum bs u"
proof -
  have "den * cum bs v \<le> den * cum bs u"
    using assms by (intro mult_left_mono cum_mono) auto
  then show ?thesis using assms(1) by (simp add: is_quantile_def)
qed

lemma quantile_concat_below:
  assumes "list_all2 (is_quantile num den) bss qs" "\<forall>bs \<in> set bss. 0 < num * total_count bs"
    "\<forall>q \<in> set qs. u < q" "bss \<noteq> []"
  shows "den * cum (concat bss) u < num * total_count (concat bss)"
  using assms
proof (induction bss qs rule: list_all2_induct)
  case (Cons bs bss q qs)
  have 1: "den * cum bs u < num * total_count bs"
    using Cons by (intro quantile_below) auto
  show ?case
  proof (cases "bss = []")
    case False
    then have "den * cum (concat bss) u < num * total_count (concat bss)" using Cons by simp
    with 1 show ?thesis by (simp add: distrib_left)
  qed (use 1 in simp)
qed simp

lemma quantile_concat_above:
  assumes "list_all2 (is_quantile num den) bss qs" "\<forall>bs \<in> set bss. counts_ok bs"
    "\<forall>q \<in> set qs. q \<le> u" "0 \<le> den"
  shows "num * total_count (concat bss) \<le> den * cum (concat bss) u"
  using assms
proof (induction bss qs rule: list_all2_induct)
  case Nil
  then show ?case by (simp add: total_count_def cum_def)
next
  case (Cons bs bss q qs)
  have "num * total_count bs \<le> den * cum bs u"
    using Cons by (intro quantile_above) auto
  moreover have "num * total_count (concat bss) \<le> den * cum (concat bss) u" using Cons by simp
  ultimately show ?case by (simp add: distrib_left)
qed

text \<open>The quantile of a union lies between the least and the greatest quantile of its parts.\<close>

lemma quantile_concat_between:
  assumes q: "list_all2 (is_quantile num den) bss qs" and w: "is_quantile num den (concat bss) w"
    and ok: "\<forall>bs \<in> set bss. counts_ok bs \<and> 0 < total_count bs" and nd: "0 < num" "0 \<le> den"
    and ne: "bss \<noteq> []"
  shows "Min (set qs) \<le> w \<and> w \<le> Max (set qs)"
proof
  have ne': "qs \<noteq> []" using q ne by auto
  show "Min (set qs) \<le> w"
  proof (rule ccontr)
    assume "\<not> ?thesis"
    then have "\<forall>q \<in> set qs. w < q" using ne' by (simp add: not_le)
    then have "den * cum (concat bss) w < num * total_count (concat bss)"
      using q ok nd ne by (intro quantile_concat_below) auto
    then show False using w by (simp add: is_quantile_def)
  qed
  show "w \<le> Max (set qs)"
  proof (rule ccontr)
    let ?m = "Max (set qs)"
    assume "\<not> ?thesis"
    then have mw: "?m < w" by simp
    have "\<forall>q \<in> set qs. q \<le> ?m" by simp
    then have up: "num * total_count (concat bss) \<le> den * cum (concat bss) ?m"
      using q ok nd by (intro quantile_concat_above) auto
    have "?m \<in> set qs" using ne' by simp
    then obtain bs where "bs \<in> set bss" "is_quantile num den bs ?m"
      using q by (metis in_set_conv_nth list_all2_conv_all_nth)
    then have "?m \<in> fst ` set (concat bss)" by (auto simp: is_quantile_def)
    then have "den * cum (concat bss) ?m < num * total_count (concat bss)"
      using w mw unfolding is_quantile_def by blast
    then show False using up by simp
  qed
qed

section \<open>Percentiles whose rank is exact\<close>

text \<open>
  The contract between \<open>percentile\<close> and the floating-point target it compares with: below a
  bound on the number of samples, a count reaches the target exactly when it reaches the
  exact share \<open>num/den\<close>.
\<close>

locale exact_percentile =
  fixes pct :: pynum and num den bound :: int
  assumes target_exact: "0 < t \<Longrightarrow> t < bound \<Longrightarrow>
      \<exists>x. pct_target t pct = Inr x \<and> (\<forall>n. x \<le> of_int n \<longleftrightarrow> num * t \<le> den * n)"
    and share: "0 < num" "num \<le> den"
begin

lemma percentile_quantile:
  assumes ok: "counts_ok bs" and s: "sorted (map fst bs)"
    and tot: "0 < total_count bs" "total_count bs < bound"
  shows "\<exists>v. percentile bs (total_count bs) pct = Inr v \<and> is_quantile num den bs v"
proof -
  obtain x where x: "pct_target (total_count bs) pct = Inr x"
      "\<And>n. x \<le> of_int n \<longleftrightarrow> num * total_count bs \<le> den * n"
    using target_exact tot by blast
  have ne: "bs \<noteq> []" using tot by (auto simp: total_count_def)
  have "num * total_count bs \<le> den * total_count bs"
    using share tot by (intro mult_right_mono) auto
  then have "x \<le> of_int (0 + total_count bs)" using x by simp
  then obtain v where v: "walk x 0 bs = Some v" using walk_finds ne by blast
  note W = walk_Some[OF v s ok]
  have "is_quantile num den bs v"
    using W x(2) by (auto simp: is_quantile_def not_le[symmetric])
  moreover have "percentile bs (total_count bs) pct = Inr v"
    using tot x v by (simp add: percentile_def)
  ultimately show ?thesis by blast
qed

lemma percentile_summarise:
  assumes ok: "counts_ok bs" and tot: "0 < total_count bs" "total_count bs < bound"
  shows "\<exists>v. percentile (fst (summarise bs)) (snd (summarise bs)) pct = Inr v \<and> is_quantile num den bs v"
proof -
  let ?s = "fst (summarise bs)"
  have m: "mset ?s = mset bs" by (rule summarise_mset)
  have "counts_ok ?s" using ok mset_eq_setD[OF m] by (simp add: counts_ok_def list_all_iff)
  moreover have "total_count ?s = total_count bs" by (rule total_count_mset[OF m])
  ultimately show ?thesis
    using percentile_quantile[of ?s] sorted_fst[OF summarise_sorted[of bs]] tot
    by (simp add: summarise_total is_quantile_mset[OF m])
qed

lemma merged_between_clients:
  assumes ne: "bss \<noteq> []" and ok: "\<forall>bs \<in> set bss. counts_ok bs \<and> 0 < total_count bs"
    and tot: "total_count (concat bss) < bound"
  shows "\<exists>w qs. percentile (fst (summarise (concat bss))) (snd (summarise (concat bss))) pct = Inr w \<and>
      mapE (\<lambda>bs. percentile (fst (summarise bs)) (snd (summarise bs)) pct) bss = Inr qs \<and>
      Min (set qs) \<le> w \<and> w \<le> Max (set qs)"
proof -
  have tc: "0 < total_count (concat bss) \<and> (\<forall>bs \<in> set bss. total_count bs \<le> total_count (concat bss))"
    using ne ok
  proof (induction bss)
    case (Cons bs bss)
    show ?case
    proof (cases "bss = []")
      case False
      then show ?thesis using Cons by force
    qed (use Cons in simp)
  qed simp
  have cc: "counts_ok (concat bss)" using ok by (auto simp: counts_ok_def list_all_iff)
  obtain w where w: "percentile (fst (summarise (concat bss))) (snd (summarise (concat bss))) pct = Inr w"
      "is_quantile num den (concat bss) w"
    using percentile_summarise[OF cc] tc tot by blast
  have "\<forall>bs \<in> set bss. \<exists>q. percentile (fst (summarise bs)) (snd (summarise bs)) pct = Inr q \<and> is_quantile num den bs q"
    using percentile_summarise ok tc tot by (meson le_less_trans)
  then obtain f where f: "\<And>bs. bs \<in> set bss \<Longrightarrow>
      percentile (fst (summarise bs)) (snd (summarise bs)) pct = Inr (f bs) \<and> is_quantile num den bs (f bs)"
    by metis
  have "mapE (\<lambda>bs. percentile (fst (summarise bs)) (snd (summarise bs)) pct) bss = Inr (map f bss)"
    using f by (intro mapE_total) blast
  moreover have "list_all2 (is_quantile num den) bss (map f bss)"
    using f by (simp add: list_all2_conv_all_nth)
  then have "Min (set (map f bss)) \<le> w \<and> w \<le> Max (set (map f bss))"
    by (rule quantile_concat_between[OF _ w(2) ok share(1) _ ne]) (use share in simp)
  ultimately show ?thesis using w(1) by blast
qed

end

lemma pct_target_int:
  assumes "0 \<le> t" "0 \<le> p" "t * p < 2 ^ 53"
  shows "pct_target t (PyInt p) = Inr (fl (of_int (t * p) / of_int 100))"
proof -
  have "\<bar>t * p\<bar> \<le> 2 ^ 53" using assms by simp
  then show ?thesis by (simp add: pct_target_def float_of_int_small)
qed

lemma pct_target_float:
  assumes "0 \<le> t" "t \<le> 2 ^ 53" "0 \<le> p" "t * p < 2 ^ 53"
  shows "pct_target t (PyFloat (of_int p)) = Inr (fl (of_int (t * p) / of_int 100))"
proof -
  have "fl (of_int t * of_int p) = of_int (t * p)"
    using fl_of_int[of "t * p"] assms by simp
  then show ?thesis using assms by (simp add: pct_target_def float_of_int_small)
qed

lemma exact_rank:
  assumes "0 < t" "t < 2 ^ 46" "0 < p" "p \<le> 100"
  shows "t * p < 2 ^ 53" "\<And>n. fl (of_int (t * p) / of_int 100) \<le> of_int n \<longleftrightarrow> p * t \<le> 100 * n"
proof -
  have "t * p \<le> t * 100" using assms by (intro mult_left_mono) auto
  then show b: "t * p < 2 ^ 53" using assms(2) by simp
  show "fl (of_int (t * p) / of_int 100) \<le> of_int n \<longleftrightarrow> p * t \<le> 100 * n" for n
    using binary64.rnd_quot_le_iff[of "t * p" 100 n] b assms by (simp add: mult.commute)
qed

interpretation p50: exact_percentile "PyInt 50" 50 100 "2 ^ 46"
  by unfold_locales (use exact_rank[where p = 50] in \<open>auto simp: pct_target_int\<close>)

interpretation p90: exact_percentile "PyInt 90" 90 100 "2 ^ 46"
  by unfold_locales (use exact_rank[where p = 90] in \<open>auto simp: pct_target_int\<close>)

interpretation p99: exact_percentile "PyInt 99" 99 100 "2 ^ 46"
  by unfold_locales (use exact_rank[where p = 99] in \<open>auto simp: pct_target_int\<close>)

section \<open>The 99.9th percentile\<close>

text \<open>
  The constant 99.9 is not a double: the target of p99.9 is off by the error of the constant
  and of two roundings. It stays within a thousandth of the exact rank, so it decides like
  the exact rank unless the exact rank is a whole number, where it may ask for one sample
  more.
\<close>

lemma pct_999_value: "pct_999 = 3514918771674317 / 35184372088832"
  unfolding pct_999_def by code_simp

lemma rel_error_bound:
  assumes "1 \<le> x" "x \<le> b"
  shows "\<bar>fl x - x\<bar> \<le> b / 2 ^ 53"
proof -
  have "2 powi (-1022) \<le> (1::rat)" by simp
  then have "2 powi (-1022) \<le> \<bar>x\<bar>" using assms by linarith
  then have "\<bar>fl x - x\<bar> \<le> \<bar>x\<bar> / 2 ^ 53" by (rule fl_rel_error)
  also have "\<dots> \<le> b / 2 ^ 53" using assms by (intro divide_right_mono) auto
  finally show ?thesis .
qed

lemma target_999:
  assumes "2 \<le> t" "t < 2 ^ 40"
  shows "\<exists>x. pct_target t (PyFloat pct_999) = Inr x \<and> \<bar>x - 999 * of_int t / 1000\<bar> < 1 / 1000"
proof -
  define r where "r = (of_int t :: rat)"
  have r: "2 \<le> r" "r \<le> 2 ^ 40"
    using assms unfolding r_def by (metis of_int_le_iff of_int_numeral, metis less_imp_le of_int_le_iff of_int_numeral of_int_power)
  define y where "y = fl (r * pct_999)"
  have c: "1 \<le> pct_999" "pct_999 \<le> 100" "\<bar>pct_999 - 999 / 10\<bar> \<le> 1 / 2 ^ 47"
    by (simp_all add: pct_999_value)
  have rc: "1 \<le> r * pct_999" "r * pct_999 \<le> 100 * 2 ^ 40"
    using r c mult_mono[of r "2 ^ 40" pct_999 100] mult_mono[of 1 r 1 pct_999] by auto
  then have y: "\<bar>y - r * pct_999\<bar> \<le> 100 * 2 ^ 40 / 2 ^ 53" unfolding y_def by (rule rel_error_bound)
  have "r * pct_999 \<ge> 2 * 99" using r c by (intro mult_mono) (auto simp: pct_999_value)
  moreover have "\<bar>y - r * pct_999\<bar> \<le> 1" by (rule order_trans[OF y]) simp
  ultimately have "100 \<le> y" "y \<le> 100 * 2 ^ 40 + 1" using rc by linarith+
  then have y100: "1 \<le> y / 100" "y / 100 \<le> 2 ^ 41" by simp_all
  have x: "\<bar>fl (y / 100) - y / 100\<bar> \<le> 2 ^ 41 / 2 ^ 53" using y100 by (rule rel_error_bound)
  have "\<bar>r * (pct_999 - 999 / 10)\<bar> \<le> 2 ^ 40 * (1 / 2 ^ 47)"
    unfolding abs_mult using r c by (intro mult_mono) auto
  then have e: "\<bar>r * pct_999 - r * (999 / 10)\<bar> \<le> 1 / 2 ^ 7" by (simp add: algebra_simps)
  have "\<bar>fl (y / 100) - 999 * r / 1000\<bar> < 1 / 1000"
  proof -
    define u z where "u = fl (y / 100)" and "z = r * pct_999"
    have "u - y / 100 \<le> 1 / 2 ^ 12" "y / 100 - u \<le> 1 / 2 ^ 12"
      using abs_le_D1[OF x] abs_le_D2[OF x] by (simp_all add: u_def)
    moreover have "y - z \<le> 25 / 2 ^ 11" "z - y \<le> 25 / 2 ^ 11"
      using abs_le_D1[OF y] abs_le_D2[OF y] by (simp_all add: z_def)
    moreover have "z - r * (999 / 10) \<le> 1 / 2 ^ 7" "r * (999 / 10) - z \<le> 1 / 2 ^ 7"
      using abs_le_D1[OF e] abs_le_D2[OF e] by (simp_all add: z_def)
    ultimately have "u - 999 * r / 1000 < 1 / 1000" "999 * r / 1000 - u < 1 / 1000"
      by (simp_all add: field_simps)
    then show ?thesis by (simp only: u_def[symmetric] abs_less_iff) simp
  qed
  moreover have "\<bar>t\<bar> \<le> 2 ^ 53" using assms by simp
  then have "pct_target t (PyFloat pct_999) = Inr (fl (y / 100))"
    by (simp add: pct_target_def float_of_int_small y_def r_def)
  ultimately show ?thesis unfolding r_def by blast
qed

lemma target_999_rank:
  assumes "2 \<le> t" "t < 2 ^ 40"
  shows "\<exists>x. pct_target t (PyFloat pct_999) = Inr x \<and>
    (\<forall>n. (x \<le> of_int n \<longrightarrow> 999 * t \<le> 1000 * n) \<and>
         (999 * t + (if 1000 dvd t then 1 else 0) \<le> 1000 * n \<longrightarrow> x \<le> of_int n))"
proof -
  obtain x where x: "pct_target t (PyFloat pct_999) = Inr x" "\<bar>x - 999 * of_int t / 1000\<bar> < 1 / 1000"
    using target_999[OF assms] by blast
  then have lo: "999 * of_int t < 1000 * x + 1" and hi: "1000 * x < 999 * of_int t + 1"
    unfolding abs_less_iff by (simp_all add: field_simps)
  have "999 * t \<le> 1000 * n" if "x \<le> of_int n" for n
  proof -
    have "(of_int (999 * t) :: rat) < of_int (1000 * n + 1)" using lo that by simp
    then have "999 * t < 1000 * n + 1" by (simp only: of_int_less_iff)
    then show ?thesis by simp
  qed
  moreover have "x \<le> of_int n" if "999 * t + (if 1000 dvd t then 1 else 0) \<le> 1000 * n" for n
  proof -
    have "999 * t \<noteq> 1000 * n"
    proof
      assume e: "999 * t = 1000 * n"
      then have "1000 dvd 999 * t" by simp
      moreover have "coprime (1000::int) 999" by (simp add: coprime_iff_gcd_eq_1 gcd_non_0_int)
      ultimately have "1000 dvd t" by (simp add: coprime_dvd_mult_right_iff)
      then show False using that e by simp
    qed
    then have "999 * t + 1 \<le> 1000 * n" using that by (simp split: if_splits)
    then have "(of_int (999 * t + 1) :: rat) \<le> of_int (1000 * n)" by (simp only: of_int_le_iff)
    then show ?thesis using hi by simp
  qed
  ultimately show ?thesis using x(1) by blast
qed

section \<open>Percentiles are ordered\<close>

lemma pct_target_mono:
  assumes "0 \<le> t" "t < 2 ^ 46"
  shows "\<exists>x50 x90 x99 x999. pct_target t (PyInt 50) = Inr x50 \<and> pct_target t (PyInt 90) = Inr x90 \<and>
    pct_target t (PyInt 99) = Inr x99 \<and> pct_target t (PyFloat pct_999) = Inr x999 \<and>
    x50 \<le> x90 \<and> x90 \<le> x99 \<and> x99 \<le> x999 \<and> x999 \<le> of_int t"
proof -
  let ?y = "\<lambda>p. fl (of_int (t * p) / of_int 100)"
  have i: "pct_target t (PyInt p) = Inr (?y p)" if "0 \<le> p" "p \<le> 100" for p
  proof -
    have "t * p \<le> t * 100" using assms that by (intro mult_left_mono) auto
    then show ?thesis using assms that by (intro pct_target_int) auto
  qed
  have le: "?y p \<le> ?y q" if "p \<le> q" for p q
    using assms that by (intro fl_mono divide_right_mono) (auto intro: mult_left_mono)
  have c: "of_int 99 \<le> pct_999" "pct_999 \<le> of_int 100" by (simp_all add: pct_999_value)
  have t0: "(0::rat) \<le> of_int t" using assms by simp
  have b: "\<bar>t * 99\<bar> \<le> 2 ^ 53" "\<bar>t * 100\<bar> \<le> 2 ^ 53" "\<bar>t\<bar> \<le> 2 ^ 53" using assms by auto
  have f: "pct_target t (PyFloat pct_999) = Inr (fl (fl (of_int t * pct_999) / 100))"
    by (simp add: pct_target_def float_of_int_small[OF b(3)])
  have lo: "of_int (t * 99) \<le> fl (of_int t * pct_999)"
    using b(1) by (rule binary64.rnd_ge_int) (use c t0 mult_left_mono[of 99 pct_999 "of_int t"] in simp)
  have hi: "fl (of_int t * pct_999) \<le> of_int (t * 100)"
    using b(2) by (rule binary64.rnd_le_int) (use c t0 mult_left_mono[of pct_999 100 "of_int t"] in simp)
  have "?y 99 \<le> fl (fl (of_int t * pct_999) / 100)"
    using lo by (intro fl_mono) (simp add: divide_right_mono)
  moreover have "fl (fl (of_int t * pct_999) / 100) \<le> of_int t"
    using b(3) hi by (intro binary64.rnd_le_int) auto
  ultimately show ?thesis using i f le[of 50 90] le[of 90 99] by auto
qed

lemma sorted_le_last:
  assumes "sorted (map fst bs)" "bs \<noteq> []" shows "\<forall>b \<in> set bs. fst b \<le> fst (last bs)"
proof -
  have "sorted (map fst (butlast bs @ [last bs]))" using assms by simp
  then have "\<forall>b \<in> set (butlast bs). fst b \<le> fst (last bs)" unfolding map_append sorted_append by simp
  then have "\<forall>b \<in> set (butlast bs @ [last bs]). fst b \<le> fst (last bs)" by auto
  then show ?thesis using assms(2) by simp
qed

lemma percentile_walk:
  "tot \<noteq> 0 \<Longrightarrow> pct_target tot pct = Inr x \<Longrightarrow> walk x 0 bs = Some v \<Longrightarrow> percentile bs tot pct = Inr v"
  by (simp add: percentile_def)

lemma percentiles_ordered:
  assumes "sorted (map fst bs)" "0 < total_count bs" "total_count bs < 2 ^ 46"
  shows "\<exists>p50 p90 p99 p999. percentile bs (total_count bs) (PyInt 50) = Inr p50 \<and>
    percentile bs (total_count bs) (PyInt 90) = Inr p90 \<and>
    percentile bs (total_count bs) (PyInt 99) = Inr p99 \<and>
    percentile bs (total_count bs) (PyFloat pct_999) = Inr p999 \<and>
    p50 \<le> p90 \<and> p90 \<le> p99 \<and> p99 \<le> p999 \<and> p999 \<le> fst (last bs)"
proof -
  let ?t = "total_count bs"
  have ne: "bs \<noteq> []" using assms(2) by (auto simp: total_count_def)
  obtain a b c d where T: "pct_target ?t (PyInt 50) = Inr a" "pct_target ?t (PyInt 90) = Inr b"
      "pct_target ?t (PyInt 99) = Inr c" "pct_target ?t (PyFloat pct_999) = Inr d"
    and le: "a \<le> b" "b \<le> c" "c \<le> d" "d \<le> of_int ?t"
    using pct_target_mono[of ?t] assms by auto
  have W: "\<exists>v. walk x 0 bs = Some v" if "x \<le> d" for x
    using walk_finds[of x 0 bs] ne le(4) that by simp
  obtain p50 p90 p99 p999 where w: "walk a 0 bs = Some p50" "walk b 0 bs = Some p90"
      "walk c 0 bs = Some p99" "walk d 0 bs = Some p999"
    using W[of a] W[of b] W[of c] W[of d] le by auto
  have m: "p999 \<le> fst (last bs)"
    using walk_mem[OF w(4)] sorted_le_last[OF assms(1) ne] by auto
  have t0: "?t \<noteq> 0" using assms(2) by simp
  show ?thesis
    using percentile_walk[OF t0 T(1) w(1)] percentile_walk[OF t0 T(2) w(2)]
      percentile_walk[OF t0 T(3) w(3)] percentile_walk[OF t0 T(4) w(4)] m
      walk_mono[OF w(1) w(2) le(1) assms(1)] walk_mono[OF w(2) w(3) le(2) assms(1)]
      walk_mono[OF w(3) w(4) le(3) assms(1)]
    by blast
qed

section \<open>The whole script\<close>

text \<open>What a path loads to, in a world.\<close>

definition loaded :: "world \<Rightarrow> string \<Rightarrow> (int \<times> int) list res" where
  "loaded w path = (case files w path of None \<Rightarrow> Inl (FileNotFoundError path)
     | Some t \<Rightarrow> load_lines (text_lines t))"

lemma load_eq: "load path w = (loaded w path, w)"
  by (simp add: load_def loaded_def bindI_def readI_def liftI_def split: option.splits)

lemma loaded_stdout [simp]: "loaded (w\<lparr>stdout := x\<rparr>) = loaded w"
  by (simp add: loaded_def fun_eq_iff)

lemma print_res_Inr: "print_res (Inr s) w = (Inr (), w\<lparr>stdout := stdout w @ s @ nl\<rparr>)"
  by (simp add: print_res_def bindI_lift printI_def nl_def)

lemma summarise_ordered:
  assumes "counts_ok bs" "total_count bs < 2 ^ 46"
  shows "\<exists>p50 p99. percentile (fst (summarise bs)) (snd (summarise bs)) (PyInt 50) = Inr p50 \<and>
    percentile (fst (summarise bs)) (snd (summarise bs)) (PyInt 99) = Inr p99"
proof (cases "total_count bs = 0")
  case True
  then show ?thesis by (simp add: summarise_total percentile_def)
next
  case False
  then have "0 < total_count bs" using total_nonneg[OF assms(1)] by simp
  then show ?thesis
    using p50.percentile_summarise[OF assms(1)] p99.percentile_summarise[OF assms(1)] assms(2) by blast
qed

lemma file_row_returns:
  assumes "counts_ok bs" "total_count bs < 2 ^ 46"
  shows "\<exists>s. file_row label (fst (summarise bs)) (snd (summarise bs)) = Inr s"
  using summarise_ordered[OF assms] by (auto simp: file_row_def)

lemma merge_file_returns:
  assumes "loaded w path = Inr raw" "counts_ok raw" "total_count raw < 2 ^ 46"
  shows "\<exists>s. merge_file merged path w = (Inr (merged @ fst (summarise raw)), w\<lparr>stdout := stdout w @ s\<rparr>)"
proof -
  obtain s where "file_row (last (split_on (CHR ''/'') path)) (fst (summarise raw)) (snd (summarise raw)) = Inr s"
    using file_row_returns[OF assms(2,3)] by blast
  then show ?thesis
    by (auto simp: merge_file_def bindI_def[of "load _"] load_eq assms(1) case_prod_unfold Let_def
        bindI_def[of "print_res _"] print_res_Inr returnI_def)
qed

lemma merge_files_return:
  assumes "mapE (loaded w) paths = Inr raws" "\<forall>raw \<in> set raws. counts_ok raw \<and> total_count raw < 2 ^ 46"
  shows "\<exists>s. forI merge_file merged paths w =
    (Inr (merged @ concat (map (\<lambda>raw. fst (summarise raw)) raws)), w\<lparr>stdout := stdout w @ s\<rparr>)"
  using assms
proof (induction paths arbitrary: merged raws w)
  case Nil
  then show ?case by (auto simp: returnI_def intro!: exI[of _ "[]"])
next
  case (Cons path paths)
  then obtain raw raws' where r: "loaded w path = Inr raw" "mapE (loaded w) paths = Inr raws'" "raws = raw # raws'"
    by (auto simp: py_res)
  obtain s where s: "merge_file merged path w = (Inr (merged @ fst (summarise raw)), w\<lparr>stdout := stdout w @ s\<rparr>)"
    using merge_file_returns[OF r(1)] Cons.prems r by auto
  have "mapE (loaded (w\<lparr>stdout := stdout w @ s\<rparr>)) paths = Inr raws'" using r by simp
  from Cons.IH[OF this, of "merged @ fst (summarise raw)"] Cons.prems r
  obtain s' where "forI merge_file (merged @ fst (summarise raw)) paths (w\<lparr>stdout := stdout w @ s\<rparr>) =
      (Inr ((merged @ fst (summarise raw)) @ concat (map (\<lambda>raw. fst (summarise raw)) raws')),
       w\<lparr>stdout := (stdout w @ s) @ s'\<rparr>)"
    by auto
  then show ?case by (auto simp: bindI_def s r intro!: exI[of _ "s @ s'"])
qed

lemma concat_summarise_mset: "mset (concat (map (\<lambda>raw. fst (summarise raw)) raws)) = mset (concat raws)"
  by (induction raws) (auto simp: summarise_mset)

lemma concat_total_le:
  "\<forall>bs \<in> set bss. counts_ok bs \<Longrightarrow> bs \<in> set bss \<Longrightarrow> total_count bs \<le> total_count (concat bss)"
proof (induction bss)
  case (Cons c bss)
  have "0 \<le> total_count (concat bss)"
    using Cons.prems by (intro total_nonneg) (auto simp: counts_ok_def list_all_iff)
  then show ?case using Cons total_nonneg[of c] by force
qed simp

lemma percentile_float_int:
  assumes "0 \<le> t" "t < 2 ^ 46" "0 \<le> p" "p \<le> 100"
  shows "percentile bs t (PyFloat (of_int p)) = percentile bs t (PyInt p)"
proof -
  have "t * p \<le> t * 100" using assms by (intro mult_left_mono) auto
  then have "pct_target t (PyFloat (of_int p)) = pct_target t (PyInt p)"
    using assms by (simp add: pct_target_float pct_target_int)
  then show ?thesis by (simp add: percentile_def)
qed

text \<open>The machine-readable end of the report, which the sweep scripts grep.\<close>

definition summary_lines :: "int \<Rightarrow> int \<Rightarrow> int \<Rightarrow> int \<Rightarrow> int \<Rightarrow> int \<Rightarrow> string" where
  "summary_lines cnt p50 p90 p99 p999 mx =
     ''merged_count='' @ str_of_int cnt @ nl @ ''merged_p50_us='' @ str_of_int p50 @ nl @
     ''merged_p90_us='' @ str_of_int p90 @ nl @ ''merged_p99_us='' @ str_of_int p99 @ nl @
     ''merged_p99_9_us='' @ str_of_int p999 @ nl @ ''merged_max_us='' @ str_of_int mx @ nl"

lemma merged_report_returns:
  assumes p: "percentile bs t (PyInt 50) = Inr p50" "percentile bs t (PyInt 90) = Inr p90"
      "percentile bs t (PyInt 99) = Inr p99" "percentile bs t (PyFloat pct_999) = Inr p999"
    and t: "0 \<le> t" "t < 2 ^ 46"
  shows "\<exists>s. merged_report n bs t w =
    (Inr 0, w\<lparr>stdout := stdout w @ s @ summary_lines t p50 p90 p99 p999 (fst (last bs))\<rparr>)"
proof -
  have f: "percentile bs t (PyFloat 50) = Inr p50" "percentile bs t (PyFloat 90) = Inr p90"
      "percentile bs t (PyFloat 99) = Inr p99"
    using percentile_float_int[OF t, of 50 bs] percentile_float_int[OF t, of 90 bs]
      percentile_float_int[OF t, of 99 bs] p by simp_all
  have r: "\<exists>s. file_row (''MERGED ('' @ str_of_int (int n) @ '' clients)'') bs t = Inr s"
    using p by (simp add: file_row_def)
  then obtain r1 where r1: "file_row (''MERGED ('' @ str_of_int (int n) @ '' clients)'') bs t = Inr r1" ..
  obtain r2 r3 r4 r5 where rows: "pct_row bs t 50 = Inr r2" "pct_row bs t 90 = Inr r3"
      "pct_row bs t 99 = Inr r4" "pct_row bs t pct_999 = Inr r5"
    using f p by (simp add: pct_row_def)
  have k: "keyed_row key bs t (PyInt 50) = Inr (key @ ''='' @ str_of_int p50)"
      "keyed_row key bs t (PyInt 90) = Inr (key @ ''='' @ str_of_int p90)"
      "keyed_row key bs t (PyInt 99) = Inr (key @ ''='' @ str_of_int p99)"
      "keyed_row key bs t (PyFloat pct_999) = Inr (key @ ''='' @ str_of_int p999)" for key
    using p by (simp_all add: keyed_row_def)
  show ?thesis
    unfolding merged_report_def r1 forI.simps bindE_Inr k
    by (rule exI[of _ "nl @ r1 @ nl @ r2 @ nl @ r3 @ nl @ r4 @ nl @ r5 @ nl @ ''  max     '' @
          rjust 8 (str_of_int (fst (last bs))) @ '' us'' @ nl"])
       (simp add: bindI_def print_res_Inr rows printI_def returnI_def summary_lines_def nl_def)
qed

lemma merge_main_returns:
  assumes ne: "paths \<noteq> []" and l: "mapE (loaded w) paths = Inr raws"
    and ok: "\<forall>raw \<in> set raws. counts_ok raw" and t: "total_count (concat raws) < 2 ^ 46"
  shows "\<exists>s. merge_main doc paths w =
    (let (bs, tot) = summarise (concat raws) in
     if tot = 0 then (Inr 1, w\<lparr>stdout := stdout w @ s, stderr := stderr w @ nl @ ''no samples'' @ nl\<rparr>)
     else merged_report (length paths) bs tot (w\<lparr>stdout := stdout w @ s\<rparr>))"
proof -
  define h where "h = ljust 44 ''file'' @ rjust 12 ''count'' @ rjust 9 ''p50'' @ rjust 10 ''p99''"
  define w1 where "w1 = w\<lparr>stdout := stdout w @ h @ nl\<rparr>"
  have "\<forall>raw \<in> set raws. counts_ok raw \<and> total_count raw < 2 ^ 46"
    using ok t concat_total_le[OF ok] by force
  moreover have "mapE (loaded w1) paths = Inr raws" using l by (simp add: w1_def)
  ultimately obtain s where s: "forI merge_file [] paths w1 =
      (Inr (concat (map (\<lambda>raw. fst (summarise raw)) raws)), w1\<lparr>stdout := stdout w1 @ s\<rparr>)"
    using merge_files_return[of w1 paths raws "[]"] by auto
  have c: "summarise (concat (map (\<lambda>raw. fst (summarise raw)) raws)) = summarise (concat raws)"
    by (rule summarise_cong[OF concat_summarise_mset])
  show ?thesis
    unfolding merge_main_def h_def[symmetric]
    by (rule exI[of _ "h @ nl @ s"])
       (simp add: ne bindI_print nl_def[symmetric] w1_def[symmetric] bindI_def[of "forI _ _ _"] s c
         bindI_def[of "eprintI _"] eprintI_def returnI_def case_prod_unfold Let_def,
        simp add: w1_def nl_def)
qed

lemma summarise_percentiles:
  assumes "0 < total_count bs" "total_count bs < 2 ^ 46"
  obtains p50 p90 p99 p999 where
    "percentile (fst (summarise bs)) (total_count bs) (PyInt 50) = Inr p50"
    "percentile (fst (summarise bs)) (total_count bs) (PyInt 90) = Inr p90"
    "percentile (fst (summarise bs)) (total_count bs) (PyInt 99) = Inr p99"
    "percentile (fst (summarise bs)) (total_count bs) (PyFloat pct_999) = Inr p999"
    "p99 \<le> p999" "p999 \<le> fst (last (fst (summarise bs)))"
proof -
  have "total_count (fst (summarise bs)) = total_count bs" by (rule total_count_mset[OF summarise_mset])
  then show ?thesis
    using percentiles_ordered[OF sorted_fst[OF summarise_sorted], of bs] assms that by auto
qed

lemma merge_main_tail:
  assumes ne: "paths \<noteq> []" and l: "mapE (loaded w) paths = Inr raws"
    and ok: "\<forall>raw \<in> set raws. counts_ok raw"
    and t: "0 < total_count (concat raws)" "total_count (concat raws) < 2 ^ 46"
    and s: "summarise (concat raws) = (bs, total_count (concat raws))"
    and p: "percentile bs (total_count (concat raws)) (PyInt 50) = Inr p50"
      "percentile bs (total_count (concat raws)) (PyInt 90) = Inr p90"
      "percentile bs (total_count (concat raws)) (PyInt 99) = Inr p99"
      "percentile bs (total_count (concat raws)) (PyFloat pct_999) = Inr p999"
  shows "\<exists>pre. merge_main doc paths w = (Inr 0, w\<lparr>stdout := stdout w @ pre @
    summary_lines (total_count (concat raws)) p50 p90 p99 p999 (fst (last bs))\<rparr>)"
proof -
  obtain u where m: "merge_main doc paths w =
      merged_report (length paths) bs (total_count (concat raws)) (w\<lparr>stdout := stdout w @ u\<rparr>)"
    using merge_main_returns[OF ne l ok t(2), of doc] t(1) by (auto simp: s)
  show ?thesis
    using merged_report_returns[OF p _ t(2), of "length paths" "w\<lparr>stdout := stdout w @ u\<rparr>"] t(1) m
    by (auto intro: exI[of _ "u @ v" for v])
qed

lemma summarise_pair: "summarise bs = (fst (summarise bs), total_count bs)"
  by (metis prod.collapse summarise_total)

section \<open>The file format\<close>

text \<open>The lines that the load generator's \<open>--hdr_raw_out\<close> writes: a header and one line per
  bucket.\<close>

definition bucket_line :: "int \<times> int \<Rightarrow> string" where
  "bucket_line b = str_of_int (fst b) @ '','' @ str_of_int (snd b)"

definition hdr_file :: "(int \<times> int) list \<Rightarrow> string" where
  "hdr_file bs = concat (map (\<lambda>l. l @ [CHR 0x0A]) (''value,count'' # map bucket_line bs))"

lemma bucket_line_chars: "c \<in> set (bucket_line b) \<Longrightarrow> \<not> is_space c"
  by (auto simp: bucket_line_def is_space_def dest!: str_of_int_no_space)

lemma strip_bucket_line: "strip (bucket_line b @ [CHR 0x0A]) = bucket_line b"
proof -
  have "bucket_line b \<noteq> []" by (simp add: bucket_line_def)
  then have "strip (bucket_line b) = bucket_line b"
    using bucket_line_chars[of "hd (bucket_line b)" b] bucket_line_chars[of "last (bucket_line b)" b]
    by (intro strip_id) simp
  then show ?thesis by (simp add: strip_trailing is_space_def)
qed

lemma load_bucket_line: "load_line (bucket_line b @ [CHR 0x0A]) = Inr (Some b)"
proof -
  have "hd (str_of_int (fst b)) \<noteq> CHR ''v''"
    using str_of_int_chars[of "hd (str_of_int (fst b))" "fst b"] by (auto simp: is_digit_def)
  then have "\<not> starts_with (bucket_line b) ''value''"
    by (cases "str_of_int (fst b)") (auto simp: bucket_line_def starts_with_def)
  moreover have "split_on (CHR '','') (bucket_line b) = [str_of_int (fst b), str_of_int (snd b)]"
  proof -
    have "CHR '','' \<notin> set (str_of_int n)" for n using str_of_int_no_space[of "CHR '',''" n] by blast
    then show ?thesis by (simp add: bucket_line_def split_on_append split_on_word)
  qed
  moreover have "bucket_line b \<noteq> []" by (simp add: bucket_line_def)
  ultimately show ?thesis
    by (simp add: load_line_def strip_bucket_line Let_def py_int_str_of_int)
qed

lemma load_lines_buckets:
  "foldE (\<lambda>buckets l. bindE (load_line l)
     (\<lambda>b. Inr (case b of None \<Rightarrow> buckets | Some vc \<Rightarrow> buckets @ [vc]))) acc
     (map (\<lambda>b. bucket_line b @ [CHR 0x0A]) bs) = Inr (acc @ bs)"
  by (induction bs arbitrary: acc) (auto simp: load_bucket_line)

lemma load_hdr_file: "load_lines (text_lines (hdr_file bs)) = Inr bs"
proof -
  have "is_space (CHR 0x0A)" "is_space (CHR 0x0D)" by (simp_all add: is_space_def)
  then have "CHR 0x0A \<notin> set (bucket_line b)" "CHR 0x0D \<notin> set (bucket_line b)" for b
    using bucket_line_chars by blast+
  then have "\<forall>l \<in> set (''value,count'' # map bucket_line bs). CHR 0x0A \<notin> set l \<and> CHR 0x0D \<notin> set l"
    by auto
  then have t: "text_lines (hdr_file bs) =
      (''value,count'' @ [CHR 0x0A]) # map (\<lambda>b. bucket_line b @ [CHR 0x0A]) bs"
    unfolding hdr_file_def by (subst text_lines_concat) (simp_all add: comp_def)
  have "load_line (''value,count'' @ [CHR 0x0A]) = Inr None" by code_simp
  then show ?thesis unfolding t load_lines_def by (simp add: load_lines_buckets)
qed

section \<open>Properties\<close>

text \<open>C2: end to end. When every file loads, counts are not negative and there are fewer than
  \<open>2^46\<close> samples, the script exits with 0 and its output ends with the \<open>merged_\<close> lines,
  in which the p50, p90 and p99 are the exact quantiles of the union of all files (not an
  average of the files' own), the count is the number of all samples and the maximum is the
  greatest recorded value. Floating-point rounding of the rank never shows.\<close>

theorem merge_main_correct:
  assumes "paths \<noteq> []" "mapE (loaded w) paths = Inr raws" "list_all counts_ok raws"
    "0 < total_count (concat raws)" "total_count (concat raws) < 2 ^ 46"
  shows "\<exists>w' pre p50 p90 p99 p999 mx. run (merge_main doc paths) w = (0, w') \<and>
    stdout w' = stdout w @ pre @ summary_lines (total_count (concat raws)) p50 p90 p99 p999 mx \<and>
    is_quantile 50 100 (concat raws) p50 \<and> is_quantile 90 100 (concat raws) p90 \<and>
    is_quantile 99 100 (concat raws) p99 \<and> p99 \<le> p999 \<and> p999 \<le> mx \<and>
    mx = Max (fst ` set (concat raws)) \<and> files w' = files w"
proof -
  let ?all = "concat raws"
  let ?bs = "fst (summarise ?all)" and ?t = "total_count (concat raws)"
  have ok: "\<forall>raw \<in> set raws. counts_ok raw" using assms(3) by (simp add: list_all_iff)
  then have okc: "counts_ok ?all" by (auto simp: counts_ok_def list_all_iff)
  have set_eq: "set ?bs = set ?all" by (rule mset_eq_setD[OF summarise_mset])
  have "?all \<noteq> []" using assms(4) by (metis less_irrefl list.simps(8) sum_list.Nil total_count_def)
  then have ne: "?bs \<noteq> []" using set_eq by (metis set_empty)
  obtain p50 p90 p99 p999 where p: "percentile ?bs ?t (PyInt 50) = Inr p50" "percentile ?bs ?t (PyInt 90) = Inr p90"
      "percentile ?bs ?t (PyInt 99) = Inr p99" "percentile ?bs ?t (PyFloat pct_999) = Inr p999"
      "p99 \<le> p999" "p999 \<le> fst (last ?bs)"
    using summarise_percentiles[OF assms(4,5)] by metis
  have q: "is_quantile 50 100 ?all p50" "is_quantile 90 100 ?all p90" "is_quantile 99 100 ?all p99"
    using p50.percentile_summarise[OF okc assms(4,5)] p90.percentile_summarise[OF okc assms(4,5)]
      p99.percentile_summarise[OF okc assms(4,5)] p by (auto simp: summarise_total)
  have mx: "fst (last ?bs) = Max (fst ` set ?all)"
    using sorted_le_last[OF sorted_fst[OF summarise_sorted] ne] ne unfolding set_eq[symmetric]
    by (intro Max_eqI[symmetric]) auto
  obtain pre where m: "merge_main doc paths w = (Inr 0, w\<lparr>stdout := stdout w @ pre @
      summary_lines ?t p50 p90 p99 p999 (fst (last ?bs))\<rparr>)"
    using merge_main_tail[OF assms(1,2) ok assms(4,5) summarise_pair p(1-4)] by blast
  define w' where "w' = w\<lparr>stdout := stdout w @ pre @ summary_lines ?t p50 p90 p99 p999 (fst (last ?bs))\<rparr>"
  have "run (merge_main doc paths) w = (0, w')" "files w' = files w"
      "stdout w' = stdout w @ pre @ summary_lines ?t p50 p90 p99 p999 (fst (last ?bs))"
    using m by (simp_all add: run_def w'_def)
  then show ?thesis using q p(5,6) mx by blast
qed

definition sample_world :: world where
  "sample_world = \<lparr>files = [''c0.csv'' \<mapsto> hdr_file [(700, 3), (900, 1)], ''c1.csv'' \<mapsto> hdr_file [(5000, 2)]],
     stdout = [], stderr = [], dirs = []\<rparr>"

lemma sample_loaded:
  "mapE (loaded sample_world) [''c0.csv'', ''c1.csv''] = Inr [[(700, 3), (900, 1)], [(5000, 2)]]"
  by (simp add: loaded_def sample_world_def load_hdr_file)

lemma merge_main_correct_witness:
  "\<exists>w' pre p999. run (merge_main [] [''c0.csv'', ''c1.csv'']) sample_world = (0, w') \<and>
     stdout w' = pre @ summary_lines 6 700 5000 5000 p999 5000"
proof -
  let ?all = "concat [[(700, 3), (900, 1)], [(5000, 2)]] :: (int \<times> int) list"
  have q: "is_quantile 50 100 ?all 700" "is_quantile 90 100 ?all 5000" "is_quantile 99 100 ?all 5000"
    by (simp_all add: is_quantile_def cum_def total_count_def)
  from merge_main_correct[OF _ sample_loaded, of "[]"]
  obtain w' pre p50 p90 p99 p999 mx where
    r: "run (merge_main [] [''c0.csv'', ''c1.csv'']) sample_world = (0, w')"
       "stdout w' = stdout sample_world @ pre @ summary_lines (total_count ?all) p50 p90 p99 p999 mx"
       "is_quantile 50 100 ?all p50" "is_quantile 90 100 ?all p90" "is_quantile 99 100 ?all p99"
       "mx = Max (fst ` set ?all)"
    by (auto simp: counts_ok_def total_count_def)
  have "p50 = 700" "p90 = 5000" "p99 = 5000" "mx = 5000" "total_count ?all = 6"
    using is_quantile_unique[OF r(3) q(1)] is_quantile_unique[OF r(4) q(2)] is_quantile_unique[OF r(5) q(3)] r(6)
    by (simp_all add: total_count_def)
  then show ?thesis using r(1,2) by (auto simp: sample_world_def)
qed



text \<open>Averaging would be wrong: two clients whose p50 are 700 and 5000, with mean 2850, whose
  merged p50 is 700.\<close>

lemma averaging_percentiles_differs:
  "percentile [(700, 3), (900, 1)] 4 (PyInt 50) = Inr 700 \<and>
   percentile [(5000, 2)] 2 (PyInt 50) = Inr 5000 \<and>
   percentile (fst (summarise ([(700, 3), (900, 1)] @ [(5000, 2)]))) 6 (PyInt 50) = Inr 700"
  using fl_of_int[of 2] fl_of_int[of 3] by (simp add: percentile_def pct_target_int summarise_def Let_def)

text \<open>C9: the order in which the client files are named does not matter: both orders print the
  same \<open>merged_\<close> lines, the floating-point p99.9 included.\<close>

theorem merge_main_order_independent:
  assumes "paths \<noteq> []" "mset paths' = mset paths" "mapE (loaded w) paths = Inr raws"
    "list_all counts_ok raws" "0 < total_count (concat raws)" "total_count (concat raws) < 2 ^ 46"
  shows "\<exists>w1 w2 pre1 pre2 tail p50 p90 p99 p999 mx.
    run (merge_main doc paths) w = (0, w1) \<and> run (merge_main doc paths') w = (0, w2) \<and>
    stdout w1 = stdout w @ pre1 @ tail \<and> stdout w2 = stdout w @ pre2 @ tail \<and>
    tail = summary_lines (total_count (concat raws)) p50 p90 p99 p999 mx"
proof -
  obtain f where f: "raws = map f paths" "\<And>q. q \<in> set paths \<Longrightarrow> loaded w q = Inr (f q)"
  proof -
    have "list_all2 (\<lambda>x y. loaded w x = Inr y) paths raws" using assms(3) by (simp add: mapE_eq_Inr)
    then have "raws = map (\<lambda>q. projr (loaded w q)) paths"
        "\<And>q. q \<in> set paths \<Longrightarrow> loaded w q = Inr (projr (loaded w q))"
      by (induction paths raws rule: list_all2_induct) auto
    then show ?thesis by (rule that)
  qed
  let ?raws' = "map f paths'"
  have set_eq: "set paths' = set paths" using assms(2) by (rule mset_eq_setD)
  have l': "mapE (loaded w) paths' = Inr ?raws'" using f(2) set_eq by (intro mapE_total) auto
  have m: "mset (concat ?raws') = mset (concat raws)"
    unfolding f(1) mset_concat using assms(2) by (metis mset_map sum_mset_sum_list map_map)
  have ok: "\<forall>raw \<in> set raws. counts_ok raw" "\<forall>raw \<in> set ?raws'. counts_ok raw"
    using assms(4) f(1) set_eq by (auto simp: list_all_iff)
  let ?bs = "fst (summarise (concat raws))" and ?t = "total_count (concat raws)"
  obtain p50 p90 p99 p999 where p: "percentile ?bs ?t (PyInt 50) = Inr p50" "percentile ?bs ?t (PyInt 90) = Inr p90"
      "percentile ?bs ?t (PyInt 99) = Inr p99" "percentile ?bs ?t (PyFloat pct_999) = Inr p999"
    using summarise_percentiles[OF assms(5,6)] by metis
  have c: "summarise (concat ?raws') = (?bs, ?t)" "total_count (concat ?raws') = ?t"
    using summarise_cong[OF m] total_count_mset[OF m] summarise_pair by metis+
  have ne': "paths' \<noteq> []" using assms(1,2) by auto
  obtain pre1 where 1: "merge_main doc paths w = (Inr 0, w\<lparr>stdout := stdout w @ pre1 @
      summary_lines ?t p50 p90 p99 p999 (fst (last ?bs))\<rparr>)"
    using merge_main_tail[OF assms(1,3) ok(1) assms(5,6) summarise_pair p] by blast
  obtain pre2 where 2: "merge_main doc paths' w = (Inr 0, w\<lparr>stdout := stdout w @ pre2 @
      summary_lines ?t p50 p90 p99 p999 (fst (last ?bs))\<rparr>)"
    using merge_main_tail[OF ne' l' ok(2), unfolded c(2), OF assms(5,6) c(1) p] by blast
  define w1 w2 where "w1 = snd (merge_main doc paths w)" and "w2 = snd (merge_main doc paths' w)"
  have "run (merge_main doc paths) w = (0, w1)" "run (merge_main doc paths') w = (0, w2)"
      "stdout w1 = stdout w @ pre1 @ summary_lines ?t p50 p90 p99 p999 (fst (last ?bs))"
      "stdout w2 = stdout w @ pre2 @ summary_lines ?t p50 p90 p99 p999 (fst (last ?bs))"
    using 1 2 by (simp_all add: run_def w1_def w2_def)
  then show ?thesis by blast
qed

lemma merge_main_order_independent_witness:
  "\<exists>w1 w2 pre1 pre2 tail p50 p90 p99 p999 mx.
    run (merge_main [] [''c0.csv'', ''c1.csv'']) sample_world = (0, w1) \<and>
    run (merge_main [] [''c1.csv'', ''c0.csv'']) sample_world = (0, w2) \<and>
    stdout w1 = stdout sample_world @ pre1 @ tail \<and> stdout w2 = stdout sample_world @ pre2 @ tail \<and>
    tail = summary_lines (total_count (concat [[(700, 3), (900, 1)], [(5000, 2)]])) p50 p90 p99 p999 mx"
  by (rule merge_main_order_independent[OF _ _ sample_loaded]) (simp_all add: counts_ok_def total_count_def)

text \<open>C27: on every sorted histogram with fewer than \<open>2^46\<close> samples the four reported percentiles
  exist, grow with the percentage and never pass the greatest recorded value, so the fallback
  behind the loop of \<open>percentile\<close> is never taken.\<close>

theorem percentiles_monotone:
  assumes "sorted (map fst bs)" "0 < total_count bs" "total_count bs < 2 ^ 46"
  shows "\<exists>p50 p90 p99 p999. percentile bs (total_count bs) (PyInt 50) = Inr p50 \<and>
    percentile bs (total_count bs) (PyInt 90) = Inr p90 \<and>
    percentile bs (total_count bs) (PyInt 99) = Inr p99 \<and>
    percentile bs (total_count bs) (PyFloat pct_999) = Inr p999 \<and>
    p50 \<le> p90 \<and> p90 \<le> p99 \<and> p99 \<le> p999 \<and> p999 \<le> fst (last bs)"
  by (rule percentiles_ordered[OF assms])

lemma percentiles_monotone_witness:
  "\<exists>p50 p90 p99 p999. percentile [(700, 3), (900, 1)] 4 (PyInt 50) = Inr p50 \<and>
    percentile [(700, 3), (900, 1)] 4 (PyInt 90) = Inr p90 \<and>
    percentile [(700, 3), (900, 1)] 4 (PyInt 99) = Inr p99 \<and>
    percentile [(700, 3), (900, 1)] 4 (PyFloat pct_999) = Inr p999 \<and>
    p50 \<le> p90 \<and> p90 \<le> p99 \<and> p99 \<le> p999 \<and> p999 \<le> 900"
  using percentiles_monotone[of "[(700, 3), (900, 1)]"] by (simp add: total_count_def)

text \<open>C26: the rank of p99.9, which is computed in binary floating point. Below \<open>2^40\<close> samples a
  count that is accepted has reached 99.9 per cent of the samples, and a count that has reached
  it is accepted, except that when the number of samples is a multiple of 1000 one sample more
  than the exact rank may be demanded.\<close>

theorem p999_rank_bounds:
  assumes "2 \<le> t" "t < 2 ^ 40"
  shows "\<exists>x. pct_target t (PyFloat pct_999) = Inr x \<and>
    (\<forall>n. (x \<le> of_int n \<longrightarrow> 999 * t \<le> 1000 * n) \<and>
         (999 * t + (if 1000 dvd t then 1 else 0) \<le> 1000 * n \<longrightarrow> x \<le> of_int n))"
  by (rule target_999_rank[OF assms])

lemma p999_rank_bounds_witness:
  "\<exists>x. pct_target 1500 (PyFloat pct_999) = Inr x \<and>
    (\<forall>n. (x \<le> of_int n \<longrightarrow> 999 * 1500 \<le> 1000 * n) \<and>
         (999 * 1500 + (if 1000 dvd (1500::int) then 1 else 0) \<le> 1000 * n \<longrightarrow> x \<le> of_int n))"
  by (rule p999_rank_bounds) simp_all

text \<open>The exception is real. With 41000 samples, 40959 of them at 1 (exactly 99.9 per cent)
  and 41 at 1000000, the lowest value that 99.9 per cent of the samples reach is 1, and
  \<open>percentile\<close> returns 1000000: the target is computed as 40959.00000000001.\<close>

lemma p999_off_by_one:
  "is_quantile 999 1000 [(1, 40959), (1000000, 41)] 1 \<and>
   percentile [(1, 40959), (1000000, 41)] 41000 (PyFloat pct_999) = Inr 1000000"
proof
  show "is_quantile 999 1000 [(1, 40959), (1000000, 41)] 1"
    by (simp add: is_quantile_def cum_def total_count_def)
  show "percentile [(1, 40959), (1000000, 41)] 41000 (PyFloat pct_999) = Inr 1000000"
    by code_simp
qed

text \<open>C29: the file format round-trips: loading what the load generator's format writes for a list
  of buckets gives back exactly these buckets, header and line ends stripped.\<close>

theorem load_roundtrip: "loaded (w\<lparr>files := (files w)(path \<mapsto> hdr_file bs)\<rparr>) path = Inr bs"
  by (simp add: loaded_def load_hdr_file)

text \<open>A file that is missing or malformed ends the loop with an ordinary exception, if not an
  earlier one does.\<close>

lemma ordinary_loaded [ordinary]: "ordinary (loaded w path)"
proof -
  have "ordinary (load_line l)" for l
    by (auto simp: load_line_def Let_def split: list.split intro!: ordinary)
  then show ?thesis by (auto simp: loaded_def load_lines_def split: option.split intro!: ordinary)
qed

lemma ordinary_percentile [ordinary]: "bs \<noteq> [] \<or> tot = 0 \<Longrightarrow> ordinary (percentile bs tot pct)"
  by (auto simp: percentile_def pct_target_def split: option.split intro!: ordinary)

lemma merge_file_cases:
  "(\<exists>e. merge_file merged path w = (Inl e, w) \<and> ordinary_error e) \<or>
   (\<exists>raw. loaded w path = Inr raw) \<and> (\<exists>x s. merge_file merged path w = (Inr x, w\<lparr>stdout := s\<rparr>))"
proof (cases "loaded w path")
  case (Inl e)
  then show ?thesis using ordinary_loaded[of w path] by (simp add: merge_file_def bindI_def load_eq ordinary_def)
next
  case (Inr raw)
  let ?row = "file_row (last (split_on (CHR ''/'') path)) (fst (summarise raw)) (snd (summarise raw))"
  have "fst (summarise raw) \<noteq> [] \<or> snd (summarise raw) = 0" by (auto simp: summarise_def Let_def)
  then have "ordinary ?row" unfolding file_row_def by (intro ordinary)
  then show ?thesis using Inr
    by (cases ?row) (auto simp: merge_file_def bindI_def load_eq case_prod_unfold Let_def ordinary_def
        print_res_def liftI_def printI_def returnI_def)
qed

lemma merge_files_fail:
  assumes "\<exists>path \<in> set paths. isl (loaded w path)"
  shows "\<exists>e w'. forI merge_file merged paths w = (Inl e, w') \<and> ordinary_error e"
  using assms
proof (induction paths arbitrary: merged w)
  case (Cons path paths)
  from merge_file_cases[of merged path w] show ?case
  proof (elim disjE exE conjE)
    fix raw x s assume a: "loaded w path = Inr raw" "merge_file merged path w = (Inr x, w\<lparr>stdout := s\<rparr>)"
    then have "\<exists>path \<in> set paths. isl (loaded (w\<lparr>stdout := s\<rparr>) path)" using Cons.prems by auto
    then show ?thesis using Cons.IH a(2) by (simp add: bindI_def)
  qed (simp add: bindI_def)
qed simp

text \<open>The samples of the files that load.\<close>

definition samples :: "world \<Rightarrow> string list \<Rightarrow> (int \<times> int) list" where
  "samples w paths = concat (map (\<lambda>path. case loaded w path of Inl e \<Rightarrow> [] | Inr raw \<Rightarrow> raw) paths)"

lemma samples_loaded:
  "\<not> (\<exists>path \<in> set paths. isl (loaded w path)) \<Longrightarrow> \<exists>raws. mapE (loaded w) paths = Inr raws \<and> samples w paths = concat raws \<and>
    (\<forall>raw \<in> set raws. \<exists>path \<in> set paths. loaded w path = Inr raw)"
proof (induction paths)
  case (Cons path paths)
  then obtain raw raws where "loaded w path = Inr raw" "mapE (loaded w) paths = Inr raws" "samples w paths = concat raws"
      "\<forall>raw \<in> set raws. \<exists>path \<in> set paths. loaded w path = Inr raw"
    by (metis isl_def list.set_intros old.sum.exhaust)
  then show ?case by (intro exI[of _ "raw # raws"]) (auto simp: samples_def)
qed (simp add: samples_def)

text \<open>C38: the exit status tells how a merge ended, as long as no count is negative and the
  files hold fewer than \<open>2^46\<close> samples: 2 without arguments, 1 when a file is missing or
  malformed, 1 when every file loads and none holds a sample, 0 in every other case. So a
  status of 0 is never a report on part of the files.\<close>

theorem merge_main_status:
  assumes ok: "counts_ok (samples w paths)" and t: "total_count (samples w paths) < 2 ^ 46"
  shows "fst (run (merge_main doc paths) w) =
    (if paths = [] then 2
     else if \<exists>path \<in> set paths. isl (loaded w path) then 1
     else if total_count (samples w paths) = 0 then 1 else 0)"
proof (cases "paths = []")
  case True
  then show ?thesis by (simp add: merge_main_def run_def bindI_def eprintI_def returnI_def)
next
  case ne: False
  show ?thesis
  proof (cases "\<exists>path \<in> set paths. isl (loaded w path)")
    case True
    define h where "h = ljust 44 ''file'' @ rjust 12 ''count'' @ rjust 9 ''p50'' @ rjust 10 ''p99''"
    from True have "\<exists>path \<in> set paths. isl (loaded (w\<lparr>stdout := stdout w @ h @ [CHR 0x0A]\<rparr>) path)" by simp
    from merge_files_fail[OF this, of "[]"] obtain e w' where
      e: "forI merge_file [] paths (w\<lparr>stdout := stdout w @ h @ [CHR 0x0A]\<rparr>) = (Inl e, w')" "ordinary_error e" by blast
    have "merge_main doc paths w = (Inl e, w')"
      unfolding merge_main_def h_def[symmetric] using ne e(1) by (simp add: bindI_print bindI_def[of "forI _ _ _"])
    then show ?thesis using ne True e(2) by (cases e) (simp_all add: run_def)
  next
    case no: False
    from samples_loaded[OF this] obtain raws where
      r: "mapE (loaded w) paths = Inr raws" "samples w paths = concat raws" by blast
    have ok': "\<forall>raw \<in> set raws. counts_ok raw" using ok by (auto simp: r counts_ok_def list_all_iff)
    show ?thesis
    proof (cases "total_count (samples w paths) = 0")
      case True
      then show ?thesis using merge_main_returns[OF ne r(1) ok', of doc] t ne no
        by (auto simp: run_def case_prod_unfold Let_def summarise_total r)
    next
      case nz: False
      then have pos: "0 < total_count (concat raws)" using total_nonneg[OF ok] by (simp add: r)
      obtain pre p50 p90 p99 p999 mx where "merge_main doc paths w = (Inr 0, w\<lparr>stdout := stdout w @ pre @
          summary_lines (total_count (concat raws)) p50 p90 p99 p999 mx\<rparr>)"
        using summarise_percentiles[OF pos t[unfolded r]]
          merge_main_tail[OF ne r(1) ok' pos t[unfolded r] summarise_pair] by metis
      then show ?thesis using nz no ne by (simp add: run_def)
    qed
  qed
qed

theorem merge_main_status_witness:
  "fst (run (merge_main [] [''c0.csv'', ''c1.csv'']) sample_world) = 0 \<and>
   fst (run (merge_main [] [''c0.csv'', ''c2.csv'']) sample_world) = 1 \<and>
   fst (run (merge_main [] []) sample_world) = 2"
proof -
  have l: "loaded sample_world ''c0.csv'' = Inr [(700, 3), (900, 1)]" "loaded sample_world ''c1.csv'' = Inr [(5000, 2)]"
      "loaded sample_world ''c2.csv'' = Inl (FileNotFoundError ''c2.csv'')"
    by (simp_all add: loaded_def sample_world_def load_hdr_file)
  show ?thesis
    using merge_main_status[of sample_world "[''c0.csv'', ''c1.csv'']" "[]"]
      merge_main_status[of sample_world "[''c0.csv'', ''c2.csv'']" "[]"] merge_main_status[of sample_world "[]" "[]"]
    by (simp add: samples_def l counts_ok_def total_count_def)
qed

end
