(* ===== verification/Svg.thy ===== *)
theory Svg
  imports Py_Float
begin

text \<open>
  The SVG documents the chart scripts build. The scripts append one f-string per line to a
  list \<open>o\<close> and write \<open>"\n".join(o)\<close>. Here a line is an element with its attributes in the
  order of the f-string, the value of an attribute being kept as the number the script
  interpolates and the format it uses; \<open>render\<close> gives back the text of the f-string. So the
  theorems on a chart can speak about the coordinates before they are printed.

  \<open>well_formed\<close> says what a reader of the file needs: one root element, elements that nest,
  names that are names, no attribute twice, and no interpolated text that ends an attribute
  or opens a tag. \<open>Svg_Text\<close> relates it to the text of the file.
\<close>

section \<open>Elements and their text\<close>

text \<open>\<open>AFix n x\<close> is \<open>{x:.nf}\<close>, \<open>ANum\<close> a number that is an \<open>int\<close> or a \<open>float\<close>
  depending on the path taken, and \<open>AQuoted\<close> the one attribute written in single quotes.\<close>

datatype aval = AStr string | AInt int | AFix nat rat | ANum pynum | AQuoted string

type_synonym attr = "string \<times> aval"

datatype svg =
    Txt string
  | Elem string "attr list" "svg list"
  | Open string "attr list"
  | Close string

fun render_val :: "aval \<Rightarrow> string" where
  "render_val (AStr s) = s"
| "render_val (AInt n) = str_of_int n"
| "render_val (AFix n x) = fmt_fixed n x"
| "render_val (ANum v) = str_of_num v"
| "render_val (AQuoted s) = s"

fun quote_of :: "aval \<Rightarrow> char" where
  "quote_of (AQuoted s) = CHR 0x27"
| "quote_of v = CHR 0x22"

definition render_attr :: "attr \<Rightarrow> string" where
  "render_attr a = '' '' @ fst a @ ''='' @ [quote_of (snd a)] @ render_val (snd a) @ [quote_of (snd a)]"

definition render_tag :: "string \<Rightarrow> attr list \<Rightarrow> string" where
  "render_tag tag as = ''<'' @ tag @ concat (map render_attr as)"

fun render :: "svg \<Rightarrow> string" where
  "render (Txt s) = s"
| "render (Elem tag as []) = render_tag tag as @ ''/>''"
| "render (Elem tag as (c # cs)) =
     render_tag tag as @ ''>'' @ concat (map render (c # cs)) @ ''</'' @ tag @ ''>''"
| "render (Open tag as) = render_tag tag as @ ''>''"
| "render (Close tag) = ''</'' @ tag @ ''>''"

text \<open>\<open>"\n".join(o)\<close>.\<close>

definition svg_text :: "svg list \<Rightarrow> string" where
  "svg_text o' = join [CHR 0x0A] (map render o')"

text \<open>\<open><text ...>s</text>\<close>.\<close>

abbreviation text_elem :: "attr list \<Rightarrow> string \<Rightarrow> svg" where
  "text_elem as s \<equiv> Elem ''text'' as [Txt s]"

section \<open>Well-formed documents\<close>

definition safe_text :: "string \<Rightarrow> bool" where
  "safe_text s \<longleftrightarrow> CHR ''<'' \<notin> set s \<and> CHR ''&'' \<notin> set s"

definition safe_attr :: "attr \<Rightarrow> bool" where
  "safe_attr a \<longleftrightarrow> safe_text (render_val (snd a)) \<and> quote_of (snd a) \<notin> set (render_val (snd a))"

text \<open>The names of tags and attributes: letters, digits and hyphens, a letter first.\<close>

definition name_start :: "char \<Rightarrow> bool" where
  [simp]: "name_start c \<longleftrightarrow> 65 \<le> (of_char c :: nat) \<and> (of_char c :: nat) \<le> 90 \<or> 97 \<le> (of_char c :: nat) \<and> (of_char c :: nat) \<le> 122"

definition name_char :: "char \<Rightarrow> bool" where
  [simp]: "name_char c \<longleftrightarrow> name_start c \<or> 48 \<le> (of_char c :: nat) \<and> (of_char c :: nat) \<le> 57 \<or> c = CHR ''-''"

definition name_ok :: "string \<Rightarrow> bool" where
  [simp]: "name_ok s \<longleftrightarrow> s \<noteq> [] \<and> name_start (hd s) \<and> list_all name_char s"

definition safe_tag :: "string \<Rightarrow> attr list \<Rightarrow> bool" where
  [simp]: "safe_tag tag as \<longleftrightarrow> name_ok tag \<and> list_all (\<lambda>a. name_ok (fst a)) as \<and> distinct (map fst as) \<and> list_all safe_attr as"

fun safe_elem :: "svg \<Rightarrow> bool" where
  "safe_elem (Txt s) = safe_text s"
| "safe_elem (Elem tag as cs) = (safe_tag tag as \<and> list_all safe_elem cs)"
| "safe_elem (Open tag as) = safe_tag tag as"
| "safe_elem (Close tag) = name_ok tag"

text \<open>The open elements after a line, innermost first; \<open>None\<close> when a closing tag does not
  match. \<open>Open\<close> and \<open>Close\<close> stand on lines of their own, never below an \<open>Elem\<close>.\<close>

fun no_open :: "svg \<Rightarrow> bool" where
  "no_open (Txt s) = True"
| "no_open (Elem tag as cs) = list_all no_open cs"
| "no_open (Open tag as) = False"
| "no_open (Close tag) = False"

fun nest :: "string list \<Rightarrow> svg list \<Rightarrow> string list option" where
  "nest st [] = Some st"
| "nest st (Open tag as # o') = nest (tag # st) o'"
| "nest st (Close tag # o') = (case st of [] \<Rightarrow> None | t # st' \<Rightarrow> if t = tag then nest st' o' else None)"
| "nest st (e # o') = (if no_open e then nest st o' else None)"

text \<open>A document is one element that is opened by the first line and closed by the last.\<close>

fun well_formed :: "svg list \<Rightarrow> bool" where
  "well_formed (Open tag as # o') = (safe_tag tag as \<and> o' \<noteq> [] \<and> last o' = Close tag \<and>
     list_all safe_elem (butlast o') \<and> nest [] (butlast o') = Some [])"
| "well_formed o' = False"

text \<open>A part of a document that leaves the nesting as it finds it.\<close>

definition well_nested :: "svg list \<Rightarrow> bool" where
  "well_nested o' \<longleftrightarrow> list_all safe_elem o' \<and> (\<forall>st. nest st o' = Some st)"

lemma nest_append: "nest st (xs @ ys) = (case nest st xs of None \<Rightarrow> None | Some st' \<Rightarrow> nest st' ys)"
  by (induction st xs rule: nest.induct) (auto split: list.splits)

lemma well_nested_Nil [simp]: "well_nested []"
  by (simp add: well_nested_def)

lemma well_nested_append [simp]: "well_nested xs \<Longrightarrow> well_nested ys \<Longrightarrow> well_nested (xs @ ys)"
  by (simp add: well_nested_def nest_append)

lemma well_nested_Elem [simp]:
  "well_nested (Elem tag as cs # o') \<longleftrightarrow> safe_tag tag as \<and> list_all safe_elem cs \<and> list_all no_open cs \<and> well_nested o'"
  by (auto simp: well_nested_def)

lemma well_nested_bracket:
  assumes "safe_tag tag as" "well_nested o'" "well_nested o''"
  shows "well_nested (Open tag as # o' @ Close tag # o'')"
  using assms by (simp add: well_nested_def nest_append)

lemma well_nested_concat: "(\<And>x. x \<in> set xss \<Longrightarrow> well_nested x) \<Longrightarrow> well_nested (concat xss)"
  by (induction xss) auto

lemma well_nested_well_formed:
  "safe_tag tag as \<Longrightarrow> well_nested o' \<Longrightarrow> well_formed (Open tag as # o' @ [Close tag])"
  by (simp add: well_nested_def)

lemma collectE_well_nested:
  assumes "collectE f xs = Inr o'" "\<And>x ys. x \<in> set xs \<Longrightarrow> f x = Inr ys \<Longrightarrow> well_nested ys"
  shows "well_nested o'"
  using collectE_parts[OF assms(1)] assms(2) well_nested_concat by metis

section \<open>Printed numbers are safe\<close>

text \<open>The characters of a printed number.\<close>

definition num_char :: "char \<Rightarrow> bool" where
  "num_char c \<longleftrightarrow> is_digit c \<or> c = CHR ''-'' \<or> c = CHR ''.''"

lemma num_char_safe: "list_all num_char s \<Longrightarrow> safe_text s \<and> CHR 0x22 \<notin> set s \<and> CHR 0x27 \<notin> set s"
  by (auto simp: list_all_iff num_char_def is_digit_def safe_text_def)

lemma num_char_str_of_nat: "list_all num_char (str_of_nat n)"
  by (auto simp: list_all_iff num_char_def dest: str_of_nat_digits)

lemma num_char_str_of_int: "list_all num_char (str_of_int n)"
  by (auto simp: list_all_iff num_char_def dest: str_of_int_chars)

lemma num_char_fmt_fixed: "list_all num_char (fmt_fixed n x)"
  by (auto simp: fmt_fixed_def fixed_digits_def zfill_def num_char_str_of_nat list_all_append)
     (auto simp: num_char_def is_digit_def list_all_iff)

lemma num_char_str_of_num: "list_all num_char (str_of_num v)"
  by (cases v) (auto simp: num_char_str_of_int repr_float_def num_char_fmt_fixed)

lemma safe_number [simp]:
  "safe_attr (k, AInt n)" "safe_attr (k, AFix d x)" "safe_attr (k, ANum v)"
  using num_char_str_of_int num_char_fmt_fixed num_char_str_of_num num_char_safe
  by (auto simp: safe_attr_def)

lemma safe_string [simp]: "safe_attr (k, AStr s) \<longleftrightarrow> safe_text s \<and> CHR 0x22 \<notin> set s"
  by (simp add: safe_attr_def)

lemma safe_text_append [simp]: "safe_text (s @ t) \<longleftrightarrow> safe_text s \<and> safe_text t"
  by (auto simp: safe_text_def)

lemma safe_text_Cons [simp]: "safe_text (c # s) \<longleftrightarrow> c \<noteq> CHR ''<'' \<and> c \<noteq> CHR ''&'' \<and> safe_text s"
  by (auto simp: safe_text_def)

lemma safe_text_Nil [simp]: "safe_text []"
  by (simp add: safe_text_def)

lemma safe_text_int [simp]: "safe_text (str_of_int n)"
  using num_char_str_of_int num_char_safe by blast

lemma no_quote_int [simp]: "CHR 0x22 \<notin> set (str_of_int n)"
  using num_char_str_of_int num_char_safe by blast

lemma safe_text_fixed [simp]: "safe_text (fmt_fixed d x)"
  using num_char_fmt_fixed num_char_safe by blast

lemma no_quote_fixed [simp]: "CHR 0x22 \<notin> set (fmt_fixed d x)"
  using num_char_fmt_fixed num_char_safe by blast

lemma safe_text_commas [simp]: "safe_text (commas n)"
proof -
  have "set (group3 s) \<subseteq> insert (CHR '','') (set s)" for s by (induction s rule: group3.induct) auto
  then have "set (commas n) \<subseteq> insert (CHR ''-'') (insert (CHR '','') (set (str_of_nat (nat \<bar>n\<bar>))))"
    by (force simp: commas_def)
  moreover have "safe_text (str_of_nat (nat \<bar>n\<bar>))"
    using num_char_str_of_nat num_char_safe by blast
  ultimately show ?thesis by (auto simp: safe_text_def)
qed

lemma join_chars: "set (join sep ss) \<subseteq> set sep \<union> \<Union> (set ` set ss)"
  by (induction sep ss rule: join.induct) auto

lemma safe_join: "safe_text sep \<Longrightarrow> (\<And>s. s \<in> set ss \<Longrightarrow> safe_text s) \<Longrightarrow> safe_text (join sep ss)"
  using join_chars[of sep ss] unfolding safe_text_def by blast

section \<open>Colours and fixed texts\<close>

text \<open>The names the three chart scripts share for their colours.\<close>

definition SURF :: string where "SURF = ''#fcfcfb''"
definition INK :: string where "INK = ''#0b0b0b''"
definition INK2 :: string where "INK2 = ''#52514e''"
definition MUTED :: string where "MUTED = ''#898781''"
definition GRID :: string where "GRID = ''#e1e0d9''"
definition AXIS :: string where "AXIS = ''#c3c2b7''"
definition BAND :: string where "BAND = ''#f0efec''"
definition C1 :: string where "C1 = ''#2a78d6''"
definition C2 :: string where "C2 = ''#eb6834''"
definition C3 :: string where "C3 = ''#1baf7a''"
definition C4 :: string where "C4 = ''#b5179e''"
definition C5 :: string where "C5 = ''#6d28d9''"
definition C6 :: string where "C6 = ''#991b1b''"

lemmas palette_defs = SURF_def INK_def INK2_def MUTED_def GRID_def AXIS_def BAND_def
  C1_def C2_def C3_def C4_def C5_def C6_def

definition FONT :: string where
  "FONT = ''system-ui,-apple-system,'' @ [CHR 0x22] @ ''Segoe UI'' @ [CHR 0x22] @ '',sans-serif''"

text \<open>The micro sign and the em dash, in UTF-8.\<close>

definition micro :: string where "micro = [CHR 0xC2, CHR 0xB5]"
definition em_dash :: string where "em_dash = [CHR 0xE2, CHR 0x80, CHR 0x94]"

lemma safe_palette [simp]:
  "safe_text SURF" "CHR 0x22 \<notin> set SURF"
  "safe_text INK" "CHR 0x22 \<notin> set INK"
  "safe_text INK2" "CHR 0x22 \<notin> set INK2"
  "safe_text MUTED" "CHR 0x22 \<notin> set MUTED"
  "safe_text GRID" "CHR 0x22 \<notin> set GRID"
  "safe_text AXIS" "CHR 0x22 \<notin> set AXIS"
  "safe_text BAND" "CHR 0x22 \<notin> set BAND"
  "safe_text C1" "CHR 0x22 \<notin> set C1"
  "safe_text C2" "CHR 0x22 \<notin> set C2"
  "safe_text C3" "CHR 0x22 \<notin> set C3"
  "safe_text C4" "CHR 0x22 \<notin> set C4"
  "safe_text C5" "CHR 0x22 \<notin> set C5"
  "safe_text C6" "CHR 0x22 \<notin> set C6"
  by (simp_all add: palette_defs)

lemma safe_font [simp]: "safe_attr (k, AQuoted FONT)"
  by (simp add: safe_attr_def FONT_def)

lemma no_quote_symbols [simp]: "CHR 0x22 \<notin> set micro" "CHR 0x22 \<notin> set em_dash"
  by (simp_all add: micro_def em_dash_def)

lemma safe_symbols [simp]: "safe_text micro" "safe_text em_dash"
  by (simp_all add: micro_def em_dash_def)

end
