(* ===== verification/Svg_Text.thy ===== *)
theory Svg_Text
  imports Svg
begin

text \<open>
  What a reader of a written chart sees. \<open>xml_ok\<close> is a small XML reader: it reads the text
  character by character, keeps the names of the open elements on a stack and accepts when
  the text is one element whose tags match, whose attributes are quoted and given once, and
  in whose text no tag or entity starts by accident. \<open>xml_ok_svg_text\<close> shows that the text of
  a well-formed document is accepted.
\<close>

section \<open>A reader\<close>

text \<open>Where the reader is: in text; after \<open><\<close>; in the name of a tag; between the attributes of
  a tag; in the name of an attribute; after its \<open>=\<close>; in its value up to the quote; after the
  \<open>/\<close> of an empty element; in the name of a closing tag; after the root element. The string is
  the tag, the list the attributes seen so far.\<close>

datatype xml_mode =
    InText
  | AfterLt
  | InName string
  | InTag string "string list"
  | InAttr string "string list" string
  | AfterEq string "string list"
  | InValue string "string list" char
  | AfterSlash string
  | InClose string
  | Done

type_synonym xml_state = "xml_mode \<times> string list"

definition xml_space :: "char \<Rightarrow> bool" where
  "xml_space c \<longleftrightarrow> c = CHR '' '' \<or> c = CHR 0x0A"

text \<open>The end of a start tag, and of an element.\<close>

definition after_tag :: "string \<Rightarrow> string list \<Rightarrow> char \<Rightarrow> string list \<Rightarrow> xml_state option" where
  "after_tag t as c st = (if c = CHR ''>'' then Some (InText, t # st)
     else if c = CHR ''/'' then Some (AfterSlash t, st)
     else if c = CHR '' '' then Some (InAttr t as [], st) else None)"

definition after_element :: "string list \<Rightarrow> xml_state" where
  "after_element st = (if st = [] then (Done, []) else (InText, st))"

fun xml_char :: "xml_state \<Rightarrow> char \<Rightarrow> xml_state option" where
  "xml_char (InText, st) c = (if c = CHR ''<'' then Some (AfterLt, st)
     else if st = [] \<or> c = CHR ''&'' then None else Some (InText, st))"
| "xml_char (AfterLt, st) c = (if c = CHR ''/'' then Some (InClose [], st)
     else if name_start c then Some (InName [c], st) else None)"
| "xml_char (InName t, st) c = (if name_char c then Some (InName (t @ [c]), st) else after_tag t [] c st)"
| "xml_char (InTag t as, st) c = after_tag t as c st"
| "xml_char (InAttr t as a, st) c = (if (if a = [] then name_start c else name_char c) then Some (InAttr t as (a @ [c]), st)
     else if c = CHR ''='' \<and> a \<noteq> [] \<and> a \<notin> set as then Some (AfterEq t (as @ [a]), st) else None)"
| "xml_char (AfterEq t as, st) c = (if c = CHR 0x22 \<or> c = CHR 0x27 then Some (InValue t as c, st) else None)"
| "xml_char (InValue t as q, st) c = (if c = q then Some (InTag t as, st)
     else if c = CHR ''<'' \<or> c = CHR ''&'' then None else Some (InValue t as q, st))"
| "xml_char (AfterSlash t, st) c = (if c = CHR ''>'' then Some (after_element st) else None)"
| "xml_char (InClose t, st) c = (if (if t = [] then name_start c else name_char c) then Some (InClose (t @ [c]), st)
     else if c = CHR ''>'' \<and> st \<noteq> [] \<and> hd st = t then Some (after_element (tl st)) else None)"
| "xml_char (Done, st) c = (if xml_space c then Some (Done, st) else None)"

fun xml_read :: "xml_state \<Rightarrow> string \<Rightarrow> xml_state option" where
  "xml_read q [] = Some q"
| "xml_read q (c # s) = (case xml_char q c of None \<Rightarrow> None | Some q' \<Rightarrow> xml_read q' s)"

definition xml_ok :: "string \<Rightarrow> bool" where
  "xml_ok s \<longleftrightarrow> xml_read (InText, []) s = Some (Done, [])"

section \<open>Reading what was printed\<close>

lemma xml_read_append: "xml_read q (s @ t) = (case xml_read q s of None \<Rightarrow> None | Some q' \<Rightarrow> xml_read q' t)"
  by (induction s arbitrary: q) (auto split: option.splits)

lemma read_text: "safe_text s \<Longrightarrow> st \<noteq> [] \<Longrightarrow> xml_read (InText, st) s = Some (InText, st)"
  by (induction s) auto

lemma read_name: "list_all name_char s \<Longrightarrow> xml_read (InName t, st) s = Some (InName (t @ s), st)"
  by (induction s arbitrary: t) auto

lemma read_close: "name_ok s \<Longrightarrow> xml_read (InClose [], st) s = Some (InClose s, st)"
proof -
  have rest: "list_all name_char u \<Longrightarrow> t \<noteq> [] \<Longrightarrow> xml_read (InClose t, st) u = Some (InClose (t @ u), st)" for t u
    by (induction u arbitrary: t) (auto simp del: name_char_def)
  show "name_ok s \<Longrightarrow> ?thesis" using rest[of "tl s" "[hd s]"] by (cases s) (auto simp del: name_char_def name_start_def)
qed

lemma read_attr_name: "name_ok s \<Longrightarrow> xml_read (InAttr t as [], st) s = Some (InAttr t as s, st)"
proof -
  have rest: "list_all name_char u \<Longrightarrow> a \<noteq> [] \<Longrightarrow> xml_read (InAttr t as a, st) u = Some (InAttr t as (a @ u), st)" for a u
    by (induction u arbitrary: a) (auto simp del: name_char_def)
  show "name_ok s \<Longrightarrow> ?thesis" using rest[of "tl s" "[hd s]"] by (cases s) (auto simp del: name_char_def name_start_def)
qed

lemma read_value: "safe_text s \<Longrightarrow> q \<notin> set s \<Longrightarrow> xml_read (InValue t as q, st) s = Some (InValue t as q, st)"
  by (induction s) auto

lemma quote_of_cases: "quote_of v = CHR 0x22 \<or> quote_of v = CHR 0x27"
  by (cases v) auto

text \<open>One attribute, the list of them, and a start tag.\<close>

lemma read_attr:
  assumes "safe_attr a" "name_ok (fst a)" "fst a \<notin> set as"
  shows "xml_read (InTag t as, st) (render_attr a) = Some (InTag t (as @ [fst a]), st)"
proof -
  let ?q = "quote_of (snd a)"
  have v: "safe_text (render_val (snd a))" "?q \<notin> set (render_val (snd a))" using assms(1) by (auto simp: safe_attr_def)
  have n: "fst a \<noteq> []" using assms(2) by simp
  show ?thesis using quote_of_cases[of "snd a"] assms(3) n
    by (auto simp: render_attr_def xml_read_append after_tag_def read_attr_name[OF assms(2)] read_value[OF v])
qed

lemma read_attrs:
  assumes "list_all safe_attr as" "list_all (\<lambda>a. name_ok (fst a)) as" "distinct (map fst as)" "set (map fst as) \<inter> set bs = {}"
  shows "xml_read (InTag t bs, st) (concat (map render_attr as)) = Some (InTag t (bs @ map fst as), st)"
  using assms
proof (induction as arbitrary: bs)
  case (Cons a as)
  have "xml_read (InTag t (bs @ [fst a]), st) (concat (map render_attr as)) = Some (InTag t ((bs @ [fst a]) @ map fst as), st)"
    by (rule Cons.IH) (use Cons.prems in auto)
  then show ?case using Cons.prems by (simp add: xml_read_append read_attr)
qed simp

lemma after_name: "c \<in> {CHR ''>'', CHR ''/'', CHR '' ''} \<Longrightarrow> xml_char (InName t, st) c = xml_char (InTag t [], st) c"
  by auto

lemma read_tag:
  assumes "safe_tag tag as" "c \<in> {CHR ''>'', CHR ''/''}"
  shows "xml_read (InText, st) (render_tag tag as @ c # s) = xml_read (InTag tag (map fst as), st) (c # s)"
proof -
  obtain d tag' where tag: "tag = d # tag'" "name_start d" "list_all name_char tag'" using assms(1) by (cases tag) auto
  then have "d \<noteq> CHR ''/''" by auto
  have "xml_read (InText, st) (''<'' @ tag) = Some (InName tag, st)"
    using tag \<open>d \<noteq> CHR ''/''\<close> read_name[of tag' "[d]" st] by (simp del: name_start_def)
  then have "xml_read (InText, st) (render_tag tag as @ c # s) = xml_read (InName tag, st) (concat (map render_attr as) @ c # s)"
    unfolding render_tag_def append_assoc[symmetric] by (subst append_assoc, subst xml_read_append) simp
  also have "\<dots> = xml_read (InTag tag [], st) (concat (map render_attr as) @ c # s)"
  proof (cases as)
    case Nil
    have "xml_char (InName tag, st) c = xml_char (InTag tag [], st) c" using assms(2) by (intro after_name) auto
    then show ?thesis using Nil by (simp del: xml_char.simps)
  next
    case (Cons a as')
    then obtain r where "concat (map render_attr as) @ c # s = CHR '' '' # r" by (simp add: render_attr_def)
    then show ?thesis using after_name[of "CHR '' ''" tag st] by (simp del: xml_char.simps)
  qed
  also have "\<dots> = xml_read (InTag tag (map fst as), st) (c # s)"
    using read_attrs[of as "[]" tag st] assms(1) by (simp add: xml_read_append)
  finally show ?thesis .
qed

lemma read_start_tag:
  assumes "safe_tag tag as"
  shows "xml_read (InText, st) (render_tag tag as @ ''>'' @ s) = xml_read (InText, tag # st) s"
  using read_tag[OF assms, of "CHR ''>''" st s] by (simp add: after_tag_def del: safe_tag_def)

lemma read_empty_tag:
  assumes "safe_tag tag as"
  shows "xml_read (InText, st) (render_tag tag as @ ''/>'') = Some (after_element st)"
  using read_tag[OF assms, of "CHR ''/''" st "''>''"] by (simp add: after_tag_def del: safe_tag_def)

lemma read_close_tag:
  "name_ok tag \<Longrightarrow> xml_read (InText, tag # st) (''</'' @ tag @ ''>'') = Some (after_element st)"
  by (auto simp: xml_read_append read_close)

lemma read_concat:
  assumes "\<And>s. s \<in> set ss \<Longrightarrow> xml_read q s = Some q"
  shows "xml_read q (concat ss) = Some q"
  using assms by (induction ss) (auto simp: xml_read_append)

text \<open>An element leaves the stack as it was.\<close>

lemma read_element:
  "safe_elem e \<Longrightarrow> no_open e \<Longrightarrow> st \<noteq> [] \<Longrightarrow> xml_read (InText, st) (render e) = Some (InText, st)"
proof (induction e arbitrary: st rule: render.induct)
  case (1 s)
  then show ?case by (simp add: read_text)
next
  case (2 tag as)
  have "safe_tag tag as" using "2.prems"(1) by (simp only: safe_elem.simps)
  then show ?case using read_empty_tag[of tag as st] "2.prems"(3) by (simp add: after_element_def del: safe_tag_def)
next
  case (3 tag as c cs)
  have tag: "safe_tag tag as" "name_ok tag" using "3.prems"(1) by (simp_all only: safe_elem.simps safe_tag_def)
  have cs: "list_all safe_elem (c # cs)" "list_all no_open (c # cs)"
    using "3.prems"(1,2) by (simp_all only: safe_elem.simps no_open.simps)
  have "xml_read (InText, tag # st) s = Some (InText, tag # st)" if s: "s \<in> set (map render (c # cs))" for s
  proof -
    obtain e where e: "e \<in> set (c # cs)" "s = render e" using s by (metis in_set_conv_nth length_map nth_map nth_mem)
    have "safe_elem e" "no_open e" using cs e(1) by (metis list_all_iff)+
    then show ?thesis using "3.IH"[OF e(1)] e(2) by (metis list.distinct(1))
  qed
  then have "xml_read (InText, tag # st) (concat (map render (c # cs))) = Some (InText, tag # st)" by (rule read_concat)
  then have "xml_read (InText, tag # st) (concat (map render (c # cs)) @ ''</'' @ tag @ ''>'') = Some (after_element st)"
    by (simp only: xml_read_append[of _ "concat (map render (c # cs))"] option.case read_close_tag[OF tag(2)])
  then show ?case using "3.prems"(3) by (simp only: render.simps read_start_tag[OF tag(1)] after_element_def if_False)
qed auto

text \<open>The lines of a document, with the stack of \<open>nest\<close>.\<close>

lemma read_line:
  assumes "safe_elem e" "nest st [e] = Some st'" "st \<noteq> []" "st' \<noteq> []"
  shows "xml_read (InText, st) (render e) = Some (InText, st')"
proof (cases e)
  case (Open tag as)
  then show ?thesis using assms(1,2) read_start_tag[of tag as st "[]"] by (simp del: safe_tag_def)
next
  case (Close tag)
  then have "st = tag # st'" "name_ok tag" using assms(1,2) by (auto split: list.splits if_splits)
  then show ?thesis using read_close_tag[of tag st'] assms(4) by (simp add: Close after_element_def del: name_ok_def)
qed (use assms read_element[of e st] in \<open>simp_all split: if_splits del: safe_elem.simps render.simps\<close>)

lemma nest_Cons: "nest st (e # es) = (case nest st [e] of None \<Rightarrow> None | Some st' \<Rightarrow> nest st' es)"
  using nest_append[of st "[e]" es] by simp

lemma nest_base: "nest st es = Some st' \<Longrightarrow> nest (st @ base) es = Some (st' @ base)"
  by (induction st es rule: nest.induct) (auto split: list.splits if_splits)

lemma join_concat: "join sep (x # xs) = x @ concat (map (\<lambda>y. sep @ y) xs)"
  by (induction xs arbitrary: x) auto

text \<open>The lines between the first and the last, below an open root.\<close>

lemma read_lines:
  assumes "list_all safe_elem es" "nest st es = Some st'"
  shows "xml_read (InText, st @ [r]) (concat (map (\<lambda>e. CHR 0x0A # render e) es)) = Some (InText, st' @ [r])"
  using assms
proof (induction es arbitrary: st)
  case (Cons e es)
  obtain st1 where st1: "nest st [e] = Some st1" "nest st1 es = Some st'"
    using Cons.prems(2) nest_Cons[of st e es] by (auto split: option.splits)
  have "xml_read (InText, st @ [r]) (render e) = Some (InText, st1 @ [r])"
    using Cons.prems(1) nest_base[OF st1(1), of "[r]"] by (intro read_line) auto
  moreover have "xml_read (InText, st1 @ [r]) (concat (map (\<lambda>e. CHR 0x0A # render e) es)) = Some (InText, st' @ [r])"
    using Cons.prems(1) by (intro Cons.IH st1(2)) simp
  ultimately show ?case by (simp add: xml_read_append)
qed simp

lemma xml_ok_svg_text: "well_formed o' \<Longrightarrow> xml_ok (svg_text o')"
proof (induction o' rule: well_formed.induct)
  case (1 tag as o')
  have wf: "safe_tag tag as" "o' = butlast o' @ [Close tag]" "list_all safe_elem (butlast o')" "nest [] (butlast o') = Some []"
    using 1 append_butlast_last_id[of o'] by (auto simp del: safe_tag_def)
  have ok: "name_ok tag" using wf(1) by (simp only: safe_tag_def)
  let ?body = "concat (map (\<lambda>e. CHR 0x0A # render e) (butlast o'))"
  have "svg_text (Open tag as # o') = render_tag tag as @ ''>'' @ concat (map (\<lambda>e. CHR 0x0A # render e) o')"
    by (simp add: svg_text_def join_concat comp_def)
  also have "\<dots> = render_tag tag as @ ''>'' @ ?body @ CHR 0x0A # ''</'' @ tag @ ''>''"
    by (subst wf(2)) simp
  finally have "xml_read (InText, []) (svg_text (Open tag as # o')) = xml_read (InText, [tag]) (?body @ CHR 0x0A # ''</'' @ tag @ ''>'')"
    by (simp only: read_start_tag[OF wf(1)])
  also have "\<dots> = xml_read (InText, [tag]) (''</'' @ tag @ ''>'')"
    using read_lines[OF wf(3,4), of tag] by (simp add: xml_read_append[of _ ?body])
  also have "\<dots> = Some (Done, [])" using read_close_tag[OF ok, of "[]"] by (simp only: after_element_def simp_thms if_True)
  finally show ?case by (simp only: xml_ok_def)
qed auto

text \<open>The reader is not lenient: a tag that is not closed, tags that cross, an attribute without
  quotes or given twice, a second root and a bare ampersand are all refused.\<close>

lemma xml_ok_examples:
  "xml_ok ''<a><b/></a>''" "\<not> xml_ok ''<a>''" "\<not> xml_ok ''<a><b></a></b>''" "\<not> xml_ok ''<a x=1/>''"
  "\<not> xml_ok (''<a x='' @ [CHR 0x27, CHR 0x27] @ '' x='' @ [CHR 0x27, CHR 0x27] @ ''/>'')"
  "\<not> xml_ok ''<a/><b/>''" "\<not> xml_ok ''<a>x & y</a>''"
  by (simp_all add: xml_ok_def after_tag_def after_element_def xml_space_def)

end
