(* ===== verification/Chart_Geometry.thy ===== *)
theory Chart_Geometry
  imports Svg Py_Dict
begin

text \<open>
  The coordinate arithmetic of the charts, in binary64: the linear rate axis \<open>x_map\<close>
  (the lambdas \<open>xm\<close>), the logarithmic latency axis \<open>y_map\<close> (the lambdas \<open>ym\<close>), the loop
  that places the ticks of the rate axis and the test for a saturated point.

  \<open>math.log10\<close> is the C library's, whose last bits differ between platforms: it is the
  parameter \<open>lg\<close>. What the charts need of it is the locale \<open>log10_function\<close>: on the
  integers from 1 to \<open>10^9\<close> (microseconds, so up to 1000 seconds) the result is within
  \<open>2^(-40)\<close> of the logarithm. The documented error of C libraries is a few units in the last
  place, which is below \<open>2^(-48)\<close> there. The locale is interpreted on the logarithm
  rounded to 49 binary places.
\<close>

section \<open>The two axes\<close>

text \<open>\<open>L+PW*(v/xmax)\<close>.\<close>

definition x_pos :: "int \<Rightarrow> int \<Rightarrow> int \<Rightarrow> int \<Rightarrow> rat" where
  "x_pos L PW xmax v = fl (of_int L + fl (of_int PW * fl (of_int v / of_int xmax)))"

definition x_map :: "int \<Rightarrow> int \<Rightarrow> int \<Rightarrow> int \<Rightarrow> rat res" where
  "x_map L PW xmax v =
     bindE (int_truediv v xmax) (\<lambda>q. Inr (fl (of_int L + fl (of_int PW * q))))"

text \<open>\<open>math.log10(v)\<close>.\<close>

definition py_log10 :: "(rat \<Rightarrow> rat) \<Rightarrow> rat \<Rightarrow> rat res" where
  "py_log10 lg v = (if v \<le> 0 then Inl ValueError else Inr (lg v))"

text \<open>\<open>T+PH*(1-(math.log10(v)-ylo)/(yhi-ylo))\<close>.\<close>

definition y_pos :: "int \<Rightarrow> int \<Rightarrow> rat \<Rightarrow> rat \<Rightarrow> rat \<Rightarrow> rat" where
  "y_pos T PH ylo yhi l =
     fl (of_int T + fl (of_int PH * fl (1 - fl (fl (l - ylo) / fl (yhi - ylo)))))"

definition y_map :: "(rat \<Rightarrow> rat) \<Rightarrow> int \<Rightarrow> int \<Rightarrow> rat \<Rightarrow> rat \<Rightarrow> int \<Rightarrow> rat res" where
  "y_map lg T PH ylo yhi v =
     bindE (py_log10 lg (of_int v)) (\<lambda>l.
       if fl (yhi - ylo) = 0 then Inl ZeroDivisionError else Inr (y_pos T PH ylo yhi l))"

text \<open>
  The loop \<open>v=0; while v<=xmax: ...; v+=xstep\<close>, whose rounds append to the document. With a
  step that is not positive it may run forever, so \<open>x_loop\<close> is defined by its equation in the
  option monad, where \<open>None\<close> means that the loop does not return. \<open>x_ticks\<close> gives that
  outcome the name \<open>Diverged\<close>: nothing after the loop is reached then.
\<close>

partial_function (option) x_loop :: "(int \<Rightarrow> svg list res) \<Rightarrow> int \<Rightarrow> int \<Rightarrow> int \<Rightarrow> svg list res option" where
  "x_loop body xmax xstep v =
     (if v \<le> xmax
      then (case body v of
              Inl e \<Rightarrow> Some (Inl e)
            | Inr s \<Rightarrow> Option.bind (x_loop body xmax xstep (v + xstep)) (\<lambda>r. Some (bindE r (\<lambda>t. Inr (s @ t)))))
      else Some (Inr []))"

definition x_ticks :: "(int \<Rightarrow> svg list res) \<Rightarrow> int \<Rightarrow> int \<Rightarrow> int \<Rightarrow> svg list res" where
  "x_ticks body xmax xstep v = (case x_loop body xmax xstep v of None \<Rightarrow> Inl Diverged | Some r \<Rightarrow> r)"

text \<open>A point: the numeric columns of one row of a sweep.\<close>

type_synonym point = "(string, int) dict"

abbreviation pt_get :: "point \<Rightarrow> string \<Rightarrow> int res" where
  "pt_get p k \<equiv> dict_index (\<lambda>k. k) p k"

text \<open>\<open>achieved < 0.99*rate\<close>, where \<open>0.99\<close> is the double nearest to it.\<close>

definition below_99 :: "int \<Rightarrow> int \<Rightarrow> bool res" where
  "below_99 achieved rate =
     bindE (float_of_int rate) (\<lambda>r. Inr (of_int achieved < fl (fl (99 / 100) * r)))"

definition sat :: "point \<Rightarrow> bool res" where
  "sat d = bindE (pt_get d ''achieved'') (\<lambda>a. bindE (pt_get d ''rate'') (\<lambda>r. below_99 a r))"

text \<open>\<open>f"{v//1000} ms" if v>=1000 else f"{v} us"\<close>, the latter with a micro sign.\<close>

definition us_label :: "int \<Rightarrow> string" where
  "us_label v = (if 1000 \<le> v then str_of_int (v div 1000) @ '' ms'' else str_of_int v @ '' '' @ micro @ ''s'')"

section \<open>Where a point belongs\<close>

text \<open>
  The position of a point on the drawing, as a real number: rates grow linearly from the left
  edge \<open>L\<close> over the width \<open>PW\<close>; latencies grow logarithmically from the bottom \<open>T + PH\<close> to
  the top \<open>T\<close>, the end \<open>hi\<close> of the range at the top. These are what the coordinates, which
  are computed in doubles and with the logarithm of the C library, are measured against.
\<close>

definition rate_x :: "int \<Rightarrow> int \<Rightarrow> int \<Rightarrow> int \<Rightarrow> real" where
  "rate_x L PW xmax v = of_int L + of_int PW * (of_int v / of_int xmax)"

definition latency_y :: "int \<Rightarrow> int \<Rightarrow> int \<Rightarrow> int \<Rightarrow> int \<Rightarrow> real" where
  "latency_y T PH lo hi v = of_int T + of_int PH * (ln (of_int hi / of_int v) / ln (of_int hi / of_int lo))"

text \<open>Within a hundredth of a pixel.\<close>

definition near :: "rat \<Rightarrow> real \<Rightarrow> bool" where
  "near x r \<longleftrightarrow> \<bar>real_of_rat x - r\<bar> \<le> 1 / 100"

section \<open>The rate axis\<close>

lemma fl_int: "\<bar>n\<bar> \<le> 2 ^ 53 \<Longrightarrow> fl (of_int n) = of_int n"
  by (rule fl_of_int)

lemma x_map_pos: "\<bar>v\<bar> \<le> 2 ^ 53 \<Longrightarrow> xmax \<noteq> 0 \<Longrightarrow> x_map L PW xmax v = Inr (x_pos L PW xmax v)"
  by (simp add: x_map_def x_pos_def int_truediv_small)

lemma x_pos_mono:
  assumes "0 \<le> PW" "0 < xmax" "v \<le> v'"
  shows "x_pos L PW xmax v \<le> x_pos L PW xmax v'"
proof -
  have "(of_int v :: rat) / of_int xmax \<le> of_int v' / of_int xmax"
    using assms by (intro divide_right_mono) auto
  then show ?thesis unfolding x_pos_def using assms(1)
    by (intro fl_mono add_left_mono mult_left_mono) auto
qed

lemma x_pos_0: "\<bar>L\<bar> \<le> 2 ^ 53 \<Longrightarrow> x_pos L PW xmax 0 = of_int L"
  by (simp add: x_pos_def fl_of_int)

lemma x_pos_xmax:
  assumes "\<bar>PW\<bar> \<le> 2 ^ 53" "\<bar>L + PW\<bar> \<le> 2 ^ 53" "xmax \<noteq> 0"
  shows "x_pos L PW xmax xmax = of_int (L + PW)"
proof -
  have "x_pos L PW xmax xmax = fl (of_int (L + PW))"
    using assms fl_of_int[of PW] by (simp add: x_pos_def)
  then show ?thesis using fl_of_int[OF assms(2)] by simp
qed

lemma x_pos_bounds:
  assumes "0 \<le> PW" "PW \<le> 2 ^ 40" "\<bar>L\<bar> \<le> 2 ^ 40" "0 \<le> v" "v \<le> xmax" "0 < xmax"
  shows "of_int L \<le> x_pos L PW xmax v \<and> x_pos L PW xmax v \<le> of_int (L + PW)"
  using x_pos_mono[of PW xmax 0 v L] x_pos_mono[of PW xmax v xmax L] x_pos_0[of L PW xmax]
    x_pos_xmax[of PW L xmax] assms by auto

section \<open>The logarithmic latency axis\<close>

lemma y_pos_antimono:
  assumes "0 \<le> PH" "0 < fl (yhi - ylo)" "l \<le> l'"
  shows "y_pos T PH ylo yhi l' \<le> y_pos T PH ylo yhi l"
proof -
  have "fl (fl (l - ylo) / fl (yhi - ylo)) \<le> fl (fl (l' - ylo) / fl (yhi - ylo))"
    using assms by (intro fl_mono divide_right_mono) auto
  then show ?thesis unfolding y_pos_def using assms(1)
    by (intro fl_mono add_left_mono mult_left_mono) auto
qed

lemma y_pos_ylo:
  assumes "\<bar>PH\<bar> \<le> 2 ^ 53" "\<bar>T + PH\<bar> \<le> 2 ^ 53"
  shows "y_pos T PH ylo yhi ylo = of_int (T + PH)"
proof -
  have "y_pos T PH ylo yhi ylo = fl (of_int (T + PH))"
    using fl_of_int[OF assms(1)] by (simp add: y_pos_def)
  then show ?thesis using fl_of_int[OF assms(2)] by simp
qed

lemma y_pos_yhi:
  assumes "fl (yhi - ylo) \<noteq> 0" "\<bar>T\<bar> \<le> 2 ^ 53"
  shows "y_pos T PH ylo yhi yhi = of_int T"
  using assms by (simp add: y_pos_def fl_of_int)

text \<open>One operation in doubles adds at most \<open>2^(-34)\<close> to the distance from the real value.\<close>

lemma fl_step:
  assumes "\<bar>real_of_rat a - r\<bar> \<le> d" "\<bar>r\<bar> \<le> 2 ^ 19" "d \<le> 1"
  shows "\<bar>real_of_rat (fl a) - r\<bar> \<le> d + 1 / 2 ^ 34"
proof -
  have "(2 :: real) ^ 19 + 1 < 2 ^ 20" by simp
  then have "\<bar>real_of_rat a\<bar> < 2 ^ 20" using assms by linarith
  from fl_real_error[OF this] show ?thesis using assms(1) by linarith
qed

text \<open>A quotient by a range that is at least a quarter.\<close>

lemma quotient_error:
  fixes N D N0 D0 d :: real
  assumes "\<bar>N - N0\<bar> \<le> d" "\<bar>D - D0\<bar> \<le> d" "1 / 4 \<le> D" "3 / 10 \<le> D0" "\<bar>N0\<bar> \<le> 10"
  shows "\<bar>N / D - N0 / D0\<bar> \<le> 140 * d"
proof -
  have "N / D - N0 / D0 = ((N - N0) + N0 / D0 * (D0 - D)) / D" using assms(3,4) by (simp add: field_simps)
  then have "\<bar>N / D - N0 / D0\<bar> = \<bar>(N - N0) + N0 / D0 * (D0 - D)\<bar> / D" using assms(3) by (simp add: abs_divide)
  also have "\<dots> \<le> (d + 34 * d) / D"
  proof (rule divide_right_mono)
    have "\<bar>N0 / D0\<bar> = \<bar>N0\<bar> / D0" using assms(4) by (simp add: abs_divide)
    also have "\<dots> \<le> 10 / (3 / 10)" using assms(4,5) by (intro frac_le) auto
    also have "10 / (3 / 10) \<le> (34 :: real)" by simp
    finally have "\<bar>N0 / D0\<bar> \<le> 34" .
    then have "\<bar>N0 / D0\<bar> * \<bar>D0 - D\<bar> \<le> 34 * d" using assms(2) by (intro mult_mono) auto
    then have "\<bar>N - N0\<bar> + \<bar>N0 / D0 * (D0 - D)\<bar> \<le> d + 34 * d" unfolding abs_mult using assms(1) by (intro add_mono)
    then show "\<bar>(N - N0) + N0 / D0 * (D0 - D)\<bar> \<le> d + 34 * d" by (rule order_trans[OF abs_triangle_ineq])
  qed (use assms(3) in simp)
  also have "\<dots> \<le> (35 * d) / (1 / 4)" using assms(1,3) by (intro frac_le) auto
  finally show ?thesis by simp
qed

text \<open>Both axes end by scaling a fraction to the plot: \<open>B + A * u\<close>.\<close>

lemma scale_near:
  assumes "0 \<le> A" "A \<le> 1000" "0 \<le> B" "B \<le> 1000" "\<bar>real_of_rat u - U\<bar> \<le> 1 / 2 ^ 25" "\<bar>U\<bar> \<le> 35"
  shows "near (fl (of_int B + fl (of_int A * u))) (of_int B + of_int A * U)"
proof -
  have P: "\<bar>real_of_int A\<bar> \<le> 1000" "\<bar>real_of_int B\<bar> \<le> 1000" using assms by auto
  have U: "\<bar>real_of_int A * U\<bar> \<le> 1000 * 35" unfolding abs_mult using P assms(6) by (intro mult_mono) auto
  have "\<bar>real_of_int A * (real_of_rat u - U)\<bar> \<le> 1000 * (1 / 2 ^ 25)"
    unfolding abs_mult using P assms(5) by (intro mult_mono) auto
  then have "\<bar>real_of_rat (of_int A * u) - real_of_int A * U\<bar> \<le> 1000 / 2 ^ 25" by (simp add: of_rat_mult algebra_simps)
  from fl_step[OF this] have "\<bar>real_of_rat (fl (of_int A * u)) - real_of_int A * U\<bar> \<le> 1000 / 2 ^ 25 + 1 / 2 ^ 34" using U by simp
  then have "\<bar>real_of_rat (of_int B + fl (of_int A * u)) - (of_int B + of_int A * U)\<bar> \<le> 1000 / 2 ^ 25 + 1 / 2 ^ 34"
    by (simp add: of_rat_add)
  moreover have "\<bar>of_int B + of_int A * U\<bar> \<le> 1000 + 35000" using U P(2) by linarith
  then have "\<bar>of_int B + of_int A * U\<bar> \<le> 2 ^ 19" by simp
  ultimately have "\<bar>real_of_rat (fl (of_int B + fl (of_int A * u))) - (of_int B + of_int A * U)\<bar> \<le> 1000 / 2 ^ 25 + 1 / 2 ^ 34 + 1 / 2 ^ 34"
    by (intro fl_step) auto
  then show ?thesis unfolding near_def by simp
qed

lemma x_pos_near:
  assumes "0 \<le> PW" "PW \<le> 1000" "0 \<le> L" "L \<le> 1000" "0 \<le> v" "v \<le> xmax" "0 < xmax"
  shows "near (x_pos L PW xmax v) (rate_x L PW xmax v)"
proof -
  let ?q = "real_of_int v / real_of_int xmax"
  have q: "\<bar>?q\<bar> \<le> 1" using assms by auto
  have "\<bar>real_of_rat (fl (of_int v / of_int xmax)) - ?q\<bar> \<le> 0 + 1 / 2 ^ 34"
    using q by (intro fl_step) (auto simp: of_rat_divide)
  then have "\<bar>real_of_rat (fl (of_int v / of_int xmax)) - ?q\<bar> \<le> 1 / 2 ^ 25" by simp
  moreover have "\<bar>?q\<bar> \<le> 35" using q by (rule order_trans) simp
  ultimately show ?thesis unfolding x_pos_def rate_x_def by (rule scale_near[OF assms(1-4)])
qed

lemma log10_range:
  assumes "1 \<le> k" "k \<le> 10 ^ 9"
  shows "0 \<le> log 10 (real_of_int k)" "log 10 (real_of_int k) \<le> 9"
proof -
  have k: "1 \<le> real_of_int k" "real_of_int k \<le> real_of_int (10 ^ 9)" using assms by (simp, simp only: of_int_le_iff)
  then show "0 \<le> log 10 (real_of_int k)" by simp
  have "log 10 (real_of_int k) \<le> log 10 (10 ^ 9)" using k by (intro log_mono) auto
  then show "log 10 (real_of_int k) \<le> 9" by (simp add: log_nat_power del: power_numeral)
qed

text \<open>A factor of two is at least three tenths of a decade.\<close>

lemma log10_factor2:
  assumes "1 \<le> m" "2 * m \<le> n"
  shows "3 / 10 \<le> log 10 (real_of_int n) - log 10 (real_of_int m)"
proof -
  let ?m = "real_of_int m" and ?n = "real_of_int n"
  have "3 = log 10 ((10::real) ^ 3)" by (simp add: log_nat_power del: power_numeral)
  also have "\<dots> \<le> log 10 ((2::real) ^ 10)" by (intro log_mono) auto
  also have "\<dots> = 10 * log 10 2" by (subst log_nat_power) auto
  finally have "3 / 10 \<le> log 10 (2::real)" by simp
  also have "log 10 2 \<le> log 10 (?n / ?m)" using assms by (simp add: field_simps)
  also have "\<dots> = log 10 ?n - log 10 ?m" using assms by (simp add: log_divide)
  finally show ?thesis .
qed

locale log10_function =
  fixes lg :: "rat \<Rightarrow> rat"
  assumes lg_accurate: "1 \<le> n \<Longrightarrow> n \<le> 10 ^ 9 \<Longrightarrow>
    \<bar>real_of_rat (lg (of_int n)) - log 10 (real_of_int n)\<bar> \<le> 1 / 2 ^ 40"
begin

text \<open>Neighbouring integers are further apart than the error, so the order is kept.\<close>

lemma lg_less: "1 \<le> m \<Longrightarrow> m < n \<Longrightarrow> n \<le> 10 ^ 9 \<Longrightarrow> lg (of_int m) < lg (of_int n)"
proof -
  assume a: "1 \<le> m" "m < n" "n \<le> 10 ^ 9"
  let ?m = "real_of_int m" and ?n = "real_of_int n"
  have mn: "0 < ?m" "?m + 1 \<le> ?n" "?n \<le> real_of_int (10 ^ 9)" "0 < ?n"
    using a by (simp, simp, simp only: of_int_le_iff, simp)
  have "ln (?m / ?n) \<le> ?m / ?n - 1" using mn by (intro ln_le_minus_one) simp
  then have "1 - ?m / ?n \<le> ln ?n - ln ?m" using mn by (simp add: ln_div)
  moreover have "1 / 10 ^ 9 \<le> 1 / ?n" using mn by (intro divide_left_mono) auto
  moreover have "1 / ?n \<le> 1 - ?m / ?n" using mn by (simp add: field_simps)
  ultimately have d: "1 / 10 ^ 9 \<le> ln ?n - ln ?m" by linarith
  have ln10: "0 < ln (10::real)" "ln (10::real) \<le> 9" using ln_le_minus_one[of "10::real"] by auto
  have "1 / 10 ^ 9 / 9 \<le> 1 / 10 ^ 9 / ln (10::real)" using ln10 by (intro divide_left_mono) auto
  also have "\<dots> \<le> (ln ?n - ln ?m) / ln 10" using d ln10 by (intro divide_right_mono) auto
  also have "\<dots> = log 10 ?n - log 10 ?m" by (simp add: log_def diff_divide_distrib)
  finally have "2 / 2 ^ 40 < log 10 ?n - log 10 ?m" by simp
  moreover have "\<bar>real_of_rat (lg (of_int m)) - log 10 ?m\<bar> \<le> 1 / 2 ^ 40"
      "\<bar>real_of_rat (lg (of_int n)) - log 10 ?n\<bar> \<le> 1 / 2 ^ 40"
    using lg_accurate[of m] lg_accurate[of n] a by auto
  ultimately have "real_of_rat (lg (of_int m)) < real_of_rat (lg (of_int n))" by linarith
  then show ?thesis by (simp add: of_rat_less)
qed

lemma lg_mono: "1 \<le> m \<Longrightarrow> m \<le> n \<Longrightarrow> n \<le> 10 ^ 9 \<Longrightarrow> lg (of_int m) \<le> lg (of_int n)"
  using lg_less[of m n] by (cases "m = n") auto

text \<open>A range of at least a factor of two is at least a quarter of a decade.\<close>

lemma lg_range:
  assumes "1 \<le> m" "2 * m \<le> n" "n \<le> 10 ^ 9"
  shows "1 / 4 \<le> fl (lg (of_int n) - lg (of_int m))"
proof -
  let ?m = "real_of_int m" and ?n = "real_of_int n"
  have "3 / 10 \<le> log 10 ?n - log 10 ?m" using assms by (intro log10_factor2)
  moreover have "\<bar>real_of_rat (lg (of_int m)) - log 10 ?m\<bar> \<le> 1 / 2 ^ 40"
      "\<bar>real_of_rat (lg (of_int n)) - log 10 ?n\<bar> \<le> 1 / 2 ^ 40"
    using lg_accurate[of m] lg_accurate[of n] assms by auto
  moreover have "1 / 2 ^ 40 \<le> (1 / 100 :: real)" by simp
  ultimately have "1 / 4 \<le> real_of_rat (lg (of_int n)) - real_of_rat (lg (of_int m))" by linarith
  then have "real_of_rat (1 / 4) \<le> real_of_rat (lg (of_int n) - lg (of_int m))"
    by (simp add: of_rat_diff of_rat_divide)
  then have "1 / 4 \<le> lg (of_int n) - lg (of_int m)" by (simp only: of_rat_less_eq)
  moreover have "fl (1 / 4) = 1 / 4" by code_simp
  ultimately show ?thesis using fl_mono by metis
qed

lemma lg_diff_error:
  assumes "1 \<le> a" "a \<le> 10 ^ 9" "1 \<le> b" "b \<le> 10 ^ 9"
  shows "\<bar>real_of_rat (fl (lg (of_int a) - lg (of_int b))) - (log 10 (of_int a) - log 10 (of_int b))\<bar> \<le> 1 / 2 ^ 33"
    and "\<bar>log 10 (real_of_int a) - log 10 (real_of_int b)\<bar> \<le> 10"
proof -
  let ?r = "log 10 (real_of_int a) - log 10 (real_of_int b)"
  show r: "\<bar>?r\<bar> \<le> 10" using log10_range[OF assms(1,2)] log10_range[OF assms(3,4)] by linarith
  have "\<bar>real_of_rat (lg (of_int a) - lg (of_int b)) - ?r\<bar> \<le> 1 / 2 ^ 40 + 1 / 2 ^ 40"
    using lg_accurate[OF assms(1,2)] lg_accurate[OF assms(3,4)] unfolding of_rat_diff by linarith
  from fl_step[OF this] show "\<bar>real_of_rat (fl (lg (of_int a) - lg (of_int b))) - ?r\<bar> \<le> 1 / 2 ^ 33"
    using r by fastforce
qed

text \<open>The coordinate of a latency is within a hundredth of a pixel of where it belongs.\<close>

lemma y_pos_near:
  assumes T: "0 \<le> PH" "PH \<le> 1000" "0 \<le> T" "T \<le> 1000" and r: "1 \<le> m" "2 * m \<le> n" "n \<le> 10 ^ 9" and v: "1 \<le> v" "v \<le> 10 ^ 9"
  shows "near (y_pos T PH (lg (of_int m)) (lg (of_int n)) (lg (of_int v))) (latency_y T PH m n v)"
proof -
  define N D where "N = fl (lg (of_int v) - lg (of_int m))" and "D = fl (lg (of_int n) - lg (of_int m))"
  define N0 D0 where "N0 = log 10 (real_of_int v) - log 10 (real_of_int m)" and "D0 = log 10 (real_of_int n) - log 10 (real_of_int m)"
  have mn: "m \<le> 10 ^ 9" "1 \<le> n" using r by auto
  have "real_of_rat (1 / 4) \<le> real_of_rat D" unfolding of_rat_less_eq D_def by (rule lg_range[OF r])
  then have D4: "1 / 4 \<le> real_of_rat D" by (simp add: of_rat_divide)
  have D3: "3 / 10 \<le> D0" unfolding D0_def by (rule log10_factor2[OF r(1,2)])
  note q = quotient_error[OF lg_diff_error(1)[OF v r(1) mn(1)] lg_diff_error(1)[OF mn(2) r(3) r(1) mn(1)], folded N_def D_def N0_def D0_def,
    OF D4 D3 lg_diff_error(2)[OF v r(1) mn(1), folded N0_def]]
  have "\<bar>N0 / D0\<bar> = \<bar>N0\<bar> / D0" using D3 by (simp add: abs_divide)
  also have "\<dots> \<le> 10 / (3 / 10)" using D3 lg_diff_error(2)[OF v r(1) mn(1)] unfolding N0_def by (intro frac_le) auto
  also have "10 / (3 / 10) \<le> (34 :: real)" by simp
  finally have q0: "\<bar>N0 / D0\<bar> \<le> 34" .
  then have u0: "\<bar>1 - N0 / D0\<bar> \<le> 35" by linarith
  have "\<bar>real_of_rat (fl (N / D)) - N0 / D0\<bar> \<le> 140 * (1 / 2 ^ 33) + 1 / 2 ^ 34"
    using q q0 by (intro fl_step) (simp_all add: of_rat_divide)
  then have "\<bar>real_of_rat (1 - fl (N / D)) - (1 - N0 / D0)\<bar> \<le> 140 * (1 / 2 ^ 33) + 1 / 2 ^ 34"
    unfolding of_rat_diff of_rat_1 by linarith
  from fl_step[OF this] have u: "\<bar>real_of_rat (fl (1 - fl (N / D))) - (1 - N0 / D0)\<bar> \<le> 1 / 2 ^ 25" using u0 by simp
  have "1 - N0 / D0 = (D0 - N0) / D0" using D3 by (simp add: field_simps)
  also have "\<dots> = ln (real_of_int n / real_of_int v) / ln (real_of_int n / real_of_int m)"
    unfolding D0_def N0_def using r v mn by (simp add: log_def ln_div diff_divide_distrib[symmetric])
  finally have "latency_y T PH m n v = real_of_int T + real_of_int PH * (1 - N0 / D0)" by (simp add: latency_y_def)
  then show ?thesis using scale_near[OF T u u0] unfolding y_pos_def N_def[symmetric] D_def[symmetric] by simp
qed

text \<open>
  The latency axis over a range \<open>m\<close> to \<open>n\<close> microseconds: a larger latency is not drawn
  lower, the ends of the range are the ends of the plot, and what lies between them is drawn
  inside the plot.
\<close>

lemma y_map_pos:
  assumes "1 \<le> m" "2 * m \<le> n" "n \<le> 10 ^ 9" "1 \<le> v"
  shows "y_map lg T PH (lg (of_int m)) (lg (of_int n)) v = Inr (y_pos T PH (lg (of_int m)) (lg (of_int n)) (lg (of_int v)))"
  using lg_range[OF assms(1-3)] assms(4) by (auto simp: y_map_def py_log10_def)

lemma y_axis_antimono:
  assumes "0 \<le> PH" "1 \<le> m" "2 * m \<le> n" "n \<le> 10 ^ 9" "1 \<le> v" "v \<le> v'" "v' \<le> 10 ^ 9"
  shows "y_pos T PH (lg (of_int m)) (lg (of_int n)) (lg (of_int v')) \<le>
         y_pos T PH (lg (of_int m)) (lg (of_int n)) (lg (of_int v))"
  using lg_range[OF assms(2-4)] lg_mono[OF assms(5-7)] by (intro y_pos_antimono assms) auto

lemma y_axis_bounds:
  assumes PH: "0 \<le> PH" "PH \<le> 2 ^ 40" "\<bar>T\<bar> \<le> 2 ^ 40"
    and r: "1 \<le> m" "2 * m \<le> n" "n \<le> 10 ^ 9" and v: "m \<le> v" "v \<le> n"
  shows "of_int T \<le> y_pos T PH (lg (of_int m)) (lg (of_int n)) (lg (of_int v)) \<and>
         y_pos T PH (lg (of_int m)) (lg (of_int n)) (lg (of_int v)) \<le> of_int (T + PH)"
proof
  have "fl (lg (of_int n) - lg (of_int m)) \<noteq> 0" using lg_range[OF r] by auto
  then have "y_pos T PH (lg (of_int m)) (lg (of_int n)) (lg (of_int n)) = of_int T"
    using PH by (intro y_pos_yhi) auto
  then show "of_int T \<le> y_pos T PH (lg (of_int m)) (lg (of_int n)) (lg (of_int v))"
    using y_axis_antimono[OF PH(1) r, of v n T] r v by auto
  have "y_pos T PH (lg (of_int m)) (lg (of_int n)) (lg (of_int m)) = of_int (T + PH)"
    using PH by (intro y_pos_ylo) auto
  then show "y_pos T PH (lg (of_int m)) (lg (of_int n)) (lg (of_int v)) \<le> of_int (T + PH)"
    using y_axis_antimono[OF PH(1) r, of m v T] r v by auto
qed

end

text \<open>The logarithm rounded to 49 binary places.\<close>

definition log10_rounded :: "rat \<Rightarrow> rat" where
  "log10_rounded x = of_int (round (log 10 (real_of_rat x) * 2 ^ 49)) / 2 ^ 49"

lemma log10_rounded_error: "\<bar>real_of_rat (log10_rounded x) - log 10 (real_of_rat x)\<bar> \<le> 1 / 2 ^ 50"
proof -
  define l where "l = log 10 (real_of_rat x)"
  define r where "r = real_of_int (round (l * 2 ^ 49))"
  have "\<bar>r - l * 2 ^ 49\<bar> \<le> 1 / 2" unfolding r_def by (rule of_int_round_abs_le)
  then have "\<bar>(r - l * 2 ^ 49) / 2 ^ 49\<bar> \<le> 1 / 2 / 2 ^ 49" unfolding abs_divide by simp
  also have "(r - l * 2 ^ 49) / 2 ^ 49 = r / 2 ^ 49 - l" by (simp add: diff_divide_distrib)
  also have "r / 2 ^ 49 = real_of_rat (log10_rounded x)"
    by (simp add: log10_rounded_def of_rat_divide r_def l_def)
  also have "1 / 2 / 2 ^ 49 = (1 / 2 ^ 50 :: real)" by simp
  finally show ?thesis by (simp only: l_def)
qed

interpretation log10_rounded: log10_function log10_rounded
proof unfold_locales
  fix n :: int
  have "\<bar>real_of_rat (log10_rounded (of_int n)) - log 10 (real_of_int n)\<bar> \<le> 1 / 2 ^ 50"
    using log10_rounded_error[of "of_int n"] by simp
  then show "\<bar>real_of_rat (log10_rounded (of_int n)) - log 10 (real_of_int n)\<bar> \<le> 1 / 2 ^ 40"
    by (rule order_trans) simp
qed

section \<open>The ticks of the rate axis\<close>

lemma x_ticks_rec:
  "x_ticks body xmax xstep v =
     (if v \<le> xmax then bindE (body v) (\<lambda>s. bindE (x_ticks body xmax xstep (v + xstep)) (\<lambda>t. Inr (s @ t))) else Inr [])"
  unfolding x_ticks_def by (subst x_loop.simps) (auto split: sum.splits option.splits)

text \<open>If the loop returns, it passed the end of the axis or a round raised.\<close>

lemma x_loop_returned:
  assumes "x_loop body xmax xstep v = Some r"
  shows "\<exists>k. xmax < v + int k * xstep \<or> isl (body (v + int k * xstep))"
proof (rule x_loop.raw_induct[where P = "\<lambda>body xmax xstep v r. \<exists>k. xmax < v + int k * xstep \<or> isl (body (v + int k * xstep))", OF _ assms])
  fix f :: "(int \<Rightarrow> svg list res) \<Rightarrow> int \<Rightarrow> int \<Rightarrow> int \<Rightarrow> svg list res option"
  fix body :: "int \<Rightarrow> svg list res" and xmax xstep v r
  assume IH: "\<And>body xmax xstep v r. f body xmax xstep v = Some r \<Longrightarrow> \<exists>k. xmax < v + int k * xstep \<or> isl (body (v + int k * xstep))"
    and eq: "(if v \<le> xmax then (case body v of Inl e \<Rightarrow> Some (Inl e)
        | Inr s \<Rightarrow> Option.bind (f body xmax xstep (v + xstep)) (\<lambda>r. Some (bindE r (\<lambda>t. Inr (s @ t))))) else Some (Inr [])) = Some r"
  show "\<exists>k. xmax < v + int k * xstep \<or> isl (body (v + int k * xstep))"
  proof (cases "v \<le> xmax \<and> \<not> isl (body v)")
    case True
    then obtain s where s: "v \<le> xmax" "body v = Inr s" by (cases "body v") auto
    obtain r' where "f body xmax xstep (v + xstep) = Some r'" using eq unfolding s(2) if_P[OF s(1)] by (auto simp: bind_eq_Some_conv)
    from IH[OF this] obtain k where "xmax < v + xstep + int k * xstep \<or> isl (body (v + xstep + int k * xstep))" ..
    then show ?thesis by (intro exI[of _ "Suc k"]) (simp add: algebra_simps)
  qed (auto intro: exI[of _ 0])
qed

lemma x_loop_returns:
  "xmax < v + int k * xstep \<or> isl (body (v + int k * xstep)) \<Longrightarrow> \<exists>r. x_loop body xmax xstep v = Some r"
proof (induction k arbitrary: v)
  case 0
  then show ?case by (subst x_loop.simps) (auto split: sum.splits)
next
  case (Suc k)
  have "v + int (Suc k) * xstep = (v + xstep) + int k * xstep" by (simp add: algebra_simps)
  then obtain r where "x_loop body xmax xstep (v + xstep) = Some r" using Suc.IH[of "v + xstep"] Suc.prems by metis
  then show ?case by (subst x_loop.simps) (auto split: sum.splits)
qed

text \<open>What a loop that returns has appended was appended by its rounds.\<close>

lemma x_ticks_parts:
  assumes "x_ticks body xmax xstep v = Inr o'"
  shows "\<exists>parts. o' = concat parts \<and> (\<forall>ys \<in> set parts. \<exists>r. body r = Inr ys)"
proof -
  define Q where "Q = (\<lambda>(body :: int \<Rightarrow> svg list res) (r :: svg list res). \<forall>o'. r = Inr o' \<longrightarrow> (\<exists>parts. o' = concat parts \<and> (\<forall>ys \<in> set parts. \<exists>r. body r = Inr ys)))"
  have "x_loop body xmax xstep v = Some (Inr o')" using assms by (auto simp: x_ticks_def split: option.splits)
  then have "Q body (Inr o')"
  proof (rule x_loop.raw_induct[where P = "\<lambda>body xmax xstep v r. Q body r", rotated])
    fix f :: "(int \<Rightarrow> svg list res) \<Rightarrow> int \<Rightarrow> int \<Rightarrow> int \<Rightarrow> svg list res option"
    fix body :: "int \<Rightarrow> svg list res" and xmax xstep v r
    assume IH: "\<And>body xmax xstep v r. f body xmax xstep v = Some r \<Longrightarrow> Q body r"
      and eq: "(if v \<le> xmax then (case body v of Inl e \<Rightarrow> Some (Inl e)
        | Inr s \<Rightarrow> Option.bind (f body xmax xstep (v + xstep)) (\<lambda>r. Some (bindE r (\<lambda>t. Inr (s @ t))))) else Some (Inr [])) = Some r"
    show "Q body r" unfolding Q_def
    proof (intro allI impI)
      fix o' assume r: "r = Inr o'"
      show "\<exists>parts. o' = concat parts \<and> (\<forall>ys \<in> set parts. \<exists>r. body r = Inr ys)"
      proof (cases "v \<le> xmax")
        case True
        then obtain s t where st: "body v = Inr s" "f body xmax xstep (v + xstep) = Some (Inr t)" "o' = s @ t"
          using eq r by (auto simp: bind_eq_Some_conv py_res split: sum.splits)
        from IH[OF st(2)] obtain parts where "t = concat parts" "\<forall>ys \<in> set parts. \<exists>r. body r = Inr ys" unfolding Q_def by blast
        then show ?thesis using st by (intro exI[of _ "s # parts"]) auto
      qed (use eq r in \<open>auto intro: exI[of _ "[]"]\<close>)
    qed
  qed
  then show ?thesis by (simp add: Q_def)
qed

lemma x_ticks_collect:
  assumes "0 < xstep"
  shows "x_ticks body xmax xstep v =
     collectE body (map (\<lambda>i. v + int i * xstep) [0..<nat ((xmax - v) div xstep + 1)])"
proof (induction "nat (xmax - v + 1)" arbitrary: v rule: less_induct)
  case less
  show ?case
  proof (cases "v \<le> xmax")
    case True
    define k where "k = nat ((xmax - (v + xstep)) div xstep + 1)"
    have e: "(xmax - v) div xstep = (xmax - (v + xstep)) div xstep + 1"
      using assms div_add_self2[of xstep "xmax - v - xstep"] by (simp add: algebra_simps)
    have "-1 \<le> (xmax - (v + xstep)) div xstep"
      using True assms zdiv_mono1[of "-1 * xstep" "xmax - (v + xstep)" xstep]
        nonzero_mult_div_cancel_right[of xstep "-1"] by simp
    then have n: "nat ((xmax - v) div xstep + 1) = Suc k" unfolding e k_def by simp
    have "map (\<lambda>i. v + int i * xstep) [0..<Suc k] = v # map (\<lambda>i. v + xstep + int i * xstep) [0..<k]"
      by (simp add: upt_conv_Cons map_Suc_upt[symmetric] algebra_simps del: upt_Suc)
    moreover have "x_ticks body xmax xstep (v + xstep) = collectE body (map (\<lambda>i. v + xstep + int i * xstep) [0..<k])"
      using less[of "v + xstep"] True assms by (simp add: k_def)
    ultimately show ?thesis using True unfolding n by (subst x_ticks_rec) (simp cong: bindE_cong)
  next
    case False
    then have "(xmax - v) div xstep < 0" using assms by (intro div_neg_pos_less0) auto
    then show ?thesis using False by (subst x_ticks_rec) simp
  qed
qed

section \<open>Saturation\<close>

lemma below_99_exact:
  assumes "0 \<le> rate" "rate < 2 ^ 40" "\<bar>achieved\<bar> < 2 ^ 40"
  shows "below_99 achieved rate = Inr (100 * achieved < 99 * rate)"
proof -
  define c where "c = fl (99 / 100)"
  have c: "c \<le> 99 / 100" "99 / 100 - 1 / 2 ^ 53 \<le> c"
    unfolding c_def by code_simp+
  have r: "float_of_int rate = Inr (of_int rate)" using assms by (intro float_of_int_small) auto
  have rq: "(0 :: rat) \<le> of_int rate" "(of_int rate :: rat) < 2 ^ 40"
    using assms(1,2) by (simp, metis of_int_less_iff of_int_numeral of_int_power)
  have "of_int achieved < fl (c * of_int rate) \<longleftrightarrow> 100 * achieved < 99 * rate"
  proof
    assume less: "of_int achieved < fl (c * of_int rate)"
    show "100 * achieved < 99 * rate"
    proof (rule ccontr)
      assume "\<not> 100 * achieved < 99 * rate"
      then have "(of_int (99 * rate) :: rat) \<le> of_int (100 * achieved)" by (simp only: of_int_le_iff)
      then have "99 / 100 * of_int rate \<le> (of_int achieved :: rat)" by simp
      moreover have "c * of_int rate \<le> 99 / 100 * of_int rate" using c rq by (intro mult_right_mono)
      ultimately have "fl (c * of_int rate) \<le> of_int achieved"
        using assms(3) by (intro binary64.rnd_le_int) auto
      then show False using less by simp
    qed
  next
    assume "100 * achieved < 99 * rate"
    then have a: "of_int (100 * achieved + 1) \<le> (of_int (99 * rate) :: rat)" by (simp only: of_int_le_iff)
    show "of_int achieved < fl (c * of_int rate)"
    proof (cases "rate = 0")
      case True
      then show ?thesis using \<open>100 * achieved < 99 * rate\<close> by simp
    next
      case False
      then have r1: "(1 :: rat) \<le> of_int rate" using assms(1) by simp
      define q where "q = c * of_int rate"
      have "(1 / 2 :: rat) \<le> c" using c by simp
      then have cr: "1 / 2 * 1 \<le> q" using r1 unfolding q_def by (intro mult_mono) auto
      have "2 powi (-1022) \<le> (1 / 2 :: rat)" by simp
      then have "\<bar>fl q - q\<bar> \<le> \<bar>q\<bar> / 2 ^ 53" using cr by (intro fl_rel_error) auto
      moreover have "(99 / 100 - 1 / 2 ^ 53) * of_int rate \<le> q"
        using c rq unfolding q_def by (intro mult_right_mono)
      moreover have le: "q \<le> 1 * of_int rate" using c rq unfolding q_def by (intro mult_right_mono) auto
      moreover have "100 * of_int achieved + 1 \<le> 99 * (of_int rate :: rat)" using a by simp
      moreover have "1 / 2 ^ 53 * of_int rate \<le> (1 / 1000 :: rat)" using rq(2) by simp
      moreover have "\<bar>q\<bar> / 2 ^ 53 \<le> 1 / 1000" using le rq(2) cr by simp
      ultimately have "of_int achieved < fl q" by (simp only: left_diff_distrib)
      then show ?thesis by (simp add: q_def)
    qed
  qed
  then show ?thesis by (simp add: below_99_def r c_def)
qed

end
