(* ===== verification/Py_Csv.thy ===== *)
theory Py_Csv
  imports Py_Dict Py_IO
begin

text \<open>
  The \<open>csv\<close> module in its default dialect, as the chart scripts use it on text files:
  \<open>csv_char\<close> is the state machine of the reader (delimiter comma, quote character
  \<open>"\<close>, doubled quotes), \<open>csv_rows\<close> iterates it over the lines of a file, and
  \<open>dict_reader\<close> is \<open>csv.DictReader\<close>, whose rows map the header's names to strings, to
  \<open>None\<close> when a row is short, and collect the surplus of a long row under the key
  \<open>None\<close>. The limit on the length of a field (131072 characters) is not modelled.
\<close>

section \<open>The reader\<close>

datatype csv_state = StartRecord | StartField | InField | InQuotedField | QuoteInQuotedField | EatCrnl

record csv_reader =
  csv_st :: csv_state
  csv_fields :: "string list"
  csv_field :: string

definition csv_init :: csv_reader where
  "csv_init = \<lparr>csv_st = StartRecord, csv_fields = [], csv_field = []\<rparr>"

definition save_field :: "csv_state \<Rightarrow> csv_reader \<Rightarrow> csv_reader" where
  "save_field s r = \<lparr>csv_st = s, csv_fields = csv_fields r @ [csv_field r], csv_field = []\<rparr>"

definition add_char :: "csv_state \<Rightarrow> char \<Rightarrow> csv_reader \<Rightarrow> csv_reader" where
  "add_char s c r = r\<lparr>csv_st := s, csv_field := csv_field r @ [c]\<rparr>"

definition is_crnl :: "char \<Rightarrow> bool" where
  "is_crnl c \<longleftrightarrow> c = CHR 0x0A \<or> c = CHR 0x0D"

text \<open>One character of a line; \<open>None\<close> is the end of the line.\<close>

fun csv_start_field :: "csv_reader \<Rightarrow> char option \<Rightarrow> csv_reader" where
  "csv_start_field r None = save_field StartRecord r"
| "csv_start_field r (Some c) =
     (if is_crnl c then save_field EatCrnl r
      else if c = CHR 0x22 then r\<lparr>csv_st := InQuotedField\<rparr>
      else if c = CHR '','' then save_field StartField r
      else add_char InField c r)"

fun csv_in_field :: "csv_reader \<Rightarrow> char option \<Rightarrow> csv_reader" where
  "csv_in_field r None = save_field StartRecord r"
| "csv_in_field r (Some c) =
     (if is_crnl c then save_field EatCrnl r
      else if c = CHR '','' then save_field StartField r
      else add_char InField c r)"

fun csv_in_quoted :: "csv_reader \<Rightarrow> char option \<Rightarrow> csv_reader" where
  "csv_in_quoted r None = r"
| "csv_in_quoted r (Some c) =
     (if c = CHR 0x22 then r\<lparr>csv_st := QuoteInQuotedField\<rparr> else add_char InQuotedField c r)"

fun csv_quote_in_quoted :: "csv_reader \<Rightarrow> char option \<Rightarrow> csv_reader" where
  "csv_quote_in_quoted r None = save_field StartRecord r"
| "csv_quote_in_quoted r (Some c) =
     (if c = CHR 0x22 then add_char InQuotedField c r
      else if c = CHR '','' then save_field StartField r
      else if is_crnl c then save_field EatCrnl r
      else add_char InField c r)"

definition csv_char :: "csv_reader \<Rightarrow> char option \<Rightarrow> csv_reader res" where
  "csv_char r ch = (case csv_st r of
     StartRecord \<Rightarrow>
       (case ch of None \<Rightarrow> Inr r
        | Some c \<Rightarrow> if is_crnl c then Inr (r\<lparr>csv_st := EatCrnl\<rparr>) else Inr (csv_start_field r ch))
   | StartField \<Rightarrow> Inr (csv_start_field r ch)
   | InField \<Rightarrow> Inr (csv_in_field r ch)
   | InQuotedField \<Rightarrow> Inr (csv_in_quoted r ch)
   | QuoteInQuotedField \<Rightarrow> Inr (csv_quote_in_quoted r ch)
   | EatCrnl \<Rightarrow>
       (case ch of None \<Rightarrow> Inr (r\<lparr>csv_st := StartRecord\<rparr>)
        | Some c \<Rightarrow> if is_crnl c then Inr r else Inl CsvError))"

definition csv_feed :: "csv_reader \<Rightarrow> string \<Rightarrow> csv_reader res" where
  "csv_feed r l = foldE csv_char r (map Some l @ [None])"

text \<open>The rows of a file: a record ends with the line after which the machine is back at the
  start of a record; at the end of the file an open quoted field is closed.\<close>

fun csv_rows :: "csv_reader \<Rightarrow> string list \<Rightarrow> string list list res" where
  "csv_rows r [] = Inr (if csv_st r = InQuotedField then [csv_fields r @ [csv_field r]] else [])"
| "csv_rows r (l # ls) = bindE (csv_feed r l) (\<lambda>r'.
     if csv_st r' = StartRecord
     then bindE (csv_rows csv_init ls) (\<lambda>rows. Inr (csv_fields r' # rows))
     else csv_rows r' ls)"

definition csv_reader_rows :: "string \<Rightarrow> string list list res" where
  "csv_reader_rows t = csv_rows csv_init (text_lines t)"

section \<open>Dictionary rows\<close>

datatype csv_val = CStr string | CNone | CList "string list"

type_synonym csv_row = "(string option, csv_val) dict"

definition dict_row :: "string list \<Rightarrow> string list \<Rightarrow> csv_row" where
  "dict_row names row =
     (let d = foldl (\<lambda>d (k, v). dict_set (Some k) (CStr v) d) [] (zip names row) in
      if length names < length row then dict_set None (CList (drop (length names) row)) d
      else foldl (\<lambda>d k. dict_set (Some k) CNone d) d (drop (length row) names))"

fun dict_reader :: "string list list \<Rightarrow> csv_row list" where
  "dict_reader [] = []"
| "dict_reader (names # rows) = map (dict_row names) (filter (\<lambda>r. r \<noteq> []) rows)"

definition csv_dict_rows :: "string \<Rightarrow> csv_row list res" where
  "csv_dict_rows t = bindE (csv_reader_rows t) (\<lambda>rows. Inr (dict_reader rows))"

text \<open>\<open>row[name]\<close> and \<open>int(v)\<close> on a value of a row.\<close>

definition row_get :: "csv_row \<Rightarrow> string \<Rightarrow> csv_val res" where
  "row_get r k = (case dict_get r (Some k) of None \<Rightarrow> Inl (KeyError k) | Some v \<Rightarrow> Inr v)"

fun int_of_val :: "csv_val \<Rightarrow> int res" where
  "int_of_val (CStr s) = py_int s"
| "int_of_val CNone = Inl TypeError"
| "int_of_val (CList xs) = Inl TypeError"

text \<open>The truth value of a cell, as in \<open>if row[col]\<close>.\<close>

fun val_truthy :: "csv_val \<Rightarrow> bool" where
  "val_truthy (CStr s) = (s \<noteq> [])"
| "val_truthy CNone = False"
| "val_truthy (CList xs) = (xs \<noteq> [])"

section \<open>A file read in text mode never breaks the reader\<close>

lemma csv_char_total: "csv_st r \<noteq> EatCrnl \<Longrightarrow> \<exists>r'. csv_char r ch = Inr r'"
  by (cases "csv_st r") (auto simp: csv_char_def split: option.splits)

lemma csv_char_not_Eat:
  "csv_st r \<noteq> EatCrnl \<Longrightarrow> csv_char r (Some c) = Inr r' \<Longrightarrow> \<not> is_crnl c \<Longrightarrow> csv_st r' \<noteq> EatCrnl"
  by (cases "csv_st r") (auto simp: csv_char_def save_field_def add_char_def split: if_splits)

lemma csv_end_of_line: "\<exists>r'. csv_char r None = Inr r' \<and> csv_st r' \<noteq> EatCrnl"
  by (cases "csv_st r") (auto simp: csv_char_def save_field_def)

lemma csv_feed_total:
  assumes "csv_st r \<noteq> EatCrnl" "\<forall>c \<in> set (butlast l). \<not> is_crnl c"
  shows "\<exists>r'. csv_feed r l = Inr r' \<and> csv_st r' \<noteq> EatCrnl"
  using assms
proof (induction l arbitrary: r)
  case Nil
  then show ?case using csv_end_of_line[of r] by (auto simp: csv_feed_def)
next
  case (Cons c l)
  obtain r1 where r1: "csv_char r (Some c) = Inr r1" using csv_char_total Cons.prems(1) by blast
  show ?case
  proof (cases "l = []")
    case True
    then show ?thesis using csv_end_of_line[of r1] r1 by (auto simp: csv_feed_def)
  next
    case False
    then have "csv_st r1 \<noteq> EatCrnl" using csv_char_not_Eat[OF Cons.prems(1) r1] Cons.prems(2) by simp
    then show ?thesis using Cons.IH[of r1] Cons.prems(2) False r1 by (auto simp: csv_feed_def)
  qed
qed

lemma csv_rows_total:
  assumes "csv_st r \<noteq> EatCrnl" "\<forall>l \<in> set ls. \<forall>c \<in> set (butlast l). \<not> is_crnl c"
  shows "\<exists>rows. csv_rows r ls = Inr rows"
  using assms
proof (induction ls arbitrary: r)
  case (Cons l ls)
  obtain r' where r': "csv_feed r l = Inr r'" "csv_st r' \<noteq> EatCrnl"
    using csv_feed_total Cons.prems by (metis list.set_intros(1))
  show ?case
  proof (cases "csv_st r' = StartRecord")
    case True
    have "csv_st csv_init \<noteq> EatCrnl" by (simp add: csv_init_def)
    then obtain rows where "csv_rows csv_init ls = Inr rows" using Cons by (metis list.set_intros(2))
    then show ?thesis using r' True by simp
  next
    case False
    then show ?thesis using Cons.IH[OF r'(2)] Cons.prems r' by auto
  qed
qed simp

lemma universal_newlines_no_cr: "CHR 0x0D \<notin> set (universal_newlines s)"
  by (induction s rule: universal_newlines.induct) auto

lemma keep_lines_butlast:
  "CHR 0x0D \<notin> set s \<Longrightarrow> \<forall>c \<in> set acc. \<not> is_crnl c \<Longrightarrow> l \<in> set (keep_lines acc s) \<Longrightarrow>
   c \<in> set (butlast l) \<Longrightarrow> \<not> is_crnl c"
proof (induction acc s rule: keep_lines.induct)
  case (1 acc)
  then have "l = rev acc" by (auto split: if_splits)
  then have "c \<in> set acc" using in_set_butlastD[OF "1.prems"(4)] by simp
  then show ?case using "1.prems"(2) by blast
next
  case (2 acc x s)
  show ?case
  proof (cases "x = CHR 0x0A")
    case True
    then consider "l = rev acc @ [x]" | "l \<in> set (keep_lines [] s)" using "2.prems"(3) by auto
    then show ?thesis
    proof cases
      case 1 then show ?thesis using "2.prems"(2,4) by simp
    next
      case 2 then show ?thesis using "2.IH"(1)[OF True] "2.prems"(1,4) by simp
    qed
  next
    case False
    then have "\<forall>c \<in> set (x # acc). \<not> is_crnl c" using "2.prems"(1,2) by (auto simp: is_crnl_def)
    then show ?thesis using "2.IH"(2)[OF False] "2.prems"(1,3,4) False by simp
  qed
qed

lemma csv_reader_total: "\<exists>rows. csv_reader_rows t = Inr rows"
proof -
  have "\<forall>l \<in> set (text_lines t). \<forall>c \<in> set (butlast l). \<not> is_crnl c"
    unfolding text_lines_def using keep_lines_butlast[OF universal_newlines_no_cr, of "[]" _ t] by auto
  moreover have "csv_st csv_init \<noteq> EatCrnl" by (simp add: csv_init_def)
  ultimately show ?thesis unfolding csv_reader_rows_def by (intro csv_rows_total)
qed

section \<open>Unquoted files\<close>

definition plain_char :: "char \<Rightarrow> bool" where
  "plain_char c \<longleftrightarrow> \<not> is_crnl c \<and> c \<noteq> CHR 0x22"

lemma csv_plain_fields:
  assumes "list_all plain_char s"
  shows "foldE csv_char \<lparr>csv_st = InField, csv_fields = fs, csv_field = f\<rparr> (map Some s @ [Some (CHR 0x0A), None]) =
      Inr \<lparr>csv_st = StartRecord, csv_fields = fs @ (f @ hd (split_on (CHR '','') s)) # tl (split_on (CHR '','') s), csv_field = []\<rparr>"
    and "foldE csv_char \<lparr>csv_st = StartField, csv_fields = fs, csv_field = []\<rparr> (map Some s @ [Some (CHR 0x0A), None]) =
      Inr \<lparr>csv_st = StartRecord, csv_fields = fs @ split_on (CHR '','') s, csv_field = []\<rparr>"
  using assms
proof (induction s arbitrary: fs f)
  case Nil
  {
    case 1
    then show ?case by (simp add: csv_char_def is_crnl_def save_field_def)
  next
    case 2
    then show ?case by (simp add: csv_char_def is_crnl_def save_field_def)
  }
next
  case (Cons c s)
  {
    case 1
    then have c: "\<not> is_crnl c" "list_all plain_char s" by (auto simp: plain_char_def[of c])
    show ?case using Cons.IH(1)[OF c(2), of fs "f @ [c]"] Cons.IH(2)[OF c(2), of "fs @ [f]"] c
      by (cases "split_on (CHR '','') s") (auto simp: csv_char_def save_field_def add_char_def)
  next
    case 2
    then have c: "\<not> is_crnl c" "c \<noteq> CHR 0x22" "list_all plain_char s" by (auto simp: plain_char_def[of c])
    show ?case using Cons.IH(1)[OF c(3), of fs "[c]"] Cons.IH(2)[OF c(3), of "fs @ [[]]"] c
      by (cases "split_on (CHR '','') s") (auto simp: csv_char_def save_field_def add_char_def)
  }
qed

lemma csv_feed_plain:
  assumes "list_all plain_char l" "l \<noteq> []"
  shows "csv_feed csv_init (l @ [CHR 0x0A]) =
    Inr \<lparr>csv_st = StartRecord, csv_fields = split_on (CHR '','') l, csv_field = []\<rparr>"
proof -
  obtain c s where l: "l = c # s" using assms(2) by (cases l) auto
  then have "\<not> is_crnl c" using assms(1) by (simp add: plain_char_def)
  then have "csv_char csv_init (Some c) = csv_char \<lparr>csv_st = StartField, csv_fields = [], csv_field = []\<rparr> (Some c)"
    by (simp add: csv_char_def csv_init_def save_field_def add_char_def)
  then have "csv_feed csv_init (l @ [CHR 0x0A]) =
      foldE csv_char \<lparr>csv_st = StartField, csv_fields = [], csv_field = []\<rparr> (map Some l @ [Some (CHR 0x0A), None])"
    by (simp add: csv_feed_def l)
  then show ?thesis using csv_plain_fields(2)[OF assms(1), of "[]"] by simp
qed

lemma csv_rows_plain:
  "\<forall>l \<in> set ls. list_all plain_char l \<and> l \<noteq> [] \<Longrightarrow>
   csv_rows csv_init (map (\<lambda>l. l @ [CHR 0x0A]) ls) = Inr (map (split_on (CHR '','')) ls)"
  by (induction ls) (simp_all add: csv_feed_plain, simp add: csv_init_def)

text \<open>A file of unquoted lines is read as the split of its lines.\<close>

lemma csv_reader_plain:
  assumes "\<forall>l \<in> set ls. list_all plain_char l \<and> l \<noteq> []"
  shows "csv_reader_rows (concat (map (\<lambda>l. l @ [CHR 0x0A]) ls)) = Inr (map (split_on (CHR '','')) ls)"
proof -
  have "\<forall>l \<in> set ls. CHR 0x0A \<notin> set l \<and> CHR 0x0D \<notin> set l"
    using assms by (auto simp: list_all_iff plain_char_def is_crnl_def)
  then show ?thesis by (simp add: csv_reader_rows_def text_lines_concat csv_rows_plain[OF assms])
qed

text \<open>Reading a cell raises only ordinary exceptions.\<close>

lemma ordinary_csv [ordinary]: "ordinary (csv_reader_rows t)" "ordinary (csv_dict_rows t)"
  using csv_reader_total[of t] by (auto simp: ordinary_def csv_dict_rows_def)

lemma ordinary_row_get [ordinary]: "ordinary (row_get r k)"
  by (simp add: row_get_def ordinary split: option.split)

lemma ordinary_int_of_val [ordinary]: "ordinary (int_of_val v)"
  by (cases v) (simp_all add: ordinary)

end
