(* ===== verification/Chart_Data.thy ===== *)
theory Chart_Data
  imports Chart_Geometry Py_Csv
begin

text \<open>
  The data of \<open>sweep/mkcharts.py\<close>: how the rows of the sweep files become the curves \<open>D\<close>.
  Rows of one product at one rate are repeats and are averaged column by column; a column
  counts when its cell reads as an integer. Each product's points are then sorted by rate.

  The average is \<open>round(sum/len)\<close>: the exact quotient rounded to a double and then, ties to
  even, to an integer. \<open>mean_exact\<close> shows that below \<open>2^52\<close> the detour over the double
  changes nothing.
\<close>

section \<open>The model\<close>

text \<open>\<open>_isint\<close>: the exceptions it catches are the two that \<open>int\<close> raises on a cell.\<close>

definition isint :: "csv_val \<Rightarrow> bool" where
  "isint v = (case int_of_val v of Inr n \<Rightarrow> True | Inl e \<Rightarrow> False)"

text \<open>\<open>{k: int(v) for k, v in r.items() if k != "product" and _isint(v)}\<close>. The key
  \<open>None\<close> of a row that is too long holds a list, which is no integer.\<close>

fun num_column :: "string option \<times> csv_val \<Rightarrow> (string \<times> int) option" where
  "num_column (Some k, v) =
     (if k \<noteq> ''product'' \<and> isint v then (case int_of_val v of Inr n \<Rightarrow> Some (k, n) | Inl e \<Rightarrow> None) else None)"
| "num_column (None, v) = None"

definition num_columns :: "csv_row \<Rightarrow> point" where
  "num_columns r = List.map_filter num_column r"

type_synonym sweep_key = "csv_val \<times> int"

definition row_key :: "csv_row \<Rightarrow> sweep_key res" where
  "row_key r = bindE (row_get r ''product'') (\<lambda>p.
     bindE (bindE (row_get r ''rate'') int_of_val) (\<lambda>n. Inr (p, n)))"

definition acc_row :: "(sweep_key, point list) dict \<Rightarrow> csv_row \<Rightarrow> (sweep_key, point list) dict res" where
  "acc_row acc r = bindE (row_key r) (\<lambda>k. Inr (dict_append k (num_columns r) acc))"

text \<open>\<open>round(sum(x[k] for x in reps) / len(reps))\<close>.\<close>

definition avg_column :: "point list \<Rightarrow> string \<Rightarrow> int res" where
  "avg_column reps k = bindE (mapE (\<lambda>x. pt_get x k) reps) (\<lambda>vs.
     bindE (int_truediv (sum_list vs) (int (length reps))) (\<lambda>q. Inr (rhe q)))"

definition avg_point :: "point list \<Rightarrow> point res" where
  "avg_point reps = mapE (\<lambda>k. bindE (avg_column reps k) (\<lambda>n. Inr (k, n))) (dict_keys (hd reps))"

type_synonym sweep_data = "(csv_val, point list) dict"

definition avg_group :: "sweep_data \<Rightarrow> sweep_key \<times> point list \<Rightarrow> sweep_data res" where
  "avg_group D kr = bindE (avg_point (snd kr)) (\<lambda>a. Inr (dict_append (fst (fst kr)) a D))"

text \<open>\<open>D[p].sort(key=lambda d:d["rate"])\<close>: a stable sort.\<close>

definition rate_of :: "point \<Rightarrow> int" where
  "rate_of d = (case dict_get d ''rate'' of Some n \<Rightarrow> n | None \<Rightarrow> 0)"

definition sort_points :: "point list \<Rightarrow> point list res" where
  "sort_points pts = bindE (mapE (\<lambda>d. pt_get d ''rate'') pts) (\<lambda>_. Inr (sort_key rate_of pts))"

definition sweep_data :: "csv_row list \<Rightarrow> sweep_data res" where
  "sweep_data rows =
     bindE (foldE acc_row [] rows) (\<lambda>acc.
     bindE (foldE avg_group [] acc) (\<lambda>D.
     mapE (\<lambda>(p, pts). bindE (sort_points pts) (\<lambda>s. Inr (p, s))) D))"

section \<open>The average\<close>

lemma rhe_unique:
  fixes x :: "'a::floor_ceiling"
  assumes "\<bar>x - of_int k\<bar> < 1 / 2"
  shows "rhe x = k"
proof -
  have "\<bar>of_int (rhe x) - (of_int k :: 'a)\<bar> < 1" using rhe_error[of x] assms by linarith
  then have "\<bar>(of_int (rhe x - k) :: 'a)\<bar> < of_int 1" by simp
  then have "\<bar>rhe x - k\<bar> < 1" by (simp only: of_int_less_iff flip: of_int_abs)
  then show ?thesis by simp
qed

lemma fl_half_int: "\<bar>m\<bar> < 2 ^ 53 \<Longrightarrow> fl (of_int m / 2) = of_int m / 2"
  using fl_representable[of m "-1"] by simp

lemma fl_quot_error:
  assumes "\<bar>s\<bar> < 2 ^ 52" "0 < n" "n < 2 ^ 52"
  shows "\<bar>fl (of_int s / of_int n) - of_int s / of_int n\<bar> < 1 / (2 * of_int n)"
proof (cases "s = 0")
  case False
  have n: "(0 :: rat) < of_int n" "(of_int n :: rat) < of_int (2 ^ 52)"
    using assms by (simp_all only: of_int_less_iff of_int_0_less_iff)
  have s: "1 \<le> \<bar>of_int s :: rat\<bar>" "\<bar>of_int s :: rat\<bar> < of_int (2 ^ 52)"
    using False assms(1) by (simp_all only: of_int_less_iff of_int_1_le_iff flip: of_int_abs)
  have "2 powi (-1022) \<le> (1 / of_int (2 ^ 52) :: rat)" by simp
  also have "\<dots> \<le> 1 / of_int n" using n by (intro divide_left_mono) auto
  also have "\<dots> \<le> \<bar>of_int s / of_int n\<bar>" using s n by (simp add: abs_divide divide_right_mono)
  finally have "\<bar>fl (of_int s / of_int n) - of_int s / of_int n\<bar> \<le> \<bar>of_int s / of_int n\<bar> / 2 ^ 53"
    by (rule fl_rel_error)
  also have "\<dots> < 1 / (2 * of_int n)" using s n by (simp add: abs_divide field_simps)
  finally show ?thesis .
qed (use assms in simp)

lemma mean_exact:
  assumes "\<bar>s\<bar> < 2 ^ 52" "0 < n" "n < 2 ^ 52"
  shows "rhe (fl (of_int s / of_int n)) = rhe (of_int s / of_int n :: rat)"
proof -
  define q where "q = (of_int s / of_int n :: rat)"
  define k where "k = rhe q"
  have n: "(0 :: rat) < of_int n" using assms by simp
  have e: "\<bar>q - of_int k\<bar> \<le> 1 / 2" using rhe_error[of q] by (simp add: k_def abs_minus_commute)
  have i: "q - of_int k = of_int (2 * s - 2 * k * n) / (2 * of_int n)"
    using n by (simp add: q_def field_simps)
  show ?thesis
  proof (cases "\<bar>q - of_int k\<bar> = 1 / 2")
    case True
    then have "q = of_int (2 * k + 1) / 2 \<or> q = of_int (2 * k - 1) / 2"
      by (auto simp: abs_if field_simps split: if_splits)
    then obtain m where m: "q = of_int m / 2" by blast
    then have "(of_int (m * n) :: rat) = of_int (2 * s)" using n by (simp add: q_def field_simps)
    then have "m * n = 2 * s" by (simp only: of_int_eq_iff)
    then have "\<bar>m\<bar> * n = 2 * \<bar>s\<bar>" using assms(2) by (metis abs_mult abs_numeral abs_of_pos)
    moreover have "\<bar>m\<bar> * 1 \<le> \<bar>m\<bar> * n" using assms(2) by (intro mult_left_mono) auto
    ultimately have "\<bar>m\<bar> < 2 ^ 53" using assms(1) by simp
    then have "fl q = q" unfolding m by (rule fl_half_int)
    then show ?thesis unfolding q_def by (rule arg_cong)
  next
    case False
    then have "\<bar>(of_int (2 * s - 2 * k * n) :: rat)\<bar> < of_int n"
      using e n unfolding i by (simp add: abs_divide field_simps)
    then have "\<bar>2 * s - 2 * k * n\<bar> < n" by (simp only: of_int_less_iff flip: of_int_abs)
    then have "\<bar>2 * s - 2 * k * n\<bar> \<le> n - 1" by simp
    then have "\<bar>(of_int (2 * s - 2 * k * n) :: rat)\<bar> \<le> of_int (n - 1)"
      by (simp only: of_int_le_iff flip: of_int_abs)
    then have "\<bar>q - of_int k\<bar> \<le> 1 / 2 - 1 / (2 * of_int n)"
      using n unfolding i by (simp add: abs_divide field_simps)
    then have "\<bar>fl q - of_int k\<bar> < 1 / 2" using fl_quot_error[OF assms] unfolding q_def by linarith
    then show ?thesis by (simp add: rhe_unique k_def flip: q_def)
  qed
qed

section \<open>The curves\<close>

text \<open>The repeats of one product at one rate, and the mean of a column over repeats.\<close>

definition repeats :: "csv_row list \<Rightarrow> csv_val \<Rightarrow> int \<Rightarrow> point list" where
  "repeats rows p n = map num_columns (filter (\<lambda>r. row_key r = Inr (p, n)) rows)"

definition column_mean :: "point list \<Rightarrow> string \<Rightarrow> int option" where
  "column_mean reps k =
     (if \<forall>x \<in> set reps. dict_get x k \<noteq> None
      then Some (rhe ((\<Sum>x\<leftarrow>reps. of_int (the (dict_get x k))) / of_nat (length reps) :: rat)) else None)"

text \<open>Rows that a sweep writes: a product, an integer rate, the same integer columns in all
  repeats of a point, and values far below the limits of a double.\<close>

definition sweep_rows :: "csv_row list \<Rightarrow> bool" where
  "sweep_rows rows \<longleftrightarrow>
     (\<forall>r \<in> set rows. (\<exists>p n. row_key r = Inr (p, n)) \<and> distinct (dict_keys r) \<and>
        (\<forall>kv \<in> set (num_columns r). \<bar>snd kv\<bar> * int (length rows) < 2 ^ 52)) \<and>
     (\<forall>r \<in> set rows. \<forall>r' \<in> set rows. row_key r = row_key r' \<longrightarrow>
        set (dict_keys (num_columns r)) = set (dict_keys (num_columns r'))) \<and>
     int (length rows) < 2 ^ 52"

lemma dict_keys_simps [simp]: "dict_keys [] = []" "dict_keys ((k, v) # d) = k # dict_keys d"
  by (simp_all add: dict_keys_def)

lemma dict_get_None: "dict_get d k = None \<longleftrightarrow> k \<notin> set (dict_keys d)"
  using dict_get_keys by metis

lemma num_column_Some: "num_column kv = Some (k, n) \<longleftrightarrow>
    fst kv = Some k \<and> k \<noteq> ''product'' \<and> int_of_val (snd kv) = Inr n"
  by (cases kv rule: num_column.cases) (auto simp: isint_def split: sum.splits)

lemma num_columns_get:
  "distinct (dict_keys r) \<Longrightarrow> dict_get (num_columns r) k =
     (if k = ''product'' then None
      else case dict_get r (Some k) of None \<Rightarrow> None | Some v \<Rightarrow> (case int_of_val v of Inr n \<Rightarrow> Some n | Inl e \<Rightarrow> None))"
proof (induction r)
  case (Cons kv r)
  obtain k' v where kv: "kv = (k', v)" by fastforce
  have "k' \<notin> set (dict_keys r)" using Cons.prems by (simp add: kv)
  then show ?case using Cons dict_get_None[of r k']
    by (cases k') (auto simp: kv num_columns_def map_filter_simps isint_def split: sum.splits)
qed (simp add: num_columns_def map_filter_simps)

lemma num_columns_distinct: "distinct (dict_keys r) \<Longrightarrow> distinct (dict_keys (num_columns r))"
proof (induction r)
  case (Cons kv r)
  have "dict_keys (num_columns (kv # r)) =
      (case num_column kv of None \<Rightarrow> [] | Some (k, n) \<Rightarrow> [k]) @ dict_keys (num_columns r)"
    by (auto simp: num_columns_def map_filter_simps split: option.splits)
  moreover have "k \<notin> set (dict_keys (num_columns r))" if "num_column kv = Some (k, n)" for k n
  proof -
    have "Some k \<notin> set (dict_keys r)" using that Cons.prems by (cases kv) (auto simp: num_column_Some)
    then have "dict_get r (Some k) = None" by (simp add: dict_get_None)
    then have "dict_get (num_columns r) k = None" using Cons.prems num_columns_get[of r k] by (cases kv) simp
    then show ?thesis by (simp add: dict_get_None)
  qed
  ultimately show ?case using Cons by (cases kv) (auto split: option.splits)
qed (simp add: num_columns_def map_filter_simps)

lemma num_columns_rate:
  assumes "distinct (dict_keys r)" "row_key r = Inr (p, n)"
  shows "dict_get (num_columns r) ''rate'' = Some n"
  using assms by (auto simp: num_columns_get row_key_def row_get_def py_res split: option.splits)

text \<open>The three loops as grouping.\<close>

lemma acc_rows:
  "foldE acc_row [] rows = bindE (mapE (\<lambda>r. bindE (row_key r) (\<lambda>k. Inr (k, num_columns r))) rows)
     (\<lambda>kas. Inr (foldl (\<lambda>d (k, a). dict_append k a d) [] kas))"
proof -
  have eq: "acc_row = (\<lambda>acc r. bindE (bindE (row_key r) (\<lambda>k. Inr (k, num_columns r))) (\<lambda>ka. Inr ((\<lambda>d (k, a). dict_append k a d) acc ka)))"
    by (simp add: fun_eq_iff acc_row_def bindE_assoc)
  show ?thesis unfolding eq by (rule foldE_mapE)
qed

lemma avg_groups:
  "foldE avg_group [] acc = bindE (mapE (\<lambda>kr. bindE (avg_point (snd kr)) (\<lambda>a. Inr (fst (fst kr), a))) acc)
     (\<lambda>kas. Inr (foldl (\<lambda>d (k, a). dict_append k a d) [] kas))"
proof -
  have eq: "avg_group = (\<lambda>D kr. bindE (bindE (avg_point (snd kr)) (\<lambda>a. Inr (fst (fst kr), a))) (\<lambda>ka. Inr ((\<lambda>d (k, a). dict_append k a d) D ka)))"
    by (simp add: fun_eq_iff avg_group_def bindE_assoc)
  show ?thesis unfolding eq by (rule foldE_mapE)
qed

text \<open>One averaged point.\<close>

lemma avg_column_mean:
  assumes "reps \<noteq> []" "int (length reps) < 2 ^ 52"
    "\<And>x. x \<in> set reps \<Longrightarrow> \<exists>v. dict_get x k = Some v \<and> \<bar>v\<bar> * int (length reps) < 2 ^ 52"
  shows "\<exists>m. avg_column reps k = Inr m \<and> column_mean reps k = Some m"
proof -
  define f where "f x = the (dict_get x k)" for x :: point
  have f: "pt_get x k = Inr (f x)" "\<bar>f x\<bar> * int (length reps) < 2 ^ 52" if "x \<in> set reps" for x
    using assms(3)[OF that] by (auto simp: f_def dict_index_def)
  let ?s = "sum_list (map f reps)" and ?n = "int (length reps)"
  have n: "0 < ?n" using assms(1) by simp
  have s: "\<bar>?s\<bar> < 2 ^ 52"
  proof -
    have "\<bar>?s\<bar> \<le> (\<Sum>x\<leftarrow>reps. \<bar>f x\<bar>)" using sum_list_abs[of "map f reps"] by (simp add: comp_def)
    then have "\<bar>?s\<bar> * ?n \<le> (\<Sum>x\<leftarrow>reps. \<bar>f x\<bar>) * ?n" by (intro mult_right_mono) auto
    also have "\<dots> = (\<Sum>x\<leftarrow>reps. \<bar>f x\<bar> * ?n)" by (rule sum_list_mult_const[symmetric])
    also have "\<dots> \<le> (\<Sum>x\<leftarrow>reps. 2 ^ 52 - 1)" using f(2) by (intro sum_list_mono) fastforce
    also have "\<dots> = (2 ^ 52 - 1) * ?n" by (simp add: sum_list_triv)
    finally have "\<bar>?s\<bar> \<le> 2 ^ 52 - 1" using n by (simp only: mult_le_cancel_right_pos)
    then show ?thesis by simp
  qed
  have "mapE (\<lambda>x. pt_get x k) reps = Inr (map f reps)" by (rule mapE_total) (rule f)
  moreover have "int_truediv ?s ?n = Inr (fl (of_int ?s / of_int ?n))"
    using s n by (intro int_truediv_small) auto
  moreover have "(\<Sum>x\<leftarrow>reps. (of_int (f x) :: rat)) = of_int ?s" by (induction reps) auto
  moreover have "\<forall>x \<in> set reps. dict_get x k \<noteq> None" using assms(3) by fastforce
  ultimately show ?thesis using mean_exact[OF s n assms(2)]
    by (simp add: avg_column_def column_mean_def f_def)
qed

lemma avg_point_mean:
  assumes "reps \<noteq> []" "int (length reps) < 2 ^ 52"
    "\<And>x. x \<in> set reps \<Longrightarrow> set (dict_keys x) = set (dict_keys (hd reps))"
    "\<And>x k v. x \<in> set reps \<Longrightarrow> dict_get x k = Some v \<Longrightarrow> \<bar>v\<bar> * int (length reps) < 2 ^ 52"
  shows "\<exists>a. avg_point reps = Inr a \<and> (\<forall>k. dict_get a k = column_mean reps k)"
proof -
  let ?ks = "dict_keys (hd reps)"
  define m where "m k = the (column_mean reps k)" for k
  have c: "avg_column reps k = Inr (m k)" "column_mean reps k = Some (m k)" if k: "k \<in> set ?ks" for k
  proof -
    have "\<exists>v. dict_get x k = Some v \<and> \<bar>v\<bar> * int (length reps) < 2 ^ 52" if x: "x \<in> set reps" for x
      using assms(3)[OF x] assms(4)[OF x, of k] k dict_get_None[of x k] by (cases "dict_get x k") auto
    from avg_column_mean[OF assms(1,2) this] show "avg_column reps k = Inr (m k)" "column_mean reps k = Some (m k)"
      by (auto simp: m_def)
  qed
  have "avg_point reps = Inr (map (\<lambda>k. (k, m k)) ?ks)"
    unfolding avg_point_def by (rule mapE_total) (simp add: c)
  moreover have "dict_get (map (\<lambda>k. (k, m k)) ks) k = (if k \<in> set ks then Some (m k) else None)" for ks k
    by (induction ks) auto
  moreover have "column_mean reps k = None" if "k \<notin> set ?ks" for k
    using that assms(1) dict_get_None[of "hd reps" k] by (auto simp: column_mean_def intro!: bexI[of _ "hd reps"])
  ultimately show ?thesis using c(2) by auto
qed

lemma repeats_mem: "x \<in> set (repeats rows p n) \<longleftrightarrow> (\<exists>r \<in> set rows. row_key r = Inr (p, n) \<and> x = num_columns r)"
  by (auto simp: repeats_def)

lemma sweep_rowsD:
  assumes "sweep_rows rows" "r \<in> set rows"
  shows "row_key r = Inr (projr (row_key r))" and "distinct (dict_keys r)"
    and "kv \<in> set (num_columns r) \<Longrightarrow> \<bar>snd kv\<bar> * int (length rows) < 2 ^ 52"
    and "r' \<in> set rows \<Longrightarrow> row_key r = row_key r' \<Longrightarrow>
      set (dict_keys (num_columns r)) = set (dict_keys (num_columns r'))"
proof -
  obtain p n where "row_key r = Inr (p, n)" using assms unfolding sweep_rows_def by meson
  then show "row_key r = Inr (projr (row_key r))" by simp
  show "distinct (dict_keys r)" using assms unfolding sweep_rows_def by meson
  show "\<bar>snd kv\<bar> * int (length rows) < 2 ^ 52" if "kv \<in> set (num_columns r)"
    using assms that unfolding sweep_rows_def by meson
  show "set (dict_keys (num_columns r)) = set (dict_keys (num_columns r'))"
    if "r' \<in> set rows" "row_key r = row_key r'"
    using assms that unfolding sweep_rows_def by meson
qed

text \<open>The rate of an averaged point is the rate of its repeats.\<close>

lemma repeats_rate:
  assumes "sweep_rows rows" "x \<in> set (repeats rows p n)"
  shows "dict_get x ''rate'' = Some n"
  using assms(2) num_columns_rate sweep_rowsD(2)[OF assms(1)] unfolding repeats_mem by blast

lemma column_mean_rate:
  assumes "sweep_rows rows" "repeats rows p n \<noteq> []"
  shows "column_mean (repeats rows p n) ''rate'' = Some n"
proof -
  let ?R = "repeats rows p n"
  have r: "dict_get x ''rate'' = Some n" if "x \<in> set ?R" for x using repeats_rate[OF assms(1) that] .
  then have "(\<Sum>x\<leftarrow>?R. (of_int (the (dict_get x ''rate'')) :: rat)) = (\<Sum>x\<leftarrow>?R. of_int n)"
    by (intro arg_cong[of _ _ sum_list] map_cong) auto
  also have "\<dots> = of_nat (length ?R) * of_int n" by (simp add: sum_list_triv)
  finally show ?thesis using r assms(2) by (simp add: column_mean_def)
qed

lemma avg_point_repeats:
  assumes "sweep_rows rows" "repeats rows p n \<noteq> []"
  shows "\<exists>a. avg_point (repeats rows p n) = Inr a \<and>
    (\<forall>k. dict_get a k = column_mean (repeats rows p n) k) \<and> dict_get a ''rate'' = Some n"
proof -
  let ?R = "repeats rows p n"
  have len: "length ?R \<le> length rows" by (simp add: repeats_def)
  have "int (length ?R) < 2 ^ 52" using assms(1) len by (simp add: sweep_rows_def)
  moreover have "set (dict_keys x) = set (dict_keys (hd ?R))" if x: "x \<in> set ?R" for x
  proof -
    have "hd ?R \<in> set ?R" using assms(2) by simp
    then obtain r r' where r: "r \<in> set rows" "r' \<in> set rows" "row_key r = row_key r'"
        "x = num_columns r" "hd ?R = num_columns r'"
      using x unfolding repeats_mem by metis
    show ?thesis unfolding r(4,5) by (rule sweep_rowsD(4)[OF assms(1) r(1-3)])
  qed
  moreover have "\<bar>v\<bar> * int (length ?R) < 2 ^ 52" if x: "x \<in> set ?R" and v: "dict_get x k = Some v" for x k v
  proof -
    obtain r where r: "r \<in> set rows" "x = num_columns r" using x unfolding repeats_mem by blast
    have "\<bar>v\<bar> * int (length rows) < 2 ^ 52"
      using sweep_rowsD(3)[OF assms(1) r(1), of "(k, v)"] dict_get_Some_mem[OF v] r(2) by simp
    moreover have "\<bar>v\<bar> * int (length ?R) \<le> \<bar>v\<bar> * int (length rows)" using len by (intro mult_left_mono) auto
    ultimately show ?thesis by linarith
  qed
  ultimately have "\<exists>a. avg_point ?R = Inr a \<and> (\<forall>k. dict_get a k = column_mean ?R k)"
    by (intro avg_point_mean assms(2))
  then show ?thesis using column_mean_rate[OF assms] by auto
qed

lemma map_sort_key: "map f (sort_key f xs) = sort (map f xs)"
  by (rule properties_for_sort[symmetric]) simp_all

text \<open>The groups of repeats.\<close>

definition sweep_groups :: "csv_row list \<Rightarrow> (sweep_key, point list) dict" where
  "sweep_groups rows = foldl (\<lambda>d (k, a). dict_append k a d) [] (map (\<lambda>r. (projr (row_key r), num_columns r)) rows)"

lemma acc_groups: "sweep_rows rows \<Longrightarrow> foldE acc_row [] rows = Inr (sweep_groups rows)"
proof -
  assume "sweep_rows rows"
  then have "mapE (\<lambda>r. bindE (row_key r) (\<lambda>k. Inr (k, num_columns r))) rows =
      Inr (map (\<lambda>r. (projr (row_key r), num_columns r)) rows)"
    using sweep_rowsD(1) by (intro mapE_total) (metis bindE_Inr)
  then show ?thesis by (simp add: acc_rows sweep_groups_def)
qed

lemma sweep_groups_get:
  assumes "sweep_rows rows"
  shows "dict_get (sweep_groups rows) (p, n) = (let R = repeats rows p n in if R = [] then None else Some R)"
proof -
  have "filter (\<lambda>r. projr (row_key r) = (p, n)) rows = filter (\<lambda>r. row_key r = Inr (p, n)) rows"
    by (rule filter_cong) (metis sweep_rowsD(1)[OF assms] sum.sel(2))+
  then have "map snd (filter (\<lambda>q. fst q = (p, n)) (map (\<lambda>r. (projr (row_key r), num_columns r)) rows)) =
      repeats rows p n"
    by (simp add: repeats_def filter_map comp_def)
  then show ?thesis unfolding sweep_groups_def alist_group.group_get by simp
qed

lemma sweep_groups_distinct: "distinct (dict_keys (sweep_groups rows))"
  unfolding sweep_groups_def by (rule alist_group.group_distinct)

lemma sweep_groups_mem:
  "sweep_rows rows \<Longrightarrow> ((p, n), R) \<in> set (sweep_groups rows) \<longleftrightarrow> R = repeats rows p n \<and> R \<noteq> []"
  using sweep_groups_get[of rows p n] dict_get_mem[OF sweep_groups_distinct, of "(p, n)" R rows]
    dict_get_Some_mem[of "sweep_groups rows" "(p, n)" R] by (auto simp: Let_def split: if_splits)

definition rates :: "csv_row list \<Rightarrow> csv_val \<Rightarrow> int set" where
  "rates rows p = {n. \<exists>r \<in> set rows. row_key r = Inr (p, n)}"

lemma repeats_rates: "repeats rows p n \<noteq> [] \<longleftrightarrow> n \<in> rates rows p"
  by (auto simp: repeats_def rates_def filter_empty_conv)

text \<open>A mean lies between the bounds of its values.\<close>

lemma column_mean_between:
  assumes "reps \<noteq> []" "\<forall>x \<in> set reps. \<exists>v. dict_get x k = Some v \<and> a \<le> v \<and> v \<le> b"
  shows "\<exists>m. column_mean reps k = Some m \<and> a \<le> m \<and> m \<le> b"
proof -
  define f where "f x = the (dict_get x k)" for x :: point
  have f: "\<forall>x \<in> set reps. dict_get x k \<noteq> None \<and> a \<le> f x \<and> f x \<le> b" using assms(2) by (auto simp: f_def)
  let ?s = "\<Sum>x\<leftarrow>reps. (of_int (f x) :: rat)" and ?n = "of_nat (length reps) :: rat"
  have n: "0 < ?n" using assms(1) by simp
  have "(\<Sum>x\<leftarrow>reps. (of_int a :: rat)) \<le> ?s" "?s \<le> (\<Sum>x\<leftarrow>reps. (of_int b :: rat))"
    using f by (auto intro!: sum_list_mono)
  then have "of_int a \<le> ?s / ?n" "?s / ?n \<le> of_int b"
    using n by (simp_all add: sum_list_triv field_simps)
  then have "a \<le> rhe (?s / ?n)" "rhe (?s / ?n) \<le> b" by (metis rhe_mono rhe_of_int)+
  then show ?thesis using f by (auto simp: column_mean_def f_def)
qed

text \<open>The groups of one product, and the averaged point of a group.\<close>

definition product_groups :: "csv_row list \<Rightarrow> csv_val \<Rightarrow> (sweep_key \<times> point list) list" where
  "product_groups rows p = filter (\<lambda>kr. fst (fst kr) = p) (sweep_groups rows)"

definition avg_of :: "sweep_key \<times> point list \<Rightarrow> point" where
  "avg_of kr = projr (avg_point (snd kr))"

lemma avg_of_group:
  assumes "sweep_rows rows" "kr \<in> set (sweep_groups rows)"
  shows "avg_point (snd kr) = Inr (avg_of kr)" and "rate_of (avg_of kr) = snd (fst kr)"
    and "dict_get (avg_of kr) ''rate'' = Some (snd (fst kr))"
    and "dict_get (avg_of kr) k = column_mean (repeats rows (fst (fst kr)) (snd (fst kr))) k"
proof -
  obtain p n R where kr: "kr = ((p, n), R)" by (metis prod.exhaust)
  then have "R = repeats rows p n" "R \<noteq> []" using assms sweep_groups_mem by auto
  then show "avg_point (snd kr) = Inr (avg_of kr)" "rate_of (avg_of kr) = snd (fst kr)"
    "dict_get (avg_of kr) ''rate'' = Some (snd (fst kr))"
    "dict_get (avg_of kr) k = column_mean (repeats rows (fst (fst kr)) (snd (fst kr))) k"
    using avg_point_repeats[OF assms(1), of p n] by (auto simp: kr avg_of_def rate_of_def)
qed

lemma product_groups_rates:
  assumes "sweep_rows rows"
  shows "(\<lambda>kr. snd (fst kr)) ` set (product_groups rows p) = rates rows p"
proof (intro set_eqI iffI)
  fix n assume "n \<in> (\<lambda>kr. snd (fst kr)) ` set (product_groups rows p)"
  then obtain R where "((p, n), R) \<in> set (sweep_groups rows)" by (auto simp: product_groups_def)
  then show "n \<in> rates rows p" using sweep_groups_mem[OF assms] repeats_rates by metis
next
  fix n assume "n \<in> rates rows p"
  then have "((p, n), repeats rows p n) \<in> set (sweep_groups rows)"
    using sweep_groups_mem[OF assms] repeats_rates by metis
  then show "n \<in> (\<lambda>kr. snd (fst kr)) ` set (product_groups rows p)" by (force simp: product_groups_def)
qed

lemma product_groups_distinct: "distinct (map (\<lambda>kr. snd (fst kr)) (product_groups rows p))"
proof -
  have "distinct (map fst (sweep_groups rows))" using sweep_groups_distinct by (simp add: dict_keys_def)
  then have "distinct (map fst (product_groups rows p))" unfolding product_groups_def by (rule distinct_map_filter)
  then show ?thesis by (auto simp: distinct_map product_groups_def inj_on_def)
qed

text \<open>The sorted curve of one product.\<close>

definition sweep_curve :: "csv_row list \<Rightarrow> csv_val \<Rightarrow> point list" where
  "sweep_curve rows p = sort_key rate_of (map avg_of (product_groups rows p))"

lemma curve_rates:
  assumes "sweep_rows rows"
  shows "map rate_of (sweep_curve rows p) = sorted_list_of_set (rates rows p)"
proof -
  have "map rate_of (map avg_of (product_groups rows p)) = map (\<lambda>kr. snd (fst kr)) (product_groups rows p)"
    using avg_of_group(2)[OF assms] by (simp add: product_groups_def)
  then have "map rate_of (sweep_curve rows p) = sort (map (\<lambda>kr. snd (fst kr)) (product_groups rows p))"
    unfolding sweep_curve_def by (simp only: map_sort_key)
  also have "\<dots> = sorted_list_of_set (rates rows p)"
    using product_groups_distinct[of rows p] product_groups_rates[OF assms, of p]
    by (metis distinct_sort list.set_map set_sort sorted_list_of_set.idem_if_sorted_distinct sorted_sort)
  finally show ?thesis .
qed

lemma curve_point:
  assumes "sweep_rows rows" "pt \<in> set (sweep_curve rows p)"
  shows "dict_get pt k = column_mean (repeats rows p (rate_of pt)) k" and "repeats rows p (rate_of pt) \<noteq> []"
proof -
  obtain kr where kr: "kr \<in> set (sweep_groups rows)" "fst (fst kr) = p" "pt = avg_of kr"
    using assms(2) by (auto simp: sweep_curve_def product_groups_def)
  then show "dict_get pt k = column_mean (repeats rows p (rate_of pt)) k"
    using avg_of_group(2,4)[OF assms(1) kr(1)] by simp
  show "repeats rows p (rate_of pt) \<noteq> []"
    using kr avg_of_group(2)[OF assms(1) kr(1)] sweep_groups_mem[OF assms(1)] by (metis prod.collapse)
qed

lemma sweep_data_curves:
  assumes "sweep_rows rows"
  shows "\<exists>D. sweep_data rows = Inr D \<and>
    (\<forall>p. dict_get D p = (if rates rows p = {} then None else Some (sweep_curve rows p)))"
proof -
  note A = avg_of_group[OF assms]
  let ?pas = "map (\<lambda>kr. (fst (fst kr), avg_of kr)) (sweep_groups rows)"
  define D0 where "D0 = foldl (\<lambda>d (k, a). dict_append k a d) [] ?pas"
  have "mapE (\<lambda>kr. bindE (avg_point (snd kr)) (\<lambda>a. Inr (fst (fst kr), a))) (sweep_groups rows) = Inr ?pas"
    by (rule mapE_total) (simp add: A)
  then have avg: "foldE avg_group [] (sweep_groups rows) = Inr D0" by (simp add: avg_groups D0_def)
  have empty: "product_groups rows p = [] \<longleftrightarrow> rates rows p = {}" for p
    using product_groups_rates[OF assms, of p] by auto
  have get: "dict_get D0 p = (if rates rows p = {} then None else Some (map avg_of (product_groups rows p)))" for p
    unfolding D0_def alist_group.group_get by (simp add: filter_map comp_def Let_def product_groups_def flip: empty)
  have "sort_points pts = Inr (sort_key rate_of pts)" if "(p, pts) \<in> set D0" for p pts
  proof -
    have "distinct (dict_keys D0)" unfolding D0_def by (rule alist_group.group_distinct)
    then have "pts = map avg_of (product_groups rows p)" using dict_get_mem[OF _ that] get[of p] by (auto split: if_splits)
    then have "mapE (\<lambda>d. pt_get d ''rate'') pts = Inr (map rate_of pts)"
      using A by (intro mapE_total) (auto simp: product_groups_def dict_index_def)
    then show ?thesis by (simp add: sort_points_def)
  qed
  then have "sweep_data rows = Inr (map (\<lambda>(p, pts). (p, sort_key rate_of pts)) D0)"
    by (auto simp: sweep_data_def acc_groups[OF assms] avg intro!: mapE_total)
  then show ?thesis by (auto simp: dict_get_map get sweep_curve_def)
qed

text \<open>C4: the curves that \<open>mkcharts.py\<close> draws are the means of the measurements. On the rows
  of any number of sweep files, each with a product, an integer rate and the same integer
  columns in its repeats, the aggregation succeeds; a product has a curve exactly when it has
  a row; the curve has exactly one point per rate measured, in increasing order of rate; and
  every column of a point is the exact mean of that column over all repeats of that product
  at that rate, rounded half to even.\<close>

theorem sweep_data_correct:
  assumes "sweep_rows rows"
  shows "\<exists>D. sweep_data rows = Inr D \<and>
    (\<forall>p. dict_get D p = None \<longleftrightarrow> rates rows p = {}) \<and>
    (\<forall>p pts. dict_get D p = Some pts \<longrightarrow>
       map rate_of pts = sorted_list_of_set (rates rows p) \<and>
       (\<forall>pt \<in> set pts. \<forall>k. dict_get pt k = column_mean (repeats rows p (rate_of pt)) k))"
proof -
  obtain D where D: "sweep_data rows = Inr D"
      "\<And>p. dict_get D p = (if rates rows p = {} then None else Some (sweep_curve rows p))"
    using sweep_data_curves[OF assms] by blast
  show ?thesis using D curve_rates[OF assms] curve_point(1)[OF assms] by (auto split: if_splits)
qed

text \<open>The loop that averages keeps the groups distinct and not empty.\<close>

lemma avg_group_wf:
  assumes "avg_group D kr = Inr D'" "distinct (dict_keys D)" "\<forall>pp \<in> set D. snd pp \<noteq> []"
  shows "distinct (dict_keys D') \<and> (\<forall>pp \<in> set D'. snd pp \<noteq> [])"
proof -
  obtain a where D': "D' = dict_append (fst (fst kr)) a D" using assms(1) by (auto simp: avg_group_def py_res)
  have "\<forall>pp \<in> set (dict_set k (vs @ [a]) D). snd pp \<noteq> []" for k vs using assms(3) by (induction D) (fastforce split: if_splits)+
  then show ?thesis using alist.inv_put[OF assms(2)] by (simp add: D' dict_append_def)
qed

lemma avg_groups_wf:
  "foldE avg_group D acc = Inr D' \<Longrightarrow> distinct (dict_keys D) \<Longrightarrow> \<forall>pp \<in> set D. snd pp \<noteq> [] \<Longrightarrow>
   distinct (dict_keys D') \<and> (\<forall>pp \<in> set D'. snd pp \<noteq> [])"
proof (induction acc arbitrary: D)
  case (Cons kr acc)
  then obtain E where "avg_group D kr = Inr E" "foldE avg_group E acc = Inr D'" by (auto simp: py_res)
  then show ?case using Cons avg_group_wf by blast
qed simp

text \<open>C17: what every later step may rely on. Whatever the input files hold, if the aggregation
  returns at all, the result is a dictionary with distinct products; no curve is empty; every
  point of a curve has a rate; and the points of a curve are in increasing order of rate.\<close>

theorem sweep_data_wf:
  assumes "sweep_data rows = Inr D"
  shows "distinct (dict_keys D) \<and>
    (\<forall>(p, pts) \<in> set D. pts \<noteq> [] \<and> sorted (map rate_of pts) \<and> (\<forall>pt \<in> set pts. dict_get pt ''rate'' \<noteq> None))"
proof -
  obtain acc D0 where D0: "foldE avg_group [] acc = Inr D0" "mapE (\<lambda>(p, pts). bindE (sort_points pts) (\<lambda>s. Inr (p, s))) D0 = Inr D"
    using assms by (auto simp: sweep_data_def py_res)
  have wf: "distinct (dict_keys D0)" "\<forall>pp \<in> set D0. snd pp \<noteq> []" using avg_groups_wf[OF D0(1)] by auto
  have all2: "list_all2 (\<lambda>pp qq. fst qq = fst pp \<and> sort_points (snd pp) = Inr (snd qq)) D0 D"
    using D0(2) unfolding mapE_eq_Inr by (rule list_all2_mono) (auto simp: py_res)
  then have "dict_keys D = dict_keys D0" unfolding dict_keys_def by (induction rule: list_all2_induct) auto
  moreover have "pts \<noteq> [] \<and> sorted (map rate_of pts) \<and> (\<forall>pt \<in> set pts. dict_get pt ''rate'' \<noteq> None)"
    if m: "(p, pts) \<in> set D" for p pts
  proof -
    obtain i where i: "i < length D" "D ! i = (p, pts)" using m by (auto simp: in_set_conv_nth)
    then have "sort_points (snd (D0 ! i)) = Inr pts" "D0 ! i \<in> set D0"
      using list_all2_nthD2[OF all2, of i] list_all2_lengthD[OF all2] by auto
    then obtain q where q: "mapE (\<lambda>d. pt_get d ''rate'') (snd (D0 ! i)) = Inr q" "pts = sort_key rate_of (snd (D0 ! i))" "snd (D0 ! i) \<noteq> []"
      using wf(2) by (auto simp: sort_points_def py_res)
    have "\<forall>pt \<in> set (snd (D0 ! i)). dict_get pt ''rate'' \<noteq> None"
      using q(1) unfolding mapE_eq_Inr list_all2_conv_all_nth by (fastforce simp: in_set_conv_nth dict_index_def split: option.splits)
    then show ?thesis using q(2,3) by (metis length_0_conv length_sort set_sort sorted_sort_key)
  qed
  ultimately show ?thesis using wf(1) by auto
qed

definition sample_rows :: "csv_row list" where
  "sample_rows = map (dict_row [''product'', ''rate'', ''achieved'', ''p50'', ''fleet''])
     [[''braft'', ''100000'', ''99990'', ''900'', ''c7a''], [''braft'', ''50000'', ''50000'', ''640'', ''c7a''],
      [''braft'', ''100000'', ''99981'', ''905'', ''c7a'']]"

lemmas row_eval = dict_row_def row_key_def row_get_def py_int_eval num_columns_def map_filter_simps isint_def

lemma sample_rows_sweep: "sweep_rows sample_rows" "row_key (hd sample_rows) = Inr (CStr ''braft'', 100000)"
  by (simp_all add: sample_rows_def sweep_rows_def row_eval)

theorem sweep_data_correct_witness:
  "\<exists>D pts. sweep_data sample_rows = Inr D \<and> dict_get D (CStr ''braft'') = Some pts \<and>
    map rate_of pts = sorted_list_of_set (rates sample_rows (CStr ''braft''))"
proof -
  obtain D where D: "sweep_data sample_rows = Inr D" "dict_get D (CStr ''braft'') = None \<longleftrightarrow> rates sample_rows (CStr ''braft'') = {}"
      "\<forall>pts. dict_get D (CStr ''braft'') = Some pts \<longrightarrow>
         map rate_of pts = sorted_list_of_set (rates sample_rows (CStr ''braft''))"
    using sweep_data_correct[OF sample_rows_sweep(1)] by blast
  have "hd sample_rows \<in> set sample_rows" by (simp add: sample_rows_def)
  then have "rates sample_rows (CStr ''braft'') \<noteq> {}" using sample_rows_sweep(2) unfolding rates_def by blast
  then show ?thesis using D by blast
qed


theorem sweep_data_wf_witness:
  "\<exists>D. sweep_data sample_rows = Inr D \<and> distinct (dict_keys D)"
proof -
  obtain D where "sweep_data sample_rows = Inr D" using sweep_data_curves[OF sample_rows_sweep(1)] by blast
  then show ?thesis using sweep_data_wf by blast
qed

end
