(* ===== verification/Chart_Layout.thy ===== *)
theory Chart_Layout
  imports Chart_Geometry
begin

text \<open>
  The text layout of \<open>sweep/mkcharts.py\<close>: the wrapping legend (\<open>_legend_w\<close>,
  \<open>legend_rows\<close>, \<open>legend\<close>) and the greedy wrapping of a subtitle (\<open>wrap_sub\<close>).
  \<open>legend_rows\<close> predicts, before the canvas is sized, how many rows \<open>legend\<close> will draw;
  the theorem of this theory is that the prediction is right and that no entry runs past the
  right edge unless it stands alone on its row.

  The cursor \<open>lx\<close> is an \<open>int\<close> at the start of a row and a \<open>float\<close> after the first
  entry, and it is printed, so it is a \<^typ>\<open>pynum\<close>.
\<close>

section \<open>The legend\<close>

text \<open>\<open>26+len(lab)*6.6\<close>.\<close>

definition legend_w :: "string \<Rightarrow> rat" where
  "legend_w lab = fl (26 + fl (of_int (py_len lab) * fl (66 / 10)))"

text \<open>\<open>lx+w\<close> for a float \<open>w\<close>, and \<open>lx+n\<close> for an integer literal.\<close>

definition plus_float :: "pynum \<Rightarrow> rat \<Rightarrow> rat" where
  "plus_float lx w = fl (num_val lx + w)"

fun plus_lit :: "pynum \<Rightarrow> int \<Rightarrow> pynum" where
  "plus_lit (PyInt a) n = PyInt (a + n)"
| "plus_lit (PyFloat x) n = PyFloat (fl (x + of_int n))"

text \<open>\<open>lx>L and lx+w>maxx\<close>.\<close>

definition legend_wraps :: "int \<Rightarrow> int \<Rightarrow> pynum \<Rightarrow> rat \<Rightarrow> bool" where
  "legend_wraps L maxx lx w \<longleftrightarrow> of_int L < num_val lx \<and> of_int maxx < plus_float lx w"

definition legend_rows_step :: "int \<Rightarrow> int \<Rightarrow> int \<times> pynum \<Rightarrow> string \<times> string \<Rightarrow> int \<times> pynum" where
  "legend_rows_step L maxx s item =
     (let w = legend_w (fst item);
          (rows, lx) = (if legend_wraps L maxx (snd s) w then (fst s + 1, PyInt L) else s)
      in (rows, PyFloat (plus_float lx w)))"

definition legend_rows :: "(string \<times> string) list \<Rightarrow> int \<Rightarrow> int \<Rightarrow> int" where
  "legend_rows items L maxx = fst (foldl (legend_rows_step L maxx) (1, PyInt L) items)"

definition legend_entry :: "pynum \<Rightarrow> int \<Rightarrow> string \<times> string \<Rightarrow> svg list" where
  "legend_entry lx y item =
     [Elem ''circle'' [(''cx'', ANum (plus_lit lx 5)), (''cy'', AInt y), (''r'', AStr ''4.5''), (''fill'', AStr (snd item))] [],
      text_elem [(''x'', ANum (plus_lit lx 16)), (''y'', AInt (y + 4)), (''font-size'', AStr ''11''), (''fill'', AStr INK2)] (fst item)]"

text \<open>The drawing loop; \<open>maxx\<close> is \<open>None\<close> when no wrapping is asked for.\<close>

fun legend_loop :: "int \<Rightarrow> int option \<Rightarrow> int \<Rightarrow> pynum \<Rightarrow> (string \<times> string) list \<Rightarrow> svg list" where
  "legend_loop L maxx y lx [] = []"
| "legend_loop L maxx y lx (item # items) =
     (let w = legend_w (fst item);
          (y', lx') = (case maxx of
              Some m \<Rightarrow> if legend_wraps L m lx w then (y + 18, PyInt L) else (y, lx)
            | None \<Rightarrow> (y, lx))
      in legend_entry lx' y' item @ legend_loop L maxx y' (PyFloat (plus_float lx' w)) items)"

definition legend :: "int \<Rightarrow> int \<Rightarrow> (string \<times> string) list \<Rightarrow> int option \<Rightarrow> svg list" where
  "legend L H items maxx0 =
     (let maxx = (if maxx0 = Some 0 then None else maxx0);
          rows = (case maxx of Some m \<Rightarrow> legend_rows items L m | None \<Rightarrow> 1);
          y = H - 16 - (rows - 1) * 18
      in legend_loop L maxx y (PyInt L) items)"

section \<open>Wrapping a subtitle\<close>

definition wrap_step :: "int \<Rightarrow> string list \<times> string \<Rightarrow> string \<Rightarrow> string list \<times> string" where
  "wrap_step budget s w =
     (let (lines, cur) = s in
      if cur \<noteq> [] \<and> py_len cur + 1 + py_len w > budget then (lines @ [cur], w)
      else (lines, if cur \<noteq> [] then cur @ '' '' @ w else w))"

definition wrap_sub :: "string \<Rightarrow> int \<Rightarrow> string list" where
  "wrap_sub sub budget =
     (let (lines, cur) = foldl (wrap_step budget) ([], []) (split_on (CHR '' '') sub)
      in if cur \<noteq> [] then lines @ [cur] else lines)"

lemma wrap_step_pair:
  "wrap_step budget (lines, cur) w =
     (if cur \<noteq> [] \<and> py_len cur + 1 + py_len w > budget then (lines @ [cur], w)
      else (lines, if cur \<noteq> [] then cur @ '' '' @ w else w))"
  by (simp add: wrap_step_def)

section \<open>The rows drawn are the rows predicted\<close>

text \<open>Where the entries go, as the drawing loop computes it.\<close>

fun legend_places :: "int \<Rightarrow> int \<Rightarrow> int \<Rightarrow> pynum \<Rightarrow> (string \<times> string) list \<Rightarrow> (pynum \<times> int) list" where
  "legend_places L m y lx [] = []"
| "legend_places L m y lx (item # items) =
     (let w = legend_w (fst item);
          (y', lx') = (if legend_wraps L m lx w then (y + 18, PyInt L) else (y, lx))
      in (lx', y') # legend_places L m y' (PyFloat (plus_float lx' w)) items)"

lemma length_legend_places [simp]: "length (legend_places L m y lx items) = length items"
  by (induction items arbitrary: y lx) (auto simp: Let_def split: prod.splits)

lemma legend_loop_places:
  "legend_loop L (Some m) y lx items =
     concat (map2 (\<lambda>p item. legend_entry (fst p) (snd p) item) (legend_places L m y lx items) items)"
  by (induction items arbitrary: y lx) (auto simp: Let_def split: prod.splits)

lemma legend_rows_from:
  "fst (foldl (legend_rows_step L m) (rows, lx) items) =
     rows + (if items = [] then 0 else (snd (last (legend_places L m y lx items)) - y) div 18) \<and>
   (\<forall>p \<in> set (legend_places L m y lx items). 18 dvd snd p - y \<and> y \<le> snd p \<and> snd p \<le> snd (last (legend_places L m y lx items)))"
proof (induction items arbitrary: rows y lx)
  case (Cons item items)
  let ?w = "legend_w (fst item)"
  define y' lx' d where "y' = (if legend_wraps L m lx ?w then y + 18 else y)"
    and "lx' = (if legend_wraps L m lx ?w then PyInt L else lx)"
    and "d = (if legend_wraps L m lx ?w then 1 else 0 :: int)"
  note defs = y'_def lx'_def d_def
  have p: "legend_places L m y lx (item # items) = (lx', y') # legend_places L m y' (PyFloat (plus_float lx' ?w)) items"
    by (auto simp: defs Let_def)
  have f: "foldl (legend_rows_step L m) (rows, lx) (item # items) =
      foldl (legend_rows_step L m) (rows + d, PyFloat (plus_float lx' ?w)) items"
    by (auto simp: defs legend_rows_step_def Let_def)
  have y': "y' = y + 18 * d" "0 \<le> d" by (auto simp: defs)
  show ?case
  proof (cases "items = []")
    case True
    then show ?thesis unfolding f p using y' by auto
  next
    case False
    let ?ps = "legend_places L m y' (PyFloat (plus_float lx' ?w)) items"
    have ne: "?ps \<noteq> []" by (metis False length_0_conv length_legend_places)
    note IH = Cons.IH[of "rows + d" "PyFloat (plus_float lx' ?w)" y']
    have l: "18 dvd snd (last ?ps) - y'" "y' \<le> snd (last ?ps)" using IH ne by auto
    then have "(snd (last ?ps) - y) div 18 = (snd (last ?ps) - y') div 18 + d"
      using y' by (auto elim!: dvdE)
    moreover have "18 dvd q - y \<longleftrightarrow> 18 dvd q - y'" for q
      unfolding y'(1) by presburger
    ultimately show ?thesis unfolding f p using IH False ne y' l by (auto simp: Let_def)
  qed
qed simp

lemma legend_w_ge: "26 \<le> legend_w lab"
proof -
  have "0 \<le> fl (66 / 10)" by (rule binary64.rnd_nonneg) simp
  then have "0 \<le> fl (of_int (py_len lab) * fl (66 / 10))" by (intro binary64.rnd_nonneg mult_nonneg_nonneg) auto
  then show ?thesis unfolding legend_w_def using binary64.rnd_ge_int[of 26] by simp
qed

lemma plus_float_right_of:
  assumes "\<bar>L\<bar> \<le> 2 ^ 40" "of_int L \<le> num_val lx" "26 \<le> w"
  shows "of_int L < plus_float lx w"
proof -
  have "of_int (L + 26) \<le> fl (num_val lx + w)" using assms by (intro binary64.rnd_ge_int) auto
  then show ?thesis by (simp add: plus_float_def)
qed

lemma legend_places_fit:
  assumes "\<bar>L\<bar> \<le> 2 ^ 40"
  shows "lx = PyInt L \<or> of_int L < num_val lx \<Longrightarrow> i < length items \<Longrightarrow>
    fst (legend_places L m y lx items ! i) = PyInt L \<or>
    plus_float (fst (legend_places L m y lx items ! i)) (legend_w (fst (items ! i))) \<le> of_int m"
proof (induction items arbitrary: y lx i)
  case (Cons item items)
  let ?w = "legend_w (fst item)"
  define y' lx' where "y' = (if legend_wraps L m lx ?w then y + 18 else y)"
    and "lx' = (if legend_wraps L m lx ?w then PyInt L else lx)"
  have p: "legend_places L m y lx (item # items) = (lx', y') # legend_places L m y' (PyFloat (plus_float lx' ?w)) items"
    by (auto simp: y'_def lx'_def Let_def)
  have "of_int L \<le> num_val lx'" using Cons.prems(1) by (auto simp: lx'_def)
  then have "of_int L < plus_float lx' ?w" by (intro plus_float_right_of assms legend_w_ge)
  moreover have "lx' = PyInt L \<or> plus_float lx' ?w \<le> of_int m"
    using Cons.prems(1) by (auto simp: lx'_def legend_wraps_def not_less)
  ultimately show ?case unfolding p using Cons.IH[of "PyFloat (plus_float lx' ?w)"] Cons.prems(2)
    by (cases i) auto
qed simp

lemma hd_legend_places: "items \<noteq> [] \<Longrightarrow> snd (hd (legend_places L m y (PyInt L) items)) = y"
  by (cases items) (auto simp: Let_def legend_wraps_def)

text \<open>C32: the legend of \<open>mkcharts.py\<close> is laid out where the canvas has room for it. With a
  right edge \<open>m\<close>, \<open>legend\<close> draws every entry, in order, one marker and one label each;
  the rows it uses are exactly the \<open>legend_rows\<close> rows that the caller reserved, 18 pixels
  apart, the last one 16 pixels above the bottom; and every entry stands at the left margin
  or ends before the right edge.\<close>

theorem legend_layout:
  assumes "items \<noteq> []" "m \<noteq> 0" "\<bar>L\<bar> \<le> 2 ^ 40"
  shows "\<exists>places. length places = length items \<and>
    legend L H items (Some m) = concat (map2 (\<lambda>p item. legend_entry (fst p) (snd p) item) places items) \<and>
    snd (hd places) = H - 16 - 18 * (legend_rows items L m - 1) \<and>
    snd (last places) = H - 16 \<and>
    (\<forall>p \<in> set places. \<exists>k. 0 \<le> k \<and> k < legend_rows items L m \<and> snd p = H - 16 - 18 * k) \<and>
    (\<forall>i < length items. fst (places ! i) = PyInt L \<or>
       plus_float (fst (places ! i)) (legend_w (fst (items ! i))) \<le> of_int m)"
proof -
  define r where "r = legend_rows items L m"
  define y where "y = H - 16 - (r - 1) * 18"
  define ps where "ps = legend_places L m y (PyInt L) items"
  have ne: "ps \<noteq> []" unfolding ps_def by (metis assms(1) length_0_conv length_legend_places)
  have all: "\<And>p. p \<in> set ps \<Longrightarrow> 18 dvd snd p - y \<and> y \<le> snd p \<and> snd p \<le> snd (last ps)"
    and rows: "r = 1 + (snd (last ps) - y) div 18"
    using legend_rows_from[of L m 1 "PyInt L" items y] assms(1)
    unfolding ps_def[symmetric] r_def legend_rows_def by simp_all
  obtain j where j: "snd (last ps) - y = 18 * j" using all[of "last ps"] ne by (auto elim: dvdE)
  then have r: "r = 1 + j" using rows by simp
  then have last: "snd (last ps) = H - 16" using j by (simp add: y_def)
  have "\<exists>k. 0 \<le> k \<and> k < r \<and> snd p = H - 16 - 18 * k" if p: "p \<in> set ps" for p
  proof -
    obtain i where i: "snd p - y = 18 * i" using all[OF p] by (auto elim: dvdE)
    then show ?thesis using all[OF p] last j r by (intro exI[of _ "j - i"]) auto
  qed
  moreover have "legend L H items (Some m) = concat (map2 (\<lambda>p item. legend_entry (fst p) (snd p) item) ps items)"
    using assms(2) by (simp add: legend_def Let_def ps_def y_def r_def legend_loop_places)
  moreover have "snd (hd ps) = y" using hd_legend_places[OF assms(1)] by (simp add: ps_def)
  moreover have "\<forall>i < length items. fst (ps ! i) = PyInt L \<or>
       plus_float (fst (ps ! i)) (legend_w (fst (items ! i))) \<le> of_int m"
    using legend_places_fit[OF assms(3)] by (simp add: ps_def)
  moreover have "length ps = length items" by (simp add: ps_def)
  ultimately show ?thesis using last unfolding r_def[symmetric] by (intro exI[of _ ps]) (simp add: y_def)
qed

theorem legend_layout_witness:
  "\<exists>places. length places = 1 \<and>
    legend 78 500 [(''FIX (journal)'', C1)] (Some 200) =
      concat (map2 (\<lambda>p item. legend_entry (fst p) (snd p) item) places [(''FIX (journal)'', C1)]) \<and>
    snd (last places) = 484"
proof -
  obtain places where "length places = length [(''FIX (journal)'', C1)]" "snd (last places) = 500 - 16"
    "legend 78 500 [(''FIX (journal)'', C1)] (Some 200) =
      concat (map2 (\<lambda>p item. legend_entry (fst p) (snd p) item) places [(''FIX (journal)'', C1)])"
    using legend_layout[of "[(''FIX (journal)'', C1)]" 200 78 500] by auto
  then show ?thesis by (intro exI[of _ places]) simp
qed

section \<open>Wrapping keeps the text and the budget\<close>

lemma wrap_fold:
  assumes "\<forall>w \<in> set ws. w \<noteq> []" "cur \<noteq> []"
  shows "\<exists>ls c. foldl (wrap_step b) (lines, cur) ws = (lines @ ls, c) \<and> c \<noteq> [] \<and>
    join '' '' (ls @ [c]) = join '' '' (cur # ws) \<and>
    (\<forall>l \<in> set (ls @ [c]). py_len l \<le> b \<or> l \<in> set (cur # ws))"
  using assms
proof (induction ws arbitrary: lines cur)
  case Nil
  then show ?case by simp
next
  case (Cons w ws)
  show ?case
  proof (cases "py_len cur + 1 + py_len w > b")
    case True
    obtain ls c where ls: "foldl (wrap_step b) (lines @ [cur], w) ws = ((lines @ [cur]) @ ls, c)" "c \<noteq> []"
        "join '' '' (ls @ [c]) = join '' '' (w # ws)" "\<forall>l \<in> set (ls @ [c]). py_len l \<le> b \<or> l \<in> set (w # ws)"
      using Cons.IH[of w "lines @ [cur]"] Cons.prems by auto
    have "join '' '' ((cur # ls) @ [c]) = join '' '' (cur # w # ws)"
      using ls(3) by (simp add: join_Cons)
    then show ?thesis using ls Cons.prems True
      by (intro exI[of _ "cur # ls"] exI[of _ c]) (auto simp: wrap_step_pair)
  next
    case False
    obtain ls c where ls: "foldl (wrap_step b) (lines, cur @ '' '' @ w) ws = (lines @ ls, c)" "c \<noteq> []"
        "join '' '' (ls @ [c]) = join '' '' ((cur @ '' '' @ w) # ws)"
        "\<forall>l \<in> set (ls @ [c]). py_len l \<le> b \<or> l \<in> set ((cur @ '' '' @ w) # ws)"
      using Cons.IH[of "cur @ '' '' @ w" lines] Cons.prems by auto
    have "py_len (cur @ '' '' @ w) \<le> b" using False by (simp add: py_len_def utf8_cont_def)
    moreover have "join '' '' ((cur @ '' '' @ w) # ws) = join '' '' (cur # w # ws)"
      by (cases ws) auto
    ultimately show ?thesis using ls Cons.prems False
      by (intro exI[of _ ls] exI[of _ c]) (auto simp: wrap_step_pair)
  qed
qed

lemma wrap_fold_nonempty:
  "\<forall>w \<in> set ws. w \<noteq> [] \<Longrightarrow> cur \<noteq> [] \<Longrightarrow> \<forall>l \<in> set lines. l \<noteq> [] \<Longrightarrow>
   \<forall>l \<in> set (fst (foldl (wrap_step b) (lines, cur) ws)). l \<noteq> []"
proof (induction ws arbitrary: lines cur)
  case (Cons w ws)
  obtain lines' cur' where s: "wrap_step b (lines, cur) w = (lines', cur')" by fastforce
  then have "cur' \<noteq> []" "\<forall>l \<in> set lines'. l \<noteq> []"
    using Cons.prems by (auto simp: wrap_step_pair split: if_splits)
  then have "\<forall>l \<in> set (fst (foldl (wrap_step b) (lines', cur') ws)). l \<noteq> []"
    using Cons.prems(1) by (intro Cons.IH) auto
  then show ?case by (simp only: foldl_Cons s)
qed simp

lemma split_on_chars: "w \<in> set (split_on c s) \<Longrightarrow> set w \<subseteq> set s"
  by (induction s arbitrary: w) (auto split: if_splits list.splits, blast+)

lemma length_split_on: "length (split_on c s) \<le> length s + 1"
  by (induction s) (auto split: list.splits)

lemma wrap_fold_bounds:
  "length (fst (foldl (wrap_step b) (lines, cur) ws)) \<le> length lines + length ws \<and>
   (\<forall>l \<in> insert (snd (foldl (wrap_step b) (lines, cur) ws)) (set (fst (foldl (wrap_step b) (lines, cur) ws))).
      set l \<subseteq> insert (CHR '' '') (set cur \<union> \<Union> (set ` set lines) \<union> \<Union> (set ` set ws)))"
proof (induction ws arbitrary: lines cur)
  case (Cons w ws)
  obtain lines' cur' where s: "wrap_step b (lines, cur) w = (lines', cur')" by fastforce
  then have "length lines' \<le> length lines + 1"
    "set cur' \<union> \<Union> (set ` set lines') \<subseteq> insert (CHR '' '') (set cur \<union> set w \<union> \<Union> (set ` set lines))"
    by (auto simp: wrap_step_pair split: if_splits)
  then show ?case using Cons.IH[of lines' cur'] unfolding foldl_Cons s by fastforce
qed auto

lemma wrap_sub_bounds:
  "length (wrap_sub t b) \<le> length t + 2" "l \<in> set (wrap_sub t b) \<Longrightarrow> set l \<subseteq> insert (CHR '' '') (set t)"
proof -
  obtain lines cur where f: "foldl (wrap_step b) ([], []) (split_on (CHR '' '') t) = (lines, cur)" by fastforce
  note B = wrap_fold_bounds[of b "[]" "[]" "split_on (CHR '' '') t", unfolded f]
  show "length (wrap_sub t b) \<le> length t + 2"
    using B length_split_on[of "CHR '' ''" t] by (auto simp: wrap_sub_def f)
  have "\<Union> (set ` set (split_on (CHR '' '') t)) \<subseteq> set t" using split_on_chars by fast
  then show "set l \<subseteq> insert (CHR '' '') (set t)" if "l \<in> set (wrap_sub t b)"
    using B that by (auto simp: wrap_sub_def f split: if_splits; fastforce)
qed

text \<open>C34: \<open>wrap_sub\<close> breaks a subtitle at spaces only. For a text whose words are
  separated by single spaces, joining the lines with spaces gives the text back, no line is
  empty, and a line is longer than the budget only when it is a single word of the text.\<close>

theorem wrap_sub_correct:
  assumes "\<forall>w \<in> set (split_on (CHR '' '') sub). w \<noteq> []"
  shows "join '' '' (wrap_sub sub b) = sub \<and>
    (\<forall>l \<in> set (wrap_sub sub b). l \<noteq> [] \<and> (py_len l \<le> b \<or> l \<in> set (split_on (CHR '' '') sub)))"
proof -
  obtain w ws where sp: "split_on (CHR '' '') sub = w # ws" by (cases "split_on (CHR '' '') sub") auto
  have w: "w \<noteq> []" "\<forall>v \<in> set ws. v \<noteq> []" using assms by (auto simp: sp)
  obtain ls c where ls: "foldl (wrap_step b) ([], w) ws = (ls, c)" "c \<noteq> []"
      "join '' '' (ls @ [c]) = join '' '' (w # ws)" "\<forall>l \<in> set (ls @ [c]). py_len l \<le> b \<or> l \<in> set (w # ws)"
    using wrap_fold[OF w(2,1), of b "[]"] by auto
  have "wrap_sub sub b = ls @ [c]" using ls(1,2) by (simp add: wrap_sub_def sp wrap_step_pair)
  moreover have "join '' '' (w # ws) = sub" using join_split_on[of "CHR '' ''" sub] sp by simp
  moreover have "\<forall>l \<in> set ls. l \<noteq> []"
    using wrap_fold_nonempty[OF w(2,1), of "[]" b] ls(1) by simp
  ultimately show ?thesis using ls by (auto simp: sp)
qed

theorem wrap_sub_correct_witness:
  "join '' '' (wrap_sub ''At 100k: FIX (journal) 1,127 us.'' 12) = ''At 100k: FIX (journal) 1,127 us.''"
  using wrap_sub_correct[of "''At 100k: FIX (journal) 1,127 us.''" 12] by simp

end
