(* ===== verification/Knee_Charts.thy ===== *)
theory Knee_Charts
  imports Chart_Data Chart_Layout
begin

text \<open>
  The knee charts of \<open>sweep/mkcharts.py\<close>: the drawing routines \<open>head\<close>, \<open>axes\<close> and
  \<open>series\<close>, the three-way comparison \<open>knee-curves.svg\<close> (\<open>combined_chart\<close>), the table
  \<open>CFG\<close> and the per-product charts \<open>knee-<product>.svg\<close> (\<open>product_chart\<close>). A routine of
  the source that appends to the list \<open>o\<close> is a function returning what it appends, or the
  exception it raises; the lambdas \<open>xm\<close>, \<open>ym\<close> and \<open>fmt\<close> that the source passes are
  arguments here too.
\<close>

section \<open>Drawing routines\<close>

definition enum :: "'a list \<Rightarrow> (int \<times> 'a) list" where
  "enum xs = zip (map int [0..<length xs]) xs"

definition svg_open :: "int \<Rightarrow> int \<Rightarrow> string \<Rightarrow> svg" where
  "svg_open W H title = Open ''svg''
     [(''xmlns'', AStr ''http://www.w3.org/2000/svg''), (''width'', AInt W), (''height'', AInt H),
      (''viewBox'', AStr (''0 0 '' @ str_of_int W @ '' '' @ str_of_int H)), (''font-family'', AQuoted FONT),
      (''role'', AStr ''img''), (''aria-label'', AStr title)]"

definition head :: "int \<Rightarrow> int \<Rightarrow> string \<Rightarrow> string list \<Rightarrow> svg list" where
  "head W H title sub =
     [svg_open W H title,
      Elem ''rect'' [(''width'', AInt W), (''height'', AInt H), (''fill'', AStr SURF)] [],
      text_elem [(''x'', AStr ''78''), (''y'', AStr ''28''), (''font-size'', AStr ''16''),
                 (''font-weight'', AStr ''600''), (''fill'', AStr INK)] title] @
     map (\<lambda>(i, l). text_elem [(''x'', AStr ''78''), (''y'', AInt (46 + i * 16)), (''font-size'', AStr ''12''),
                              (''fill'', AStr INK2)] l) (enum sub)"

definition y_tick_at :: "int \<Rightarrow> int \<Rightarrow> rat \<Rightarrow> string \<Rightarrow> svg list" where
  "y_tick_at L PW yy lab =
     [Elem ''line'' [(''x1'', AInt L), (''y1'', AFix 1 yy), (''x2'', AInt (L + PW)), (''y2'', AFix 1 yy),
                     (''stroke'', AStr GRID), (''stroke-width'', AStr ''1'')] [],
      text_elem [(''x'', AInt (L - 10)), (''y'', AFix 1 (fl (yy + 4))), (''font-size'', AStr ''11''),
                 (''fill'', AStr MUTED), (''text-anchor'', AStr ''end'')] lab]"

definition y_tick :: "int \<Rightarrow> int \<Rightarrow> (int \<Rightarrow> rat res) \<Rightarrow> (int \<Rightarrow> string) \<Rightarrow> int \<Rightarrow> svg list res" where
  "y_tick L PW ymap fmt v = bindE (ymap v) (\<lambda>yy. Inr (y_tick_at L PW yy (fmt v)))"

definition x_tick_at :: "int \<Rightarrow> int \<Rightarrow> rat \<Rightarrow> int \<Rightarrow> svg list" where
  "x_tick_at T PH xx v =
     [Elem ''line'' [(''x1'', AFix 1 xx), (''y1'', AInt (T + PH)), (''x2'', AFix 1 xx), (''y2'', AInt (T + PH + 5)),
                     (''stroke'', AStr AXIS), (''stroke-width'', AStr ''1'')] [],
      text_elem [(''x'', AFix 1 xx), (''y'', AInt (T + PH + 20)), (''font-size'', AStr ''11''),
                 (''fill'', AStr MUTED), (''text-anchor'', AStr ''middle'')] (str_of_int (v div 1000) @ ''k'')]"

definition x_tick :: "int \<Rightarrow> int \<Rightarrow> int \<Rightarrow> int \<Rightarrow> int \<Rightarrow> int \<Rightarrow> svg list res" where
  "x_tick L T PW PH xmax v = bindE (x_map L PW xmax v) (\<lambda>xx. Inr (x_tick_at T PH xx v))"

definition y_caption :: "rat \<Rightarrow> string \<Rightarrow> svg" where
  "y_caption mid ylab = text_elem [(''x'', AStr ''20''), (''y'', AFix 0 mid), (''font-size'', AStr ''11''), (''fill'', AStr INK2),
     (''text-anchor'', AStr ''middle''), (''transform'', AStr (''rotate(-90 20 '' @ fmt_fixed 0 mid @ '')''))] ylab"

definition base_line :: "int \<Rightarrow> int \<Rightarrow> int \<Rightarrow> int \<Rightarrow> svg" where
  "base_line L T PW PH = Elem ''line'' [(''x1'', AInt L), (''y1'', AInt (T + PH)), (''x2'', AInt (L + PW)), (''y2'', AInt (T + PH)),
     (''stroke'', AStr AXIS), (''stroke-width'', AStr ''1'')] []"

definition x_caption :: "rat \<Rightarrow> int \<Rightarrow> svg" where
  "x_caption x y = text_elem [(''x'', AFix 0 x), (''y'', AInt y), (''font-size'', AStr ''11''),
     (''fill'', AStr INK2), (''text-anchor'', AStr ''middle'')] ''offered rate (requests/sec)''"

definition axes :: "int \<Rightarrow> int \<Rightarrow> int \<Rightarrow> int \<Rightarrow> int \<Rightarrow> int \<Rightarrow> int list \<Rightarrow> string \<Rightarrow>
    (int \<Rightarrow> rat res) \<Rightarrow> (int \<Rightarrow> string) \<Rightarrow> svg list res" where
  "axes L T PW PH xmax xstep yticks ylab ymap fmt =
     bindE (collectE (y_tick L PW ymap fmt) yticks) (\<lambda>ys.
     bindE (int_truediv PH 2) (\<lambda>hh.
     bindE (x_ticks (x_tick L T PW PH xmax) xmax xstep 0) (\<lambda>xs.
     bindE (int_truediv PW 2) (\<lambda>hw.
     Inr (ys @ [y_caption (fl (of_int T + hh)) ylab, base_line L T PW PH] @ xs @
          [x_caption (fl (of_int L + hw)) (T + PH + 44)])))))"

text \<open>The position of a point: \<open>xm(p['rate'])\<close>, then \<open>ym(p[key])\<close>.\<close>

definition place :: "(int \<Rightarrow> rat res) \<Rightarrow> (int \<Rightarrow> rat res) \<Rightarrow> string \<Rightarrow> point \<Rightarrow> (rat \<times> rat) res" where
  "place xm ym key p =
     bindE (bindE (pt_get p ''rate'') xm) (\<lambda>x. bindE (bindE (pt_get p key) ym) (\<lambda>y. Inr (x, y)))"

definition path_data :: "(rat \<times> rat) list \<Rightarrow> string" where
  "path_data xys = join '' '' (map (\<lambda>(i, (x, y)).
     (if i = 0 then ''M'' else ''L'') @ fmt_fixed 1 x @ '','' @ fmt_fixed 1 y) (enum xys))"

definition marker :: "string \<Rightarrow> (int \<Rightarrow> rat res) \<Rightarrow> (int \<Rightarrow> rat res) \<Rightarrow> string \<Rightarrow> point \<Rightarrow> svg list res" where
  "marker col xm ym key p = bindE (place xm ym key p) (\<lambda>(x, y). bindE (sat p) (\<lambda>s. Inr
     [Elem ''circle'' [(''cx'', AFix 1 x), (''cy'', AFix 1 y), (''r'', AStr ''4.5''),
        (''fill'', AStr (if s then SURF else col)), (''stroke'', AStr (if s then col else SURF)),
        (''stroke-width'', AStr ''2'')] []]))"

definition series :: "point list \<Rightarrow> string \<Rightarrow> (int \<Rightarrow> rat res) \<Rightarrow> (int \<Rightarrow> rat res) \<Rightarrow> string \<Rightarrow> svg list res" where
  "series pts col xm ym key =
     bindE (mapE (place xm ym key) pts) (\<lambda>xys.
     bindE (collectE (marker col xm ym key) pts) (\<lambda>ms. Inr (
       Elem ''path'' [(''d'', AStr (path_data xys)), (''fill'', AStr ''none''), (''stroke'', AStr col),
         (''stroke-width'', AStr ''2''), (''stroke-linejoin'', AStr ''round''), (''stroke-linecap'', AStr ''round'')] [] # ms)))"

section \<open>The three-way comparison\<close>

text \<open>\<open>name in D\<close> and \<open>D[name]\<close>.\<close>

definition in_data :: "string \<Rightarrow> sweep_data \<Rightarrow> bool" where
  "in_data name D \<longleftrightarrow> dict_get D (CStr name) \<noteq> None"

definition curve_of :: "sweep_data \<Rightarrow> string \<Rightarrow> point list res" where
  "curve_of D name = (case dict_get D (CStr name) of None \<Rightarrow> Inl (KeyError name) | Some pts \<Rightarrow> Inr pts)"

text \<open>\<open>pts[-1]\<close>.\<close>

definition last_of :: "'a list \<Rightarrow> 'a res" where
  "last_of pts = (if pts = [] then Inl IndexError else Inr (last pts))"

datatype label_pos = AtLast | AtRate int

definition LABEL_AT :: "(string \<times> label_pos \<times> int \<times> int) list" where
  "LABEL_AT = [(''aeron'', AtLast, 12, 4), (''braft'', AtRate 250000, 12, -8), (''openraft'', AtRate 85000, -12, 4)]"

text \<open>\<open>next(p for p in D[name] if p["rate"]==at)\<close>.\<close>

fun next_at :: "int \<Rightarrow> point list \<Rightarrow> point res" where
  "next_at a [] = Inl StopIteration"
| "next_at a (p # pts) = bindE (pt_get p ''rate'') (\<lambda>r. if r = a then Inr p else next_at a pts)"

definition label_point :: "label_pos \<Rightarrow> point list \<Rightarrow> point res" where
  "label_point a pts = (case a of AtLast \<Rightarrow> last_of pts | AtRate r \<Rightarrow> next_at r pts)"

definition present :: "sweep_data \<Rightarrow> (string \<times> string) list" where
  "present D = filter (\<lambda>(name, col). in_data name D) [(''aeron'', C1), (''braft'', C2), (''openraft'', C3)]"

definition combined_series :: "sweep_data \<Rightarrow> (int \<Rightarrow> rat res) \<Rightarrow> (int \<Rightarrow> rat res) \<Rightarrow> string \<times> string \<Rightarrow> svg list res" where
  "combined_series D xm ym nc = (let name = fst nc; col = snd nc in
     bindE (curve_of D name) (\<lambda>pts.
     bindE (series pts col xm ym ''p50'') (\<lambda>s.
     bindE (dict_index (\<lambda>k. k) LABEL_AT name) (\<lambda>(a, dx, dy).
     bindE (label_point a pts) (\<lambda>pt.
     bindE (place xm ym ''p50'' pt) (\<lambda>(x, y). Inr (s @
       [text_elem ([(''x'', AFix 1 (fl (x + of_int dx))), (''y'', AFix 1 (fl (y + of_int dy))), (''font-size'', AStr ''12'')] @
          (if dx < 0 then [(''text-anchor'', AStr ''end'')] else []) @
          [(''font-weight'', AStr ''600''), (''fill'', AStr INK)]) name])))))))"

definition combined_chart :: "(rat \<Rightarrow> rat) \<Rightarrow> sweep_data \<Rightarrow> svg list res" where
  "combined_chart lg D =
     (let W = 900; H = 500; L = 78; R = 150; T = 78; B = 74;
          PW = W - L - R; PH = H - T - B; XMAX = 650000;
          xm = x_map L PW XMAX; ym = y_map lg T PH (lg 420) (lg 16000);
          o1 = head W H ''Flat, then a knee: three raft implementations under open-loop load''
            [''p50 latency vs offered rate, 3-node multi-AZ cluster on EC2. Log latency scale.'',
             ''Hollow marker = the cluster no longer kept up with the offered rate.'']
      in bindE (axes L T PW PH XMAX 100000 [500, 1000, 2000, 5000, 10000] ''p50 latency (log scale)'' ym us_label) (\<lambda>o2.
         bindE (collectE (combined_series D xm ym) (present D)) (\<lambda>o3.
         Inr (o1 @ o2 @ o3 @ legend L H (present D) None @ [Close ''svg'']))))"

section \<open>The per-product charts\<close>

record chart_cfg =
  c_xmax :: int
  c_xstep :: int
  c_yrange :: "int \<times> int"
  c_yticks :: "int list"
  c_comfort :: int
  c_markers :: "(int \<times> string \<times> int) list"
  c_title :: string
  c_line2 :: string

definition cfg_braft :: chart_cfg where
  "cfg_braft = \<lparr>c_xmax = 320000, c_xstep = 50000, c_yrange = (400, 1000000),
     c_yticks = [500, 700, 1000, 2000, 5000, 20000, 100000, 500000], c_comfort = 250000,
     c_markers = [(265000, ''knee'', 16)],
     c_title = ''braft '' @ em_dash @ '' flat to 250k on c7a, then a cliff'',
     c_line2 = ''p50 641us at 10k to 1291us at 250k; 280k collapses. Earlier c6i fleet turned at ~160k.''\<rparr>"

definition cfg_openraft :: chart_cfg where
  "cfg_openraft = \<lparr>c_xmax = 150000, c_xstep = 25000, c_yrange = (700, 9000),
     c_yticks = [800, 1000, 1500, 2000, 3000, 5000, 8000], c_comfort = 100000,
     c_markers = [(110000, ''drops climb'', 16)],
     c_title = ''openraft '' @ em_dash @ '' still no cliff, but a much lower slope on c7a'',
     c_line2 = ''Latency never cliffs; the dashed line is where the rig'' @ [CHR 0x27] @ ''s own drops start climbing.''\<rparr>"

definition cfg_aeron :: chart_cfg where
  "cfg_aeron = \<lparr>c_xmax = 650000, c_xstep = 100000, c_yrange = (450, 4000),
     c_yticks = [500, 600, 800, 1000, 1500, 2000, 3000], c_comfort = 250000,
     c_markers = [(270000, ''knee'', 16)],
     c_title = ''aeron '' @ em_dash @ '' still the flattest curve, but the ceiling moved down on c7a'',
     c_line2 = ''A 10x change in offered rate, 25k to 250k, moves p50 by 16 '' @ micro @ ''s; 290k steps to 2.1 ms.''\<rparr>"

definition cfg_sequencer :: chart_cfg where
  "cfg_sequencer = \<lparr>c_xmax = 170000, c_xstep = 25000, c_yrange = (400, 3000000),
     c_yticks = [500, 1000, 2000, 5000, 50000, 500000, 2000000], c_comfort = 130000,
     c_markers = [(137000, ''knee'', 16)],
     c_title = ''sequencer '' @ em_dash @ '' flat to ~130k once the gateway batches proposals'',
     c_line2 = ''p50 572us at 10k to 1430us at 130k; 145k is the first rate that breaks.''\<rparr>"

definition cfg_sequencer_relay :: chart_cfg where
  "cfg_sequencer_relay = \<lparr>c_xmax = 200000, c_xstep = 25000, c_yrange = (500, 20000000),
     c_yticks = [1000, 5000, 50000, 200000, 1000000, 5000000, 20000000], c_comfort = 100000,
     c_markers = [(112000, ''ceiling'', 16)],
     c_title = ''sequencer-relay '' @ em_dash @ '' sub-2ms through 100k, but a lower ceiling than the old design'',
     c_line2 = ''p50 649us-1.3ms from 10k to 100k, beating phase 1'' @ [CHR 0x27] @ ''s own ack latency; cliff moved from 130k to 115k.''\<rparr>"

definition cfg_sequencer_direct :: chart_cfg where
  "cfg_sequencer_direct = \<lparr>c_xmax = 260000, c_xstep = 50000, c_yrange = (400, 12000),
     c_yticks = [500, 700, 1000, 2000, 3000, 5000, 10000], c_comfort = 250000,
     c_markers = [],
     c_title = ''sequencer-direct '' @ em_dash @ '' submitting straight to the node, no input gateway'',
     c_line2 = ''p50 508us at 10k to 727us at 100k, still 1.6ms at 250k; the gateway arm knees at ~55-70k.''\<rparr>"

definition cfg_sequencer_output_brpc :: chart_cfg where
  "cfg_sequencer_output_brpc = \<lparr>c_xmax = 520000, c_xstep = 100000, c_yrange = (500, 200000),
     c_yticks = [500, 1000, 2000, 5000, 10000, 50000, 200000], c_comfort = 150000,
     c_markers = [(312000, ''knee'', 16)],
     c_title = ''sequencer-output-brpc '' @ em_dash @ '' brpc Streaming RPC, clean to 300k'',
     c_line2 = ''Five client boxes, one gateway, per-client topics. 300k at 1484us with zero drops; collapses by 325k.''\<rparr>"

definition cfg_sequencer_output_grpc :: chart_cfg where
  "cfg_sequencer_output_grpc = \<lparr>c_xmax = 520000, c_xstep = 100000, c_yrange = (500, 200000),
     c_yticks = [500, 1000, 2000, 5000, 10000, 50000, 200000], c_comfort = 175000,
     c_markers = [(312000, ''knee'', 16)],
     c_title = ''sequencer-output-grpc '' @ em_dash @ '' real gRPC streaming, clean to 300k'',
     c_line2 = ''Carries 300k with zero drops at 1489us; by 325k it has gone. Achieved plateaus near 320k however much more is offered.''\<rparr>"

definition cfg_exchange_fix :: chart_cfg where
  "cfg_exchange_fix = \<lparr>c_xmax = 520000, c_xstep = 100000, c_yrange = (700, 5000000),
     c_yticks = [1000, 3000, 10000, 40000, 150000, 600000, 4000000], c_comfort = 150000,
     c_markers = [(150000, ''last clean'', 150), (195000, ''ceiling'', 40)],
     c_title = ''exchange-fix - a CLOB on sequencer, over FIX 4.4'',
     c_line2 = ''Full rate to 150k with zero drops, p50 1.4ms / p99 4.5ms. Hollow = offered rate not met.''\<rparr>"

definition cfg_sequencer_fix_gen :: chart_cfg where
  "cfg_sequencer_fix_gen = \<lparr>c_xmax = 520000, c_xstep = 100000, c_yrange = (600, 200000),
     c_yticks = [700, 1000, 2000, 5000, 15000, 50000, 150000], c_comfort = 300000,
     c_markers = [(300000, ''last clean'', 150)],
     c_title = ''sequencer-fix-gen - the counter, 20 sessions across 2 gateways'',
     c_line2 = ''A deployment variant, not a comparable arm. Full rate to 300k; past it the rig drops.''\<rparr>"

definition cfg_sequencer_fix :: chart_cfg where
  "cfg_sequencer_fix = \<lparr>c_xmax = 520000, c_xstep = 100000, c_yrange = (500, 200000),
     c_yticks = [500, 1000, 2000, 5000, 10000, 50000, 200000], c_comfort = 25000,
     c_markers = [(450000, ''knee'', 16)],
     c_title = ''sequencer-fix - FIX 4.4 from the journal, the furthest-reaching arm'',
     c_line2 = ''ONE gateway, five sessions, both directions. Zero drops through 400k -- further than any other arm -- and collapses by 500k.''\<rparr>"

definition cfg_sequencer_quickfix :: chart_cfg where
  "cfg_sequencer_quickfix = \<lparr>c_xmax = 520000, c_xstep = 100000, c_yrange = (500, 200000),
     c_yticks = [500, 1000, 2000, 5000, 10000, 50000, 200000], c_comfort = 100000,
     c_markers = [(162000, ''knee'', 16)],
     c_title = ''sequencer-quickfix - FIX 4.4 on QuickFIX'' @ [CHR 0x27] @ ''s session layer'',
     c_line2 = ''Carries 125k at 1127us, collapses by 175k, plateaus near 158k -- against 250k+ on the hffix arm.''\<rparr>"

definition cfg_braft_multi :: chart_cfg where
  "cfg_braft_multi = \<lparr>c_xmax = 520000, c_xstep = 100000, c_yrange = (500, 200000),
     c_yticks = [500, 1000, 2000, 5000, 10000, 50000, 200000], c_comfort = 125000,
     c_markers = [(212000, ''knee'', 16)],
     c_title = ''braft-multi - bare braft, no sequencer, five client boxes'',
     c_line2 = ''One raft op per request, unbatched: 200k at 1.7ms, collapsing by 225k. The gateways pass it because they batch.''\<rparr>"

definition cfg_sequencer_fix_inline :: chart_cfg where
  "cfg_sequencer_fix_inline = \<lparr>c_xmax = 520000, c_xstep = 100000, c_yrange = (500, 200000),
     c_yticks = [500, 1000, 2000, 5000, 10000, 50000, 200000], c_comfort = 75000,
     c_markers = [(312000, ''knee'', 16)],
     c_title = ''sequencer-fix-inline - FIX 4.4, answered from the propose receipt'',
     c_line2 = ''Faster below ~100k and worse above, and it knees at 300k where the journal path runs to 400k: one send per reply, uncoalesced.''\<rparr>"

definition cfg_sequencer_output_websocket :: chart_cfg where
  "cfg_sequencer_output_websocket = \<lparr>c_xmax = 520000, c_xstep = 100000, c_yrange = (500, 200000),
     c_yticks = [500, 1000, 2000, 5000, 10000, 50000, 200000], c_comfort = 150000,
     c_markers = [(312000, ''knee'', 16)],
     c_title = ''sequencer-output-websocket '' @ em_dash @ '' Boost.Beast WebSocket, clean to 300k'',
     c_line2 = ''Nagle off (Beast does not set it; brpc and gRPC do). The p90 that used to leave the other two above 150k was that, not the writer thread.''\<rparr>"

definition CFG :: "(string \<times> chart_cfg) list" where
  "CFG = [(''braft'', cfg_braft),
     (''openraft'', cfg_openraft),
     (''aeron'', cfg_aeron),
     (''sequencer'', cfg_sequencer),
     (''sequencer-relay'', cfg_sequencer_relay),
     (''sequencer-direct'', cfg_sequencer_direct),
     (''sequencer-output-brpc'', cfg_sequencer_output_brpc),
     (''sequencer-output-grpc'', cfg_sequencer_output_grpc),
     (''exchange-fix'', cfg_exchange_fix),
     (''sequencer-fix-gen'', cfg_sequencer_fix_gen),
     (''sequencer-fix'', cfg_sequencer_fix),
     (''sequencer-quickfix'', cfg_sequencer_quickfix),
     (''braft-multi'', cfg_braft_multi),
     (''sequencer-fix-inline'', cfg_sequencer_fix_inline),
     (''sequencer-output-websocket'', cfg_sequencer_output_websocket)]"

lemmas cfg_defs = cfg_braft_def cfg_openraft_def cfg_aeron_def cfg_sequencer_def cfg_sequencer_relay_def cfg_sequencer_direct_def cfg_sequencer_output_brpc_def cfg_sequencer_output_grpc_def cfg_exchange_fix_def cfg_sequencer_fix_gen_def cfg_sequencer_fix_def cfg_sequencer_quickfix_def cfg_braft_multi_def cfg_sequencer_fix_inline_def cfg_sequencer_output_websocket_def
text \<open>One dashed rule with its label.\<close>

definition rule_mark :: "int \<Rightarrow> int \<Rightarrow> (int \<Rightarrow> rat res) \<Rightarrow> int \<times> string \<times> int \<Rightarrow> svg list res" where
  "rule_mark T PH xm m = bindE (xm (fst m)) (\<lambda>kx. Inr
     [Elem ''line'' [(''x1'', AFix 1 kx), (''y1'', AInt T), (''x2'', AFix 1 kx), (''y2'', AInt (T + PH)),
                     (''stroke'', AStr MUTED), (''stroke-width'', AStr ''1''), (''stroke-dasharray'', AStr ''4 4'')] [],
      text_elem [(''x'', AFix 1 (fl (kx + 6))), (''y'', AInt (T + snd (snd m))), (''font-size'', AStr ''11''),
                 (''font-weight'', AStr ''600''), (''fill'', AStr INK2)] (fst (snd m))])"

definition clip_path :: "string \<Rightarrow> int \<Rightarrow> int \<Rightarrow> int \<Rightarrow> int \<Rightarrow> svg" where
  "clip_path ident L T PW PH = Elem ''clipPath'' [(''id'', AStr ident)]
     [Elem ''rect'' [(''x'', AInt (L - 6)), (''y'', AInt (T - 6)), (''width'', AInt (PW + 12)), (''height'', AInt (PH + 12))] []]"

text \<open>
  The vertical positions of the two end labels: clamped to the plot, and pushed apart
  symmetrically when they are closer than \<open>kMinLabelGap = 14.0\<close>. The result is the pair of
  \<open>pos["p99"]\<close> and \<open>pos["p50"]\<close>.
\<close>

definition label_positions :: "int \<Rightarrow> int \<Rightarrow> rat \<Rightarrow> rat \<Rightarrow> rat \<times> rat" where
  "label_positions T PH y99 y50 =
     (let p99 = min (max y99 (of_int T)) (of_int (T + PH));
          p50 = min (max y50 (of_int T)) (of_int (T + PH))
      in if \<bar>fl (p99 - p50)\<bar> < 14
         then (let mid = fl (fl (p99 + p50) / 2)
               in if p99 \<le> p50 then (fl (mid - 7), fl (mid + 7)) else (fl (mid + 7), fl (mid - 7)))
         else (p99, p50))"

definition end_label :: "rat \<Rightarrow> rat \<Rightarrow> string \<Rightarrow> svg" where
  "end_label x y key = text_elem [(''x'', AFix 1 (fl (x + 12))), (''y'', AFix 1 (fl (y + 4))), (''font-size'', AStr ''12''),
     (''font-weight'', AStr ''600''), (''fill'', AStr INK)] key"

definition latency_label :: string where
  "latency_label = ''latency ('' @ micro @ ''s), log scale''"

definition product_chart :: "(rat \<Rightarrow> rat) \<Rightarrow> point list \<Rightarrow> chart_cfg \<Rightarrow> svg list res" where
  "product_chart lg pts cfg =
     (let W = 820; H = 440; L = 78; R = 120; T = 86; B = 74; PW = W - L - R; PH = H - T - B in
      bindE (py_log10 lg (of_int (fst (c_yrange cfg)))) (\<lambda>ylo.
      bindE (py_log10 lg (of_int (snd (c_yrange cfg)))) (\<lambda>yhi.
      let xm = x_map L PW (c_xmax cfg); ym = y_map lg T PH ylo yhi;
          o1 = head W H (c_title cfg) [c_line2 cfg,
            ''p50 and p99 latency, open loop. Hollow marker = the cluster fell behind the offered rate.''] in
      bindE (xm (c_comfort cfg)) (\<lambda>xc.
      let o2 = [Elem ''rect'' [(''x'', AInt L), (''y'', AInt T), (''width'', AFix 1 (fl (xc - of_int L))), (''height'', AInt PH), (''fill'', AStr BAND)] [],
                text_elem [(''x'', AInt (L + 8)), (''y'', AInt (T + 16)), (''font-size'', AStr ''11''), (''fill'', AStr MUTED)] ''comfort zone''] in
      bindE (collectE (rule_mark T PH xm) (c_markers cfg)) (\<lambda>o3.
      bindE (axes L T PW PH (c_xmax cfg) (c_xstep cfg) (c_yticks cfg) latency_label ym commas) (\<lambda>o4.
      bindE (series pts C2 xm ym ''p99'') (\<lambda>s99.
      bindE (series pts C1 xm ym ''p50'') (\<lambda>s50.
      bindE (last_of pts) (\<lambda>p.
      bindE (bindE (pt_get p ''p99'') ym) (\<lambda>y99.
      bindE (bindE (pt_get p ''p50'') ym) (\<lambda>y50.
      bindE (bindE (pt_get p ''rate'') xm) (\<lambda>x.
      let (l99, l50) = label_positions T PH y99 y50 in
      Inr (o1 @ o2 @ o3 @ o4 @
           [Elem ''defs'' [] [clip_path ''plot'' L T PW PH], Open ''g'' [(''clip-path'', AStr ''url(#plot)'')]] @
           s99 @ s50 @ [Close ''g''] @
           [end_label x l99 ''p99'', end_label x l50 ''p50''] @
           legend L H [(''p50'', C1), (''p99'', C2)] None @ [Close ''svg''])))))))))))))"

section \<open>What the routines draw\<close>

text \<open>A point that can be drawn: the columns are there, the latencies are positive and every
  number is far below the limits of a double.\<close>

definition val :: "point \<Rightarrow> string \<Rightarrow> int" where
  "val p k = the (dict_get p k)"

definition drawable :: "string list \<Rightarrow> point \<Rightarrow> bool" where
  "drawable keys p \<longleftrightarrow> (\<forall>k \<in> set (''rate'' # ''achieved'' # keys). dict_get p k \<noteq> None) \<and>
     0 \<le> val p ''rate'' \<and> val p ''rate'' < 2 ^ 40 \<and> \<bar>val p ''achieved''\<bar> < 2 ^ 40 \<and>
     (\<forall>k \<in> set keys. 1 \<le> val p k \<and> val p k \<le> 10 ^ 9)"

definition fell_behind :: "point \<Rightarrow> bool" where
  "fell_behind p \<longleftrightarrow> 100 * val p ''achieved'' < 99 * val p ''rate''"

definition circle_at :: "rat \<Rightarrow> rat \<Rightarrow> bool \<Rightarrow> string \<Rightarrow> svg" where
  "circle_at x y hollow col = Elem ''circle'' [(''cx'', AFix 1 x), (''cy'', AFix 1 y), (''r'', AStr ''4.5''),
     (''fill'', AStr (if hollow then SURF else col)), (''stroke'', AStr (if hollow then col else SURF)), (''stroke-width'', AStr ''2'')] []"

text \<open>The markers of a document: circles with a rim, which those of a legend do not have.\<close>

fun is_marker :: "svg \<Rightarrow> bool" where
  "is_marker (Elem tag as cs) = (tag = ''circle'' \<and> ''stroke'' \<in> fst ` set as)"
| "is_marker e = False"

definition markers :: "svg list \<Rightarrow> svg list" where
  "markers o' = filter is_marker o'"

text \<open>
  What the marker of a point has to be, in a plot at \<open>L\<close>, \<open>T\<close> of width \<open>PW\<close> and height
  \<open>PH\<close> over the rates up to \<open>xmax\<close> and the latencies from \<open>lo\<close> to \<open>hi\<close>: a circle of the
  given colour, hollow or not, where the point belongs; inside the plot when the rate and the
  latency are within the axes, and at or beyond the right edge when the rate is not.
\<close>

definition drawn_point :: "int \<times> int \<times> int \<Rightarrow> int \<times> int \<times> int \<times> int \<Rightarrow> int \<times> int \<times> bool \<times> string \<Rightarrow> svg \<Rightarrow> bool" where
  "drawn_point = (\<lambda>(L, PW, xmax) (T, PH, lo, hi) (rate, lat, hollow, col) e. \<exists>x y. e = circle_at x y hollow col \<and>
     (if rate \<le> xmax then near x (rate_x L PW xmax rate) \<and> of_int L \<le> x \<and> x \<le> of_int (L + PW) else of_int (L + PW) \<le> x) \<and>
     near y (latency_y T PH lo hi lat) \<and>
     (lo \<le> lat \<and> lat \<le> hi \<longrightarrow> of_int T \<le> y \<and> y \<le> of_int (T + PH)))"

lemma markers_simps [simp]:
  "markers [] = []" "markers (xs @ ys) = markers xs @ markers ys"
  "markers (e # xs) = (if is_marker e then [e] else []) @ markers xs"
  by (simp_all add: markers_def)

lemma markers_concat: "(\<And>ys. ys \<in> set parts \<Longrightarrow> markers ys = []) \<Longrightarrow> markers (concat parts) = []"
  by (induction parts) auto

lemma markers_map: "(\<And>x. \<not> is_marker (f x)) \<Longrightarrow> markers (map f xs) = []"
  by (induction xs) auto

lemma markers_collect:
  "collectE f xs = Inr o' \<Longrightarrow> (\<And>x ys. x \<in> set xs \<Longrightarrow> f x = Inr ys \<Longrightarrow> markers ys = []) \<Longrightarrow> markers o' = []"
  using collectE_parts[of f xs o'] markers_concat by metis

lemma markers_ticks:
  "x_ticks body xmax xstep v = Inr o' \<Longrightarrow> (\<And>r ys. body r = Inr ys \<Longrightarrow> markers ys = []) \<Longrightarrow> markers o' = []"
  using x_ticks_parts[of body xmax xstep v o'] markers_concat by metis

lemma is_marker_circle [simp]: "is_marker (circle_at x y h col)"
  by (simp add: circle_at_def)

lemma markers_circles [simp]: "markers (map (\<lambda>p. circle_at (f p) (g p) (h p) col) pts) = map (\<lambda>p. circle_at (f p) (g p) (h p) col) pts"
  by (induction pts) auto

lemma pt_get_val: "dict_get p k \<noteq> None \<Longrightarrow> pt_get p k = Inr (val p k)"
  by (auto simp: dict_index_def val_def)

lemma drawableD:
  assumes "drawable keys p"
  shows "pt_get p ''rate'' = Inr (val p ''rate'')" "pt_get p ''achieved'' = Inr (val p ''achieved'')"
    "k \<in> set keys \<Longrightarrow> pt_get p k = Inr (val p k)" "k \<in> set keys \<Longrightarrow> 1 \<le> val p k \<and> val p k \<le> 10 ^ 9"
    "0 \<le> val p ''rate''" "val p ''rate'' < 2 ^ 40"
  using assms by (auto simp: drawable_def intro!: pt_get_val)

lemma drawable_mono: "drawable keys p \<Longrightarrow> set keys' \<subseteq> set keys \<Longrightarrow> drawable keys' p"
  by (auto simp: drawable_def)

text \<open>The marker is hollow exactly when less than 99 % of the offered rate was achieved.\<close>

lemma sat_drawable: "drawable keys p \<Longrightarrow> sat p = Inr (fell_behind p)"
  by (simp add: sat_def drawableD fell_behind_def, rule below_99_exact) (auto simp: drawable_def)

locale chart_maps =
  fixes xm ym :: "int \<Rightarrow> rat res" and fx fy :: "int \<Rightarrow> rat"
  assumes xm_total: "0 \<le> r \<Longrightarrow> r < 2 ^ 40 \<Longrightarrow> xm r = Inr (fx r)"
    and ym_total: "1 \<le> v \<Longrightarrow> v \<le> 10 ^ 9 \<Longrightarrow> ym v = Inr (fy v)"
begin

lemma place_drawable:
  "drawable keys p \<Longrightarrow> key \<in> set keys \<Longrightarrow> place xm ym key p = Inr (fx (val p ''rate''), fy (val p key))"
proof -
  assume d: "drawable keys p" and k: "key \<in> set keys"
  have "xm (val p ''rate'') = Inr (fx (val p ''rate''))" by (rule xm_total) (rule drawableD[OF d])+
  moreover have "ym (val p key) = Inr (fy (val p key))" by (rule ym_total) (use drawableD(4)[OF d k] in blast)+
  ultimately show ?thesis by (simp add: place_def drawableD[OF d] k)
qed

lemma marker_drawable:
  "drawable keys p \<Longrightarrow> key \<in> set keys \<Longrightarrow>
   marker col xm ym key p = Inr [circle_at (fx (val p ''rate'')) (fy (val p key)) (fell_behind p) col]"
  by (simp add: marker_def place_drawable sat_drawable circle_at_def)

text \<open>A series is one path and one marker per point, in order.\<close>

lemma series_drawable:
  assumes "\<And>p. p \<in> set pts \<Longrightarrow> drawable keys p" "key \<in> set keys"
  shows "series pts col xm ym key = Inr (
     Elem ''path'' [(''d'', AStr (path_data (map (\<lambda>p. (fx (val p ''rate''), fy (val p key))) pts))), (''fill'', AStr ''none''),
       (''stroke'', AStr col), (''stroke-width'', AStr ''2''), (''stroke-linejoin'', AStr ''round''), (''stroke-linecap'', AStr ''round'')] [] #
     map (\<lambda>p. circle_at (fx (val p ''rate'')) (fy (val p key)) (fell_behind p) col) pts)"
proof -
  have "mapE (place xm ym key) pts = Inr (map (\<lambda>p. (fx (val p ''rate''), fy (val p key))) pts)"
    using assms by (intro mapE_total place_drawable)
  moreover have "mapE (marker col xm ym key) pts =
      Inr (map (\<lambda>p. [circle_at (fx (val p ''rate'')) (fy (val p key)) (fell_behind p) col]) pts)"
    using assms by (intro mapE_total marker_drawable)
  moreover have "concat (map (\<lambda>p. [f p]) pts) = map f pts" for f :: "point \<Rightarrow> svg" by (induction pts) auto
  ultimately show ?thesis by (simp add: series_def collectE_def)
qed

end

lemma path_data_safe: "safe_text (path_data xys)" "CHR 0x22 \<notin> set (path_data xys)"
proof -
  show "safe_text (path_data xys)" unfolding path_data_def by (rule safe_join) auto
  show "CHR 0x22 \<notin> set (path_data xys)"
    unfolding path_data_def by (rule contra_subsetD[OF join_chars]) auto
qed

lemma safe_path [simp]: "safe_attr (k, AStr (path_data xys))"
  by (simp add: path_data_safe)

lemma circle_nested [simp]:
  "well_nested (circle_at x y h col # o') \<longleftrightarrow> safe_attr (''fill'', AStr col) \<and> well_nested o'"
  by (cases h) (auto simp: circle_at_def)

lemma circles_nested:
  "safe_attr (''fill'', AStr col) \<Longrightarrow> well_nested (map (\<lambda>p. circle_at (f p) (g p) (h p) col) pts)"
  by (induction pts) auto

section \<open>The axes of a chart\<close>

text \<open>The rates at which the loop of \<open>axes\<close> puts a tick.\<close>

definition tick_rates :: "int \<Rightarrow> int \<Rightarrow> int list" where
  "tick_rates xmax xstep = map (\<lambda>i. int i * xstep) [0..<nat (xmax div xstep + 1)]"

lemma tick_rates_mem:
  assumes "0 < xstep" "0 \<le> xmax"
  shows "r \<in> set (tick_rates xmax xstep) \<longleftrightarrow> 0 \<le> r \<and> r \<le> xmax \<and> xstep dvd r"
proof
  assume "r \<in> set (tick_rates xmax xstep)"
  then obtain i where i: "r = int i * xstep" "i \<in> {0..<nat (xmax div xstep + 1)}"
    unfolding tick_rates_def set_map set_upt by blast
  then have "int i \<le> xmax div xstep" by (simp only: atLeastLessThan_iff) linarith
  then have "int i * xstep \<le> (xmax div xstep) * xstep" using assms by (intro mult_right_mono) auto
  also have "\<dots> \<le> xmax" using div_mult_mod_eq[of xmax xstep] pos_mod_sign[OF assms(1), of xmax] by linarith
  finally show "0 \<le> r \<and> r \<le> xmax \<and> xstep dvd r" using i assms by auto
next
  assume r: "0 \<le> r \<and> r \<le> xmax \<and> xstep dvd r"
  then obtain j where j: "r = j * xstep" by (metis dvd_div_mult_self)
  then have "0 \<le> j" using r assms(1) by (simp add: zero_le_mult_iff)
  moreover have "j \<le> xmax div xstep" using r j assms(1) zdiv_mono1[of r xmax xstep] by simp
  ultimately show "r \<in> set (tick_rates xmax xstep)"
    unfolding tick_rates_def by (auto simp: j intro!: image_eqI[of _ _ "nat j"])
qed

lemma x_ticks_returned:
  assumes "x_ticks body xmax xstep r = Inr o'" "\<And>r ys. body r = Inr ys \<Longrightarrow> well_nested ys"
  shows "well_nested o'"
  using x_ticks_parts[OF assms(1)] assms(2) well_nested_concat by metis

lemma x_ticks_ex:
  assumes "0 < xstep" "0 \<le> xmax" "\<And>r. 0 \<le> r \<Longrightarrow> r \<le> xmax \<Longrightarrow> \<exists>ys. body r = Inr ys \<and> well_nested ys"
  shows "\<exists>o'. x_ticks body xmax xstep 0 = Inr o' \<and> well_nested o'"
proof -
  have c: "x_ticks body xmax xstep 0 = collectE body (tick_rates xmax xstep)"
    using assms(1) by (simp add: x_ticks_collect tick_rates_def)
  have b: "\<exists>ys. body r = Inr ys \<and> well_nested ys" if "r \<in> set (tick_rates xmax xstep)" for r
    using that assms(3) tick_rates_mem[OF assms(1,2)] by blast
  then obtain o' where o: "collectE body (tick_rates xmax xstep) = Inr o'" using collectE_ex by meson
  moreover have "well_nested o'" by (rule collectE_well_nested[OF o]) (use b in fastforce)
  ultimately show ?thesis using c by simp
qed

locale knee_axes = log10_function +
  fixes L PW xmax T PH ylo yhi :: int
  assumes x_range: "0 < xmax" "xmax < 2 ^ 40" "0 \<le> PW" "PW \<le> 2 ^ 40" "\<bar>L\<bar> \<le> 2 ^ 40"
    and y_range: "0 \<le> PH" "PH \<le> 2 ^ 40" "\<bar>T\<bar> \<le> 2 ^ 40" "1 \<le> ylo" "2 * ylo \<le> yhi" "yhi \<le> 10 ^ 9"
begin

abbreviation xm :: "int \<Rightarrow> rat res" where
  "xm \<equiv> x_map L PW xmax"

abbreviation ym :: "int \<Rightarrow> rat res" where
  "ym \<equiv> y_map lg T PH (lg (of_int ylo)) (lg (of_int yhi))"

abbreviation px :: "int \<Rightarrow> rat" where
  "px \<equiv> x_pos L PW xmax"

abbreviation py :: "int \<Rightarrow> rat" where
  "py v \<equiv> y_pos T PH (lg (of_int ylo)) (lg (of_int yhi)) (lg (of_int v))"

lemma xm_px: "\<bar>r\<bar> < 2 ^ 40 \<Longrightarrow> xm r = Inr (px r)"
  using x_range by (intro x_map_pos) auto

lemma ym_py: "1 \<le> v \<Longrightarrow> ym v = Inr (py v)"
  using y_range by (intro y_map_pos)

lemma px_bounds: "0 \<le> r \<Longrightarrow> r \<le> xmax \<Longrightarrow> of_int L \<le> px r \<and> px r \<le> of_int (L + PW)"
  using x_range by (intro x_pos_bounds)

lemma py_bounds: "ylo \<le> v \<Longrightarrow> v \<le> yhi \<Longrightarrow> of_int T \<le> py v \<and> py v \<le> of_int (T + PH)"
  using y_range by (intro y_axis_bounds)

lemma px_mono: "r \<le> r' \<Longrightarrow> px r \<le> px r'"
  using x_range by (intro x_pos_mono)

lemma py_antimono: "1 \<le> v \<Longrightarrow> v \<le> v' \<Longrightarrow> v' \<le> 10 ^ 9 \<Longrightarrow> py v' \<le> py v"
  using y_range by (intro y_axis_antimono)

text \<open>A marker at the coordinates of the two axes is where the point belongs.\<close>

lemma drawn_point_at:
  assumes "0 \<le> L" "L \<le> 1000" "PW \<le> 1000" "0 \<le> T" "T \<le> 1000" "PH \<le> 1000" "0 \<le> r" "1 \<le> v" "v \<le> 10 ^ 9"
  shows "drawn_point (L, PW, xmax) (T, PH, ylo, yhi) (r, v, hollow, col) (circle_at (px r) (py v) hollow col)"
proof -
  have "near (py v) (latency_y T PH ylo yhi v)" using y_range assms by (intro y_pos_near) auto
  moreover have "near (px r) (rate_x L PW xmax r)" if "r \<le> xmax" using x_range assms that by (intro x_pos_near) auto
  moreover have "of_int (L + PW) \<le> px r" if "xmax \<le> r"
    using px_mono[OF that] x_pos_xmax[of PW L xmax] x_range by simp
  ultimately show ?thesis using px_bounds[of r] py_bounds[of v] assms(7) unfolding drawn_point_def case_prod_conv
    by (intro exI[of _ "px r"] exI[of _ "py v"]) (simp del: of_int_add)
qed

lemma axes_drawn:
  assumes "0 < xstep" "\<And>v. v \<in> set yticks \<Longrightarrow> 1 \<le> v"
  shows "axes L T PW PH xmax xstep yticks ylab ym fmt = Inr (
     concat (map (\<lambda>v. y_tick_at L PW (py v) (fmt v)) yticks) @
     [y_caption (fl (of_int T + fl (of_int PH / 2))) ylab, base_line L T PW PH] @
     concat (map (\<lambda>r. x_tick_at T PH (px r) r) (tick_rates xmax xstep)) @
     [x_caption (fl (of_int L + fl (of_int PW / 2))) (T + PH + 44)])"
proof -
  have "mapE (y_tick L PW ym fmt) yticks = Inr (map (\<lambda>v. y_tick_at L PW (py v) (fmt v)) yticks)"
    using assms(2) by (intro mapE_total) (simp add: y_tick_def ym_py)
  then have y: "collectE (y_tick L PW ym fmt) yticks = Inr (concat (map (\<lambda>v. y_tick_at L PW (py v) (fmt v)) yticks))"
    by (simp add: collectE_def)
  have "mapE (x_tick L T PW PH xmax) (tick_rates xmax xstep) = Inr (map (\<lambda>r. x_tick_at T PH (px r) r) (tick_rates xmax xstep))"
  proof (rule mapE_total)
    fix r assume "r \<in> set (tick_rates xmax xstep)"
    then have "\<bar>r\<bar> < 2 ^ 40" using tick_rates_mem[OF assms(1)] x_range by force
    then show "x_tick L T PW PH xmax r = Inr (x_tick_at T PH (px r) r)" by (simp only: x_tick_def xm_px bindE_Inr)
  qed
  then have x: "x_ticks (x_tick L T PW PH xmax) xmax xstep 0 = Inr (concat (map (\<lambda>r. x_tick_at T PH (px r) r) (tick_rates xmax xstep)))"
    using assms(1) by (simp add: x_ticks_collect collectE_def tick_rates_def)
  have "\<bar>PH\<bar> \<le> 2 ^ 53" "\<bar>PW\<bar> \<le> 2 ^ 53" using x_range y_range by auto
  then have "int_truediv PH 2 = Inr (fl (of_int PH / of_int 2))" "int_truediv PW 2 = Inr (fl (of_int PW / of_int 2))"
    by (intro int_truediv_small; simp)+
  then show ?thesis by (simp add: axes_def x y)
qed

end

sublocale knee_axes \<subseteq> chart_maps "x_map L PW xmax" "y_map lg T PH (lg (of_int ylo)) (lg (of_int yhi))"
    "x_pos L PW xmax" "\<lambda>v. y_pos T PH (lg (of_int ylo)) (lg (of_int yhi)) (lg (of_int v))"
  by unfold_locales (auto intro!: xm_px ym_py)

lemma knee_axes_maps:
  assumes "knee_axes lg L PW xmax T PH ylo yhi"
  shows "chart_maps (x_map L PW xmax) (y_map lg T PH (lg (of_int ylo)) (lg (of_int yhi)))
    (x_pos L PW xmax) (\<lambda>v. y_pos T PH (lg (of_int ylo)) (lg (of_int yhi)) (lg (of_int v)))"
  by (rule chart_maps.intro) (auto intro!: knee_axes.xm_px[OF assms] knee_axes.ym_py[OF assms])

text \<open>The axes of \<open>knee-curves.svg\<close>, with the logarithm rounded to 49 places.\<close>

interpretation combined_axes: knee_axes log10_rounded 78 672 650000 78 348 420 16000
  by unfold_locales simp_all

lemma y_ticks_nested:
  "(\<And>v. v \<in> set vs \<Longrightarrow> safe_text (fmt v)) \<Longrightarrow> well_nested (concat (map (\<lambda>v. y_tick_at L PW (f v) (fmt v)) vs))"
  by (rule well_nested_concat) (auto simp: y_tick_at_def safe_string)

lemma x_ticks_nested: "well_nested (concat (map (\<lambda>r. x_tick_at T PH (f r) r) rs))"
  by (rule well_nested_concat) (auto simp: x_tick_at_def safe_string)

lemma captions_nested [simp]:
  "well_nested (y_caption mid ylab # o') \<longleftrightarrow> safe_text ylab \<and> well_nested o'"
  "well_nested (base_line L T PW PH # o') \<longleftrightarrow> well_nested o'"
  "well_nested (x_caption x y # o') \<longleftrightarrow> well_nested o'"
  "well_nested (end_label x yy key # o') \<longleftrightarrow> safe_text key \<and> well_nested o'"
  by (auto simp: y_caption_def base_line_def x_caption_def end_label_def)

lemma axes_nested:
  assumes "knee_axes lg L PW xmax T PH ylo yhi" "0 < xstep" "\<forall>v \<in> set yticks. 1 \<le> v" "safe_text ylab" "\<And>v. safe_text (fmt v)"
  shows "\<exists>o'. axes L T PW PH xmax xstep yticks ylab (y_map lg T PH (lg (of_int ylo)) (lg (of_int yhi))) fmt = Inr o' \<and> well_nested o'"
proof -
  have "\<And>v. v \<in> set yticks \<Longrightarrow> 1 \<le> v" using assms(3) by blast
  from knee_axes.axes_drawn[OF assms(1,2) this, of yticks ylab fmt]
  show ?thesis using assms(4,5) by (simp add: y_ticks_nested x_ticks_nested)
qed

lemma safe_us_label [simp]: "safe_text (us_label v)"
  by (simp add: us_label_def)

lemma legend_loop_nested:
  "\<forall>item \<in> set items. safe_text (fst item) \<and> safe_attr (''fill'', AStr (snd item)) \<Longrightarrow>
   well_nested (legend_loop L maxx y lx items)"
proof (induction items arbitrary: y lx)
  case (Cons item items)
  have "safe_text (fst item) \<and> safe_attr (''fill'', AStr (snd item))" using Cons.prems by simp
  moreover have "well_nested (legend_loop L maxx y' lx' items)" for y' lx' using Cons.prems by (intro Cons.IH) simp
  ultimately show ?case by (auto simp: Let_def legend_entry_def split: prod.splits)
qed simp

lemma legend_nested:
  "\<forall>item \<in> set items. safe_text (fst item) \<and> safe_attr (''fill'', AStr (snd item)) \<Longrightarrow>
   well_nested (legend L H items maxx)"
  unfolding legend_def Let_def by (rule legend_loop_nested)

lemma head_split: "head W H title sub = svg_open W H title # tl (head W H title sub)"
  by (simp add: head_def)

lemma head_nested:
  assumes "safe_text title" "\<And>l. l \<in> set sub \<Longrightarrow> safe_text l"
  shows "well_nested (tl (head W H title sub))"
proof -
  have "well_nested (map (\<lambda>(i, l). text_elem (a i) l) xs)"
    if "\<And>i. safe_tag ''text'' (a i)" "\<forall>il \<in> set xs. safe_text (snd il)" for a :: "int \<Rightarrow> attr list" and xs
    using that(2) by (induction xs) (auto simp del: safe_tag_def simp: that(1))
  moreover have "\<forall>il \<in> set (enum sub). safe_text (snd il)"
    using assms(2) by (auto simp: enum_def dest: set_zip_rightD)
  ultimately show ?thesis using assms(1) by (simp add: head_def)
qed

lemma svg_open_safe:
  assumes "well_nested o'" "safe_text title" "CHR 0x22 \<notin> set title"
  shows "well_formed (svg_open W H title # o' @ [Close ''svg''])"
  unfolding svg_open_def using assms by (intro well_nested_well_formed) auto

lemma head_document:
  assumes "well_nested o'" "safe_text title" "CHR 0x22 \<notin> set title" "list_all safe_text sub"
  shows "well_formed (head W H title sub @ o' @ [Close ''svg''])"
proof -
  have "well_nested (tl (head W H title sub) @ o')" using assms head_nested[of title sub W H] by (simp add: list_all_iff)
  from svg_open_safe[OF this assms(2,3), of W H] show ?thesis by (subst head_split) simp
qed

lemma clip_safe [simp]:
  "safe_elem (clip_path ident L T PW PH) \<longleftrightarrow> safe_text ident \<and> CHR 0x22 \<notin> set ident" "no_open (clip_path ident L T PW PH)"
  by (auto simp: clip_path_def)

section \<open>The per-product charts are drawn\<close>

text \<open>An entry of the table that fits its own axes.\<close>

definition cfg_ok :: "chart_cfg \<Rightarrow> bool" where
  "cfg_ok cfg \<longleftrightarrow> 0 < c_xmax cfg \<and> c_xmax cfg < 2 ^ 40 \<and> 0 < c_xstep cfg \<and>
     1 \<le> fst (c_yrange cfg) \<and> 2 * fst (c_yrange cfg) \<le> snd (c_yrange cfg) \<and> snd (c_yrange cfg) \<le> 10 ^ 9 \<and>
     (\<forall>v \<in> set (c_yticks cfg). fst (c_yrange cfg) \<le> v \<and> v \<le> snd (c_yrange cfg)) \<and>
     0 \<le> c_comfort cfg \<and> c_comfort cfg \<le> c_xmax cfg \<and>
     (\<forall>m \<in> set (c_markers cfg). 0 \<le> fst m \<and> fst m \<le> c_xmax cfg \<and> safe_text (fst (snd m))) \<and>
     safe_text (c_title cfg) \<and> CHR 0x22 \<notin> set (c_title cfg) \<and> safe_text (c_line2 cfg)"

lemma CFG_ok: "list_all (\<lambda>nc. cfg_ok (snd nc)) CFG"
  unfolding CFG_def by (simp add: cfg_ok_def cfg_defs em_dash_def micro_def)

text \<open>Apart from the series no routine draws a marker.\<close>

lemma legend_plain: "markers (legend L H items maxx) = []"
proof -
  have "markers (legend_loop L m y lx items) = []" for m y lx
    by (induction items arbitrary: y lx) (auto simp: Let_def legend_entry_def split: prod.splits)
  then show ?thesis by (simp add: legend_def Let_def)
qed

lemma head_plain: "markers (tl (head W H title sub)) = []"
  by (simp add: head_def) (rule markers_map, auto)

lemma axes_plain:
  assumes "axes L T PW PH xmax xstep yticks ylab ymap fmt = Inr o'"
  shows "markers o' = []"
proof -
  from assms obtain ys xs x y where o: "collectE (y_tick L PW ymap fmt) yticks = Inr ys"
      "x_ticks (x_tick L T PW PH xmax) xmax xstep 0 = Inr xs"
      "o' = ys @ [y_caption y ylab, base_line L T PW PH] @ xs @ [x_caption x (T + PH + 44)]"
    by (auto simp: axes_def py_res)
  have "markers ys = []" by (rule markers_collect[OF o(1)]) (auto simp: y_tick_def y_tick_at_def py_res)
  moreover have "markers xs = []" by (rule markers_ticks[OF o(2)]) (auto simp: x_tick_def x_tick_at_def py_res)
  ultimately show ?thesis by (simp add: o(3) y_caption_def base_line_def x_caption_def)
qed

lemma rule_marks_plain: "collectE (rule_mark T PH xm) ms = Inr o' \<Longrightarrow> markers o' = []"
  by (erule markers_collect) (auto simp: rule_mark_def py_res)

lemma rule_marks_nested:
  assumes "\<And>m. m \<in> set ms \<Longrightarrow> safe_text (fst (snd m))" "collectE (rule_mark T PH xm) ms = Inr o'"
  shows "well_nested o'"
  using assms(2)
proof (rule collectE_well_nested)
  fix m ys assume "m \<in> set ms" "rule_mark T PH xm m = Inr ys"
  then show "well_nested ys" using assms(1)[of m] by (auto simp: rule_mark_def py_res)
qed

definition series_list :: "(int \<Rightarrow> rat) \<Rightarrow> (int \<Rightarrow> rat) \<Rightarrow> point list \<Rightarrow> string \<Rightarrow> string \<Rightarrow> svg list" where
  "series_list fx fy pts col key =
     Elem ''path'' [(''d'', AStr (path_data (map (\<lambda>p. (fx (val p ''rate''), fy (val p key))) pts))), (''fill'', AStr ''none''),
       (''stroke'', AStr col), (''stroke-width'', AStr ''2''), (''stroke-linejoin'', AStr ''round''), (''stroke-linecap'', AStr ''round'')] [] #
     map (\<lambda>p. circle_at (fx (val p ''rate'')) (fy (val p key)) (fell_behind p) col) pts"

lemma series_list_nested: "safe_text col \<Longrightarrow> CHR 0x22 \<notin> set col \<Longrightarrow> well_nested (series_list fx fy pts col key)"
  by (simp add: series_list_def circles_nested path_data_safe)

lemma knee_axes_cfg:
  assumes "log10_function lg" "cfg_ok cfg"
  shows "knee_axes lg 78 622 (c_xmax cfg) 86 280 (fst (c_yrange cfg)) (snd (c_yrange cfg))"
  using assms by (intro knee_axes.intro knee_axes_axioms.intro) (auto simp: cfg_ok_def)

lemma product_rules_drawn:
  assumes "log10_function lg" "cfg_ok cfg"
  shows "\<exists>o'. collectE (rule_mark 86 280 (x_map 78 622 (c_xmax cfg))) (c_markers cfg) = Inr o' \<and> well_nested o'"
proof -
  note c = assms(2)[unfolded cfg_ok_def]
  have "\<exists>o'. collectE (rule_mark 86 280 (x_map 78 622 (c_xmax cfg))) (c_markers cfg) = Inr o'"
  proof (rule collectE_ex)
    fix m assume "m \<in> set (c_markers cfg)"
    then have "\<bar>fst m\<bar> < 2 ^ 40" using c by fastforce
    then show "\<exists>ys. rule_mark 86 280 (x_map 78 622 (c_xmax cfg)) m = Inr ys"
      by (simp only: rule_mark_def knee_axes.xm_px[OF knee_axes_cfg[OF assms]] bindE_Inr) blast
  qed
  then obtain o' where "collectE (rule_mark 86 280 (x_map 78 622 (c_xmax cfg))) (c_markers cfg) = Inr o'" ..
  moreover from rule_marks_nested[OF _ this] have "well_nested o'" using c by blast
  ultimately show ?thesis by blast
qed

lemma product_labels_drawn:
  assumes "log10_function lg" "cfg_ok cfg" "drawable [''p50'', ''p99''] p" "k \<in> set [''p50'', ''p99'']"
  shows "pt_get p k = Inr (val p k)"
    and "y_map lg 86 280 (lg (of_int (fst (c_yrange cfg)))) (lg (of_int (snd (c_yrange cfg)))) (val p k) =
      Inr (y_pos 86 280 (lg (of_int (fst (c_yrange cfg)))) (lg (of_int (snd (c_yrange cfg)))) (lg (of_int (val p k))))"
    and "pt_get p ''rate'' = Inr (val p ''rate'')"
    and "x_map 78 622 (c_xmax cfg) (val p ''rate'') = Inr (x_pos 78 622 (c_xmax cfg) (val p ''rate''))"
proof -
  note K = knee_axes_cfg[OF assms(1,2)]
  show "pt_get p k = Inr (val p k)" by (rule drawableD(3)[OF assms(3,4)])
  show "y_map lg 86 280 (lg (of_int (fst (c_yrange cfg)))) (lg (of_int (snd (c_yrange cfg)))) (val p k) =
      Inr (y_pos 86 280 (lg (of_int (fst (c_yrange cfg)))) (lg (of_int (snd (c_yrange cfg)))) (lg (of_int (val p k))))"
    using drawableD(4)[OF assms(3,4)] by (intro knee_axes.ym_py[OF K]) blast
  show "pt_get p ''rate'' = Inr (val p ''rate'')" by (rule drawableD(1)[OF assms(3)])
  show "x_map 78 622 (c_xmax cfg) (val p ''rate'') = Inr (x_pos 78 622 (c_xmax cfg) (val p ''rate''))"
    using drawableD(5,6)[OF assms(3)] by (auto intro!: knee_axes.xm_px[OF K])
qed

lemma product_chart_drawn:
  fixes lg cfg
  defines "px \<equiv> x_pos 78 622 (c_xmax cfg)"
    and "py \<equiv> \<lambda>v. y_pos 86 280 (lg (of_int (fst (c_yrange cfg)))) (lg (of_int (snd (c_yrange cfg)))) (lg (of_int v))"
  assumes lg: "log10_function lg" and cfg: "cfg_ok cfg"
    and pts: "pts \<noteq> []" "\<And>p. p \<in> set pts \<Longrightarrow> drawable [''p50'', ''p99''] p"
  shows "\<exists>o1 o2. product_chart lg pts cfg = Inr (svg_open 820 440 (c_title cfg) #
      (o1 @ Open ''g'' [(''clip-path'', AStr ''url(#plot)'')] #
       (series_list px py pts C2 ''p99'' @ series_list px py pts C1 ''p50'') @ Close ''g'' # o2) @ [Close ''svg'']) \<and>
    well_nested o1 \<and> well_nested o2 \<and> markers o1 = [] \<and> markers o2 = []"
proof -
  let ?xm = "x_map 78 622 (c_xmax cfg)"
  let ?ym = "y_map lg 86 280 (lg (of_int (fst (c_yrange cfg)))) (lg (of_int (snd (c_yrange cfg))))"
  note K = knee_axes_cfg[OF lg cfg]
  note c = cfg[unfolded cfg_ok_def]
  have lo: "py_log10 lg (of_int (fst (c_yrange cfg))) = Inr (lg (of_int (fst (c_yrange cfg))))"
    and hi: "py_log10 lg (of_int (snd (c_yrange cfg))) = Inr (lg (of_int (snd (c_yrange cfg))))"
    using c by (simp_all add: py_log10_def)
  have comfort: "?xm (c_comfort cfg) = Inr (px (c_comfort cfg))"
    unfolding px_def using c by (intro knee_axes.xm_px[OF K]) auto
  obtain o3 where o3: "collectE (rule_mark 86 280 ?xm) (c_markers cfg) = Inr o3" "well_nested o3"
    using product_rules_drawn[OF lg cfg] by blast
  have "\<And>v. v \<in> set (c_yticks cfg) \<Longrightarrow> 1 \<le> v" using c by fastforce
  then obtain o4 where o4: "axes 78 86 622 280 (c_xmax cfg) (c_xstep cfg) (c_yticks cfg) latency_label ?ym commas = Inr o4" "well_nested o4"
    using axes_nested[OF K, of "c_xstep cfg" "c_yticks cfg" latency_label commas] c by (auto simp: latency_label_def)
  have s: "series pts col ?xm ?ym key = Inr (series_list px py pts col key)" if "key \<in> set [''p50'', ''p99'']" for col key
    unfolding series_list_def px_def py_def using that pts(2) by (intro chart_maps.series_drawable[OF knee_axes_maps[OF K]]) auto
  have l: "last_of pts = Inr (last pts)" "drawable [''p50'', ''p99''] (last pts)"
    using pts by (auto simp: last_of_def)
  note v = product_labels_drawn[OF lg cfg l(2), folded px_def, of "''p50''"] product_labels_drawn(1,2)[OF lg cfg l(2), of "''p99''"]
  obtain l99 l50 where lp: "label_positions 86 280 (py (val (last pts) ''p99'')) (py (val (last pts) ''p50'')) = (l99, l50)"
    by fastforce
  define o1 where "o1 = tl (head 820 440 (c_title cfg) [c_line2 cfg,
      ''p50 and p99 latency, open loop. Hollow marker = the cluster fell behind the offered rate.'']) @
    [Elem ''rect'' [(''x'', AInt 78), (''y'', AInt 86), (''width'', AFix 1 (fl (px (c_comfort cfg) - of_int 78))), (''height'', AInt 280), (''fill'', AStr BAND)] [],
     text_elem [(''x'', AInt (78 + 8)), (''y'', AInt (86 + 16)), (''font-size'', AStr ''11''), (''fill'', AStr MUTED)] ''comfort zone''] @
    o3 @ o4 @ [Elem ''defs'' [] [clip_path ''plot'' 78 86 622 280]]"
  define o2 where "o2 = [end_label (px (val (last pts) ''rate'')) l99 ''p99'', end_label (px (val (last pts) ''rate'')) l50 ''p50''] @
    legend 78 440 [(''p50'', C1), (''p99'', C2)] None"
  have "product_chart lg pts cfg = Inr (svg_open 820 440 (c_title cfg) #
      (o1 @ Open ''g'' [(''clip-path'', AStr ''url(#plot)'')] #
       (series_list px py pts C2 ''p99'' @ series_list px py pts C1 ''p50'') @ Close ''g'' # o2) @ [Close ''svg''])"
    unfolding product_chart_def o1_def o2_def
    by (subst head_split) (simp add: Let_def lo hi comfort o3 o4 s l v lp[unfolded py_def])
  moreover have "well_nested (tl (head 820 440 (c_title cfg) [c_line2 cfg,
      ''p50 and p99 latency, open loop. Hollow marker = the cluster fell behind the offered rate.'']))"
    using c by (intro head_nested) auto
  then have "well_nested o1" unfolding o1_def using o3(2) o4(2) by simp
  moreover have "well_nested o2" unfolding o2_def by (auto intro!: well_nested_append legend_nested)
  moreover have "markers o1 = []" "markers o2 = []"
    unfolding o1_def o2_def using rule_marks_plain[OF o3(1)] axes_plain[OF o4(1)] by (simp_all add: legend_plain head_plain end_label_def)
  ultimately show ?thesis by blast
qed

text \<open>The document: well formed, with the markers of both curves, one per point and in order.\<close>

lemma product_chart_document:
  assumes "log10_function lg" "cfg_ok cfg" "pts \<noteq> []" "\<forall>p \<in> set pts. drawable [''p50'', ''p99''] p"
  shows "\<exists>o'. product_chart lg pts cfg = Inr o' \<and> well_formed o' \<and>
    markers o' = concat (map (\<lambda>(key, col). map (\<lambda>p. circle_at (x_pos 78 622 (c_xmax cfg) (val p ''rate''))
         (y_pos 86 280 (lg (of_int (fst (c_yrange cfg)))) (lg (of_int (snd (c_yrange cfg)))) (lg (of_int (val p key))))
         (fell_behind p) col) pts) [(''p99'', C2), (''p50'', C1)])"
proof -
  let ?px = "x_pos 78 622 (c_xmax cfg)"
  let ?py = "\<lambda>v. y_pos 86 280 (lg (of_int (fst (c_yrange cfg)))) (lg (of_int (snd (c_yrange cfg)))) (lg (of_int v))"
  let ?body = "\<lambda>o1 o2. o1 @ Open ''g'' [(''clip-path'', AStr ''url(#plot)'')] #
       (series_list ?px ?py pts C2 ''p99'' @ series_list ?px ?py pts C1 ''p50'') @ Close ''g'' # o2"
  obtain o1 o2 where o: "product_chart lg pts cfg = Inr (svg_open 820 440 (c_title cfg) # ?body o1 o2 @ [Close ''svg''])"
      "well_nested o1" "well_nested o2" "markers o1 = []" "markers o2 = []"
    using product_chart_drawn[OF assms(1-3)] assms(4) by blast
  have "well_nested (?body o1 o2)" by (intro well_nested_append o well_nested_bracket series_list_nested) simp_all
  then have "well_formed (svg_open 820 440 (c_title cfg) # ?body o1 o2 @ [Close ''svg''])"
    using assms(2) by (intro svg_open_safe) (auto simp: cfg_ok_def)
  moreover have "markers (svg_open 820 440 (c_title cfg) # ?body o1 o2 @ [Close ''svg'']) =
      concat (map (\<lambda>(key, col). map (\<lambda>p. circle_at (?px (val p ''rate'')) (?py (val p key)) (fell_behind p) col) pts) [(''p99'', C2), (''p50'', C1)])"
    using o(4,5) by (simp add: series_list_def svg_open_def)
  ultimately show ?thesis using o(1) by blast
qed

text \<open>C7: a per-product chart shows every measurement where it belongs, once. For an entry of the
  table \<open>CFG\<close> and a curve whose points carry a rate and an achieved rate from 0 to \<open>2^40\<close> and
  a \<open>p50\<close> and a \<open>p99\<close> from 1 to \<open>10^9\<close> microseconds, and for every \<open>log10\<close> that is accurate
  to \<open>2^(-40)\<close>, the chart is drawn without an exception and is a well-formed document. Its
  markers are, in order, one for the \<open>p99\<close> of each point in the colour \<open>C2\<close> and then one for
  the \<open>p50\<close> of each point in the colour \<open>C1\<close>. Each stands within a hundredth of a pixel of
  the place of its rate on the linear axis and of its latency on the logarithmic axis, whose
  upper end is at the top (a rate beyond the axis stands at or beyond the right edge); it is
  inside the plot when rate and latency are within the axes, and hollow exactly when less
  than 99 % of the offered rate was achieved.\<close>

theorem product_chart_correct:
  assumes "log10_function lg" "(name, cfg) \<in> set CFG" "pts \<noteq> []"
    "\<forall>p \<in> set pts. drawable [''p50'', ''p99''] p"
  shows "\<exists>o'. product_chart lg pts cfg = Inr o' \<and> well_formed o' \<and>
    list_all2 (drawn_point (78, 622, c_xmax cfg) (86, 280, c_yrange cfg))
      (map (\<lambda>p. (val p ''rate'', val p ''p99'', 100 * val p ''achieved'' < 99 * val p ''rate'', C2)) pts @
       map (\<lambda>p. (val p ''rate'', val p ''p50'', 100 * val p ''achieved'' < 99 * val p ''rate'', C1)) pts)
      (markers o')"
proof -
  have cfg: "cfg_ok cfg" using CFG_ok assms(2) by (fastforce simp: list_all_iff)
  note K = knee_axes_cfg[OF assms(1) cfg]
  let ?px = "x_pos 78 622 (c_xmax cfg)"
  let ?py = "\<lambda>v. y_pos 86 280 (lg (of_int (fst (c_yrange cfg)))) (lg (of_int (snd (c_yrange cfg)))) (lg (of_int v))"
  obtain o' where o: "product_chart lg pts cfg = Inr o'" "well_formed o'"
      "markers o' = concat (map (\<lambda>(key, col). map (\<lambda>p. circle_at (?px (val p ''rate'')) (?py (val p key)) (fell_behind p) col) pts) [(''p99'', C2), (''p50'', C1)])"
    using product_chart_document[OF assms(1) cfg assms(3,4)] by blast
  have "drawn_point (78, 622, c_xmax cfg) (86, 280, c_yrange cfg) (val p ''rate'', val p key, 100 * val p ''achieved'' < 99 * val p ''rate'', col)
      (circle_at (?px (val p ''rate'')) (?py (val p key)) (fell_behind p) col)" if p: "p \<in> set pts" and key: "key \<in> set [''p50'', ''p99'']" for p key col
  proof -
    have d: "drawable [''p50'', ''p99''] p" using assms(4) p by blast
    show ?thesis using knee_axes.drawn_point_at[OF K, of "val p ''rate''" "val p key"] drawableD(4)[OF d key] drawableD(5)[OF d]
      by (simp add: fell_behind_def)
  qed
  then have "list_all2 (drawn_point (78, 622, c_xmax cfg) (86, 280, c_yrange cfg))
      (map (\<lambda>p. (val p ''rate'', val p key, 100 * val p ''achieved'' < 99 * val p ''rate'', col)) pts)
      (map (\<lambda>p. circle_at (?px (val p ''rate'')) (?py (val p key)) (fell_behind p) col) pts)" if "key \<in> set [''p50'', ''p99'']" for key col
    using that by (auto simp: list_all2_conv_all_nth)
  from list_all2_appendI[OF this[of "''p99''" C2] this[of "''p50''" C1]] show ?thesis using o by auto
qed

definition sample_curve :: "point list" where
  "sample_curve = [[(''rate'', 100000), (''achieved'', 99990), (''p50'', 900), (''p99'', 1500)],
     [(''rate'', 150000), (''achieved'', 120000), (''p50'', 90000), (''p99'', 300000)]]"

lemma sample_curve_drawable: "\<forall>p \<in> set sample_curve. drawable [''p50'', ''p99''] p" "sample_curve \<noteq> []"
  by (simp_all add: sample_curve_def drawable_def val_def)

theorem product_chart_correct_witness:
  "\<exists>o'. product_chart log10_rounded sample_curve cfg_sequencer_fix = Inr o' \<and> well_formed o' \<and> length (markers o') = 4"
proof -
  have "(''sequencer-fix'', cfg_sequencer_fix) \<in> set CFG" by (simp add: CFG_def)
  from product_chart_correct[OF log10_rounded.log10_function_axioms this sample_curve_drawable(2,1)]
  obtain o' where o: "product_chart log10_rounded sample_curve cfg_sequencer_fix = Inr o'" "well_formed o'"
      "length (markers o') = 2 * length sample_curve" by (auto dest!: list_all2_lengthD)
  then show ?thesis by (intro exI[of _ o']) (simp add: sample_curve_def)
qed

section \<open>The tick loops end\<close>

lemma multiples_bounded: "(\<forall>k. int k * s \<le> m) \<longleftrightarrow> 0 \<le> m \<and> s \<le> 0"
proof
  assume b: "\<forall>k. int k * s \<le> m"
  then have m: "0 \<le> m" by (metis mult_zero_left of_nat_0)
  moreover have "\<not> 0 < s"
  proof
    assume "0 < s"
    then have "(m + 1) * 1 \<le> (m + 1) * s" using m by (intro mult_left_mono) auto
    moreover have "(m + 1) * s \<le> m" using spec[OF b, of "nat (m + 1)"] m by simp
    ultimately show False by simp
  qed
  ultimately show "0 \<le> m \<and> s \<le> 0" by simp
next
  assume "0 \<le> m \<and> s \<le> 0"
  then show "\<forall>k. int k * s \<le> m" by (metis mult_nonneg_nonpos of_nat_0_le_iff order_trans)
qed

lemma tick_rates_sorted: "0 < xstep \<Longrightarrow> sorted_wrt (<) (tick_rates xmax xstep)"
  unfolding tick_rates_def by (simp add: sorted_wrt_map sorted_wrt_iff_nth_less)

text \<open>C25: when the \<open>while\<close> loop that draws the rate axis ends. It runs forever exactly when its
  step is zero or less, the axis is not empty and no round raises, however far below zero the
  rates have fallen; and with a positive step, as every entry of the table \<open>CFG\<close> has, it
  draws one tick for each multiple of the step from 0 to the end of the axis, in order, and
  no other.\<close>

theorem x_ticks_terminates:
  "(x_loop body xmax xstep 0 = None \<longleftrightarrow> 0 \<le> xmax \<and> xstep \<le> 0 \<and> (\<forall>k. \<exists>s. body (int k * xstep) = Inr s)) \<and>
   (0 \<le> xmax \<and> 0 < xstep \<longrightarrow> x_loop body xmax xstep 0 = Some (collectE body (tick_rates xmax xstep)) \<and>
      sorted_wrt (<) (tick_rates xmax xstep) \<and>
      set (tick_rates xmax xstep) = {r. 0 \<le> r \<and> r \<le> xmax \<and> xstep dvd r}) \<and>
   (\<forall>nc \<in> set CFG. 0 < c_xmax (snd nc) \<and> 0 < c_xstep (snd nc))"
proof (intro conjI impI)
  have ends: "x_loop body xmax xstep 0 = None \<longleftrightarrow> (\<forall>k. int k * xstep \<le> xmax \<and> \<not> isl (body (int k * xstep)))"
    using x_loop_returned[of body xmax xstep 0] x_loop_returns[of xmax 0 _ xstep body] by (metis add_0 not_None_eq not_le)
  also have "\<dots> \<longleftrightarrow> 0 \<le> xmax \<and> xstep \<le> 0 \<and> (\<forall>k. \<exists>s. body (int k * xstep) = Inr s)"
  proof -
    have "(\<forall>k. int k * xstep \<le> xmax) \<longleftrightarrow> 0 \<le> xmax \<and> xstep \<le> 0" by (rule multiples_bounded)
    moreover have "\<not> isl r \<longleftrightarrow> (\<exists>s. r = Inr s)" for r :: "svg list res" by (cases r) auto
    ultimately show ?thesis by metis
  qed
  finally show none: "x_loop body xmax xstep 0 = None \<longleftrightarrow> 0 \<le> xmax \<and> xstep \<le> 0 \<and> (\<forall>k. \<exists>s. body (int k * xstep) = Inr s)" .
  assume x: "0 \<le> xmax \<and> 0 < xstep"
  then have "x_loop body xmax xstep 0 \<noteq> None" using none by auto
  moreover have "x_ticks body xmax xstep 0 = collectE body (tick_rates xmax xstep)"
    using x by (simp add: x_ticks_collect tick_rates_def)
  ultimately show "x_loop body xmax xstep 0 = Some (collectE body (tick_rates xmax xstep))" by (auto simp: x_ticks_def)
  show "sorted_wrt (<) (tick_rates xmax xstep)" using x by (simp add: tick_rates_sorted)
  show "set (tick_rates xmax xstep) = {r. 0 \<le> r \<and> r \<le> xmax \<and> xstep dvd r}" using x tick_rates_mem[of xstep xmax] by blast
next
  show "\<forall>nc \<in> set CFG. 0 < c_xmax (snd nc) \<and> 0 < c_xstep (snd nc)" using CFG_ok by (simp add: list_all_iff cfg_ok_def)
qed

theorem x_ticks_terminates_witness:
  "x_loop (\<lambda>r. Inr []) 650000 100000 0 = Some (collectE (\<lambda>r. Inr []) (tick_rates 650000 100000)) \<and>
   x_loop (\<lambda>r. Inr []) 650000 0 0 = None \<and> x_loop (\<lambda>r. if r < -5 then Inl ValueError else Inr []) 650000 (-2) 0 \<noteq> None"
proof -
  have "\<exists>k. \<nexists>s. (if int k * (-2) < -5 then Inl ValueError else Inr []) = Inr s" by (rule exI[of _ 3]) simp
  then have "x_loop (\<lambda>r. if r < -5 then Inl ValueError else Inr []) 650000 (-2) 0 \<noteq> None"
    using x_ticks_terminates[of "\<lambda>r. if r < -5 then Inl ValueError else Inr []" 650000 "-2"] by blast
  then show ?thesis
    using x_ticks_terminates[of "\<lambda>r. Inr []" 650000 100000] x_ticks_terminates[of "\<lambda>r. Inr []" 650000 0] by simp
qed

section \<open>The end labels stay apart\<close>

text \<open>C33: the two end labels of a per-product chart are never drawn over each other. When the
  \<open>p99\<close> curve ends at or above the \<open>p50\<close> curve, the label of \<open>p99\<close> is above the label of
  \<open>p50\<close> by the 14 pixels of \<open>kMinLabelGap\<close> (to within the rounding of doubles), however
  close the curves end and however far off the plot, and both labels stay within 7 pixels of
  the plot.\<close>

theorem label_positions_apart:
  assumes "y99 \<le> y50" "0 \<le> T" "0 \<le> PH" "T + PH \<le> 4000"
  shows "case label_positions T PH y99 y50 of (l99, l50) \<Rightarrow>
    14 - 1 / 2 ^ 40 \<le> l50 - l99 \<and> of_int (T - 7) \<le> l99 \<and> l50 \<le> of_int (T + PH + 7)"
proof -
  let ?lo = "of_int T :: rat" and ?hi = "of_int (T + PH) :: rat"
  define a b where "a = min (max y99 ?lo) ?hi" and "b = min (max y50 ?lo) ?hi"
  have lohi: "0 \<le> ?lo" "?lo \<le> ?hi" "?hi \<le> of_int 4000" using assms by (simp, simp, simp only: of_int_le_iff)
  have ab: "a \<le> b" "?lo \<le> a" "b \<le> ?hi" "?lo \<le> b" "a \<le> ?hi"
    using assms(1) lohi by (auto simp: a_def b_def)
  show ?thesis
  proof (cases "\<bar>fl (a - b)\<bar> < 14")
    case True
    define m where "m = fl (fl (a + b) / 2)"
    have "of_int (2 * T) \<le> fl (a + b)" by (rule binary64.rnd_ge_int) (use ab assms in simp_all)
    moreover have "fl (a + b) \<le> of_int (2 * (T + PH))" by (rule binary64.rnd_le_int) (use ab assms in simp_all)
    ultimately have s: "?lo \<le> fl (a + b) / 2" "fl (a + b) / 2 \<le> ?hi" by simp_all
    have m: "?lo \<le> m" unfolding m_def by (rule binary64.rnd_ge_int) (use s assms in simp_all)
    have m': "m \<le> ?hi" unfolding m_def by (rule binary64.rnd_le_int) (use s assms in simp_all)
    have l: "of_int (T - 7) \<le> fl (m - 7)" by (rule binary64.rnd_ge_int) (use m assms in simp_all)
    have h: "fl (m + 7) \<le> of_int (T + PH + 7)" by (rule binary64.rnd_le_int) (use m' assms in simp_all)
    have "\<bar>m - 7\<bar> < 2 ^ 13" "\<bar>m + 7\<bar> < 2 ^ 13" using m m' lohi by (auto simp: abs_if)
    then have "\<bar>fl (m - 7) - (m - 7)\<bar> \<le> 1 / 2 ^ 41" "\<bar>fl (m + 7) - (m + 7)\<bar> \<le> 1 / 2 ^ 41"
      by (simp_all only: fl_canvas_error)
    moreover have "1 / 2 ^ 41 + 1 / 2 ^ 41 = (1 / 2 ^ 40 :: rat)" by simp
    ultimately have "14 - 1 / 2 ^ 40 \<le> fl (m + 7) - fl (m - 7)" by linarith
    moreover have "label_positions T PH y99 y50 = (fl (m - 7), fl (m + 7))"
      using True ab(1) unfolding label_positions_def a_def[symmetric] b_def[symmetric] m_def by (simp add: Let_def)
    ultimately show ?thesis using l h by simp
  next
    case False
    have "\<bar>a - b\<bar> < 2 ^ 13" using ab lohi by (auto simp: abs_if)
    then have "\<bar>fl (a - b) - (a - b)\<bar> \<le> 1 / 2 ^ 41" by (rule fl_canvas_error)
    then have "14 - 1 / 2 ^ 40 \<le> b - a" using False ab(1) by (simp add: abs_if split: if_splits)
    moreover have "label_positions T PH y99 y50 = (a, b)"
      using False unfolding label_positions_def a_def[symmetric] b_def[symmetric] by (simp add: Let_def)
    ultimately show ?thesis using ab by auto
  qed
qed

theorem label_positions_apart_witness:
  "case label_positions 86 280 100 101 of (l99, l50) \<Rightarrow>
    14 - 1 / 2 ^ 40 \<le> l50 - l99 \<and> of_int (86 - 7) \<le> l99 \<and> l50 \<le> of_int (86 + 280 + 7)"
  by (rule label_positions_apart) simp_all

section \<open>The three-way comparison is drawn, or stops\<close>

lemma next_at_find:
  "\<forall>p \<in> set pts. pt_get p ''rate'' = Inr (val p ''rate'') \<Longrightarrow>
   next_at r pts = (if r \<in> (\<lambda>p. val p ''rate'') ` set pts then Inr (hd (filter (\<lambda>p. val p ''rate'' = r) pts)) else Inl StopIteration)"
  by (induction pts) auto

definition drawable_curve :: "string list \<Rightarrow> point list \<Rightarrow> bool" where
  "drawable_curve keys pts \<longleftrightarrow> pts \<noteq> [] \<and> (\<forall>p \<in> set pts. drawable keys p)"

definition measured_at :: "sweep_data \<Rightarrow> string \<Rightarrow> int \<Rightarrow> bool" where
  "measured_at D name r \<longleftrightarrow> (\<forall>pts. dict_get D (CStr name) = Some pts \<longrightarrow> r \<in> (\<lambda>p. val p ''rate'') ` set pts)"

text \<open>Whether the point that carries the label of a series exists.\<close>

definition label_ok :: "sweep_data \<Rightarrow> string \<Rightarrow> bool" where
  "label_ok D name \<longleftrightarrow> (name = ''braft'' \<longrightarrow> measured_at D name 250000) \<and> (name = ''openraft'' \<longrightarrow> measured_at D name 85000)"

lemma label_point_ok:
  assumes "drawable_curve keys pts" "name \<in> {''aeron'', ''braft'', ''openraft''}" "dict_get D (CStr name) = Some pts"
  shows "\<exists>a dx dy. dict_index (\<lambda>k. k) LABEL_AT name = Inr (a, dx, dy) \<and>
    (if label_ok D name then \<exists>p \<in> set pts. label_point a pts = Inr p else label_point a pts = Inl StopIteration)"
proof -
  have r: "\<forall>p \<in> set pts. pt_get p ''rate'' = Inr (val p ''rate'')"
    using assms(1) drawableD(1) unfolding drawable_curve_def by blast
  have l: "\<exists>p \<in> set pts. last_of pts = Inr p" using assms(1) by (simp add: last_of_def drawable_curve_def)
  have n: "if x \<in> (\<lambda>p. val p ''rate'') ` set pts then \<exists>p \<in> set pts. next_at x pts = Inr p else next_at x pts = Inl StopIteration" for x
    using next_at_find[OF r, of x] hd_in_set[of "filter (\<lambda>p. val p ''rate'' = x) pts"]
    by (auto simp: filter_empty_conv)
  show ?thesis using assms(2,3) l n[of 250000] n[of 85000]
    by (auto simp: LABEL_AT_def dict_index_def label_point_def label_ok_def measured_at_def)
qed

lemma combined_series_result:
  assumes K: "knee_axes lg L PW xmax T PH ylo yhi"
    and D: "dict_get D (CStr name) = Some pts" "drawable_curve [''p50''] pts" "name \<in> {''aeron'', ''braft'', ''openraft''}"
    and col: "safe_text col" "CHR 0x22 \<notin> set col"
  shows "(if label_ok D name then \<exists>o'. combined_series D (x_map L PW xmax) (y_map lg T PH (lg (of_int ylo)) (lg (of_int yhi))) (name, col) = Inr o' \<and> well_nested o'
     else combined_series D (x_map L PW xmax) (y_map lg T PH (lg (of_int ylo)) (lg (of_int yhi))) (name, col) = Inl StopIteration)"
proof -
  let ?xm = "x_map L PW xmax" and ?ym = "y_map lg T PH (lg (of_int ylo)) (lg (of_int yhi))"
  let ?px = "x_pos L PW xmax" and ?py = "\<lambda>v. y_pos T PH (lg (of_int ylo)) (lg (of_int yhi)) (lg (of_int v))"
  note M = knee_axes_maps[OF K]
  have d: "drawable [''p50''] p" if "p \<in> set pts" for p using D(2) that by (simp add: drawable_curve_def)
  have s: "series pts col ?xm ?ym ''p50'' = Inr (series_list ?px ?py pts col ''p50'')"
    unfolding series_list_def using d by (intro chart_maps.series_drawable[OF M]) auto
  have pl: "place ?xm ?ym ''p50'' p = Inr (?px (val p ''rate''), ?py (val p ''p50''))" if "p \<in> set pts" for p
    using chart_maps.place_drawable[OF M d[OF that]] by simp
  obtain a dx dy where l: "dict_index (\<lambda>k. k) LABEL_AT name = Inr (a, dx, dy)"
      "if label_ok D name then \<exists>p \<in> set pts. label_point a pts = Inr p else label_point a pts = Inl StopIteration"
    using label_point_ok[OF D(2,3,1)] by blast
  have n: "safe_text name" using D(3) by auto
  show ?thesis
  proof (cases "label_ok D name")
    case True
    then obtain p where p: "p \<in> set pts" "label_point a pts = Inr p" using l(2) by auto
    show ?thesis using True p s pl[OF p(1)] l(1) D(1) series_list_nested[OF col] n
      by (auto simp: combined_series_def curve_of_def Let_def)
  next
    case False
    then show ?thesis using s l D(1) by (simp add: combined_series_def curve_of_def Let_def)
  qed
qed

lemma present_set: "set (present D) = {nc \<in> {(''aeron'', C1), (''braft'', C2), (''openraft'', C3)}. in_data (fst nc) D}"
  unfolding present_def set_filter by auto

lemma combined_series_all:
  assumes K: "knee_axes lg L PW xmax T PH ylo yhi"
    and D: "\<forall>name \<in> {''aeron'', ''braft'', ''openraft''}. \<forall>pts. dict_get D (CStr name) = Some pts \<longrightarrow> drawable_curve [''p50''] pts"
  shows "if measured_at D ''braft'' 250000 \<and> measured_at D ''openraft'' 85000
    then \<exists>o'. collectE (combined_series D (x_map L PW xmax) (y_map lg T PH (lg (of_int ylo)) (lg (of_int yhi)))) (present D) = Inr o' \<and> well_nested o'
    else collectE (combined_series D (x_map L PW xmax) (y_map lg T PH (lg (of_int ylo)) (lg (of_int yhi)))) (present D) = Inl StopIteration"
proof -
  define f where "f = combined_series D (x_map L PW xmax) (y_map lg T PH (lg (of_int ylo)) (lg (of_int yhi)))"
  have one: "if label_ok D (fst nc) then \<exists>o'. f nc = Inr o' \<and> well_nested o' else f nc = Inl StopIteration"
    if m: "nc \<in> set (present D)" for nc
  proof -
    obtain name col where nc: "nc = (name, col)" by fastforce
    have p: "name \<in> {''aeron'', ''braft'', ''openraft''}" "safe_text col" "CHR 0x22 \<notin> set col"
        "\<exists>pts. dict_get D (CStr name) = Some pts \<and> drawable_curve [''p50''] pts"
      using m D unfolding nc present_set in_data_def by auto
    then obtain pts where pts: "dict_get D (CStr name) = Some pts" "drawable_curve [''p50''] pts" by blast
    show ?thesis unfolding nc fst_conv f_def using p by (intro combined_series_result[OF K pts]) blast+
  qed
  have ok: "(measured_at D ''braft'' 250000 \<and> measured_at D ''openraft'' 85000) = (\<forall>nc \<in> set (present D). label_ok D (fst nc))"
    unfolding present_set in_data_def label_ok_def measured_at_def by auto
  show ?thesis
  proof (cases "\<forall>nc \<in> set (present D). label_ok D (fst nc)")
    case True
    then have each: "\<exists>ys. f nc = Inr ys \<and> well_nested ys" if m: "nc \<in> set (present D)" for nc
      using one[OF m] bspec[OF True m] by (simp only: if_True)
    then obtain o3 where o3: "collectE f (present D) = Inr o3" using collectE_ex[of "present D" f] by blast
    moreover have "well_nested o3" by (rule collectE_well_nested[OF o3]) (use each in fastforce)
    ultimately show ?thesis using True ok unfolding f_def by simp
  next
    case False
    have "collectE f (present D) = Inl StopIteration"
    proof (rule collectE_one_error)
      show "f nc = Inl StopIteration \<or> (\<exists>ys. f nc = Inr ys)" if m: "nc \<in> set (present D)" for nc
        using one[OF m] by (cases "label_ok D (fst nc)") (simp_all only: if_True if_False, blast+)
      obtain nc where nc: "nc \<in> set (present D)" "\<not> label_ok D (fst nc)" using False by blast
      then show "\<exists>nc \<in> set (present D). f nc = Inl StopIteration"
        using one[OF nc(1)] by (intro bexI[of _ nc]) (simp_all only: if_False)
    qed
    then show ?thesis using False ok unfolding f_def by simp
  qed
qed

lemma combined_chart_cases:
  assumes "log10_function lg"
    "\<forall>name \<in> {''aeron'', ''braft'', ''openraft''}. \<forall>pts. dict_get D (CStr name) = Some pts \<longrightarrow> drawable_curve [''p50''] pts"
  shows "if measured_at D ''braft'' 250000 \<and> measured_at D ''openraft'' 85000
    then \<exists>o'. combined_chart lg D = Inr o' \<and> well_formed o'
    else combined_chart lg D = Inl StopIteration"
proof -
  let ?xm = "x_map 78 672 650000" and ?ym = "y_map lg 78 348 (lg (of_int 420)) (lg (of_int 16000))"
  have K: "knee_axes lg 78 672 650000 78 348 420 16000"
    using assms(1) by (intro knee_axes.intro knee_axes_axioms.intro) simp_all
  obtain o2 where o2: "axes 78 78 672 348 650000 100000 [500, 1000, 2000, 5000, 10000] ''p50 latency (log scale)'' ?ym us_label = Inr o2" "well_nested o2"
    using axes_nested[OF K, of 100000 "[500, 1000, 2000, 5000, 10000]" "''p50 latency (log scale)''" us_label] by auto
  note S = combined_series_all[OF K assms(2)]
  show ?thesis
  proof (cases "measured_at D ''braft'' 250000 \<and> measured_at D ''openraft'' 85000")
    case True
    then obtain o3 where o3: "collectE (combined_series D ?xm ?ym) (present D) = Inr o3" "well_nested o3" using S by auto
    let ?title = "''Flat, then a knee: three raft implementations under open-loop load''"
    let ?sub = "[''p50 latency vs offered rate, 3-node multi-AZ cluster on EC2. Log latency scale.'',
             ''Hollow marker = the cluster no longer kept up with the offered rate.'']"
    let ?doc = "svg_open 900 500 ?title # (tl (head 900 500 ?title ?sub) @ o2 @ o3 @ legend 78 500 (present D) None) @ [Close ''svg'']"
    have leg: "well_nested (legend 78 500 (present D) None)"
      by (rule legend_nested) (auto simp: present_set)
    have hd: "well_nested (tl (head 900 500 ?title ?sub))" by (rule head_nested) auto
    have "combined_chart lg D = Inr ?doc"
      using o2(1) o3 unfolding combined_chart_def Let_def by (subst head_split) simp
    moreover have "well_formed ?doc" by (rule svg_open_safe) (use o2(2) o3(2) leg hd in auto)
    ultimately show ?thesis using True by auto
  next
    case False
    then show ?thesis using S o2 by (auto simp: combined_chart_def Let_def)
  qed
qed

text \<open>C15: when the three-way comparison \<open>knee-curves.svg\<close> can be drawn. If every curve of the
  three products that is present has drawable points, the chart is a well-formed document
  exactly when the points that carry the direct labels exist, \<open>braft\<close> at 250000 and
  \<open>openraft\<close> at 85000 requests per second; otherwise it raises \<open>StopIteration\<close>.\<close>

theorem combined_chart_result:
  assumes "log10_function lg"
    "\<forall>name \<in> {''aeron'', ''braft'', ''openraft''}. \<forall>pts. dict_get D (CStr name) = Some pts \<longrightarrow> drawable_curve [''p50''] pts"
  shows "if measured_at D ''braft'' 250000 \<and> measured_at D ''openraft'' 85000
    then \<exists>o'. combined_chart lg D = Inr o' \<and> well_formed o'
    else combined_chart lg D = Inl StopIteration"
  by (rule combined_chart_cases[OF assms])

theorem combined_chart_result_witness:
  "combined_chart log10_rounded [(CStr ''braft'', sample_curve)] = Inl StopIteration"
proof -
  have "drawable_curve [''p50''] sample_curve"
    by (simp add: drawable_curve_def drawable_def sample_curve_def val_def)
  moreover have "\<not> measured_at [(CStr ''braft'', sample_curve)] ''braft'' 250000"
    by (simp add: measured_at_def sample_curve_def val_def)
  ultimately show ?thesis
    using combined_chart_result[OF log10_rounded.log10_function_axioms, of "[(CStr ''braft'', sample_curve)]"] by simp
qed

end
