(* ===== verification/Round_Trips.thy ===== *)
theory Round_Trips
  imports Knee_Charts
begin

text \<open>
  The comparison of sequencer's round trips in \<open>sweep/mkcharts.py\<close>: the table \<open>RT\<close>, the
  check that no two series present share a colour, the small multiples \<open>round-trips.svg\<close>
  (\<open>panels_chart\<close>) and the overlay \<open>round-trips-p50.svg\<close> (\<open>overlay_chart\<close>).
\<close>

section \<open>The series and the colour check\<close>

type_synonym round_trip = "string \<times> string \<times> string"

definition RT :: "round_trip list" where
  "RT = [(''sequencer'', ''synchronous ack'', C1),
         (''sequencer-direct'', ''direct to node'', C4),
         (''sequencer-relay'', ''relay (gRPC)'', C2),
         (''sequencer-output-brpc'', ''output: brpc'', C3),
         (''sequencer-output-grpc'', ''output: gRPC'', C4),
         (''sequencer-output-websocket'', ''output: WebSocket'', C5),
         (''sequencer-fix'', ''FIX (journal)'', C1),
         (''sequencer-fix-inline'', ''FIX (inline)'', C2),
         (''sequencer-quickfix'', ''FIX (QuickFIX)'', C6),
         (''braft-multi'', ''braft (raw ops)'', INK2)]"

definition rt_present :: "sweep_data \<Rightarrow> round_trip list" where
  "rt_present D = filter (\<lambda>(n, lab, c). in_data n D) RT"

definition by_colour :: "round_trip list \<Rightarrow> (string, string list) dict" where
  "by_colour rts = foldl (\<lambda>d (n, lab, c). dict_append c lab d) [] rts"

definition clashes :: "round_trip list \<Rightarrow> (string, string list) dict" where
  "clashes rts = filter (\<lambda>(c, labs). 1 < length labs) (by_colour rts)"

definition clash_message :: "(string, string list) dict \<Rightarrow> string" where
  "clash_message cl =
     ''palette clash: these series would be drawn in one colour -- '' @
     join ''; '' (map (\<lambda>(c, labs). c @ '': '' @ join '', '' labs) cl) @
     [CHR 0x0A] @ ''Give one of them a new hue and re-run validate_palette.py.''"

section \<open>The shared rate axis\<close>

definition all_rates :: "sweep_data \<Rightarrow> round_trip list \<Rightarrow> int list res" where
  "all_rates D rts = collectE (\<lambda>(n, lab, c). bindE (curve_of D n) (mapE (\<lambda>q. pt_get q ''rate''))) rts"

text \<open>\<open>max(..., default=130000)\<close>.\<close>

definition maxrate :: "sweep_data \<Rightarrow> round_trip list \<Rightarrow> int res" where
  "maxrate D rts = bindE (all_rates D rts) (\<lambda>rs. Inr (if rs = [] then 130000 else foldl max (hd rs) (tl rs)))"

text \<open>\<open>int(math.ceil(_maxrate / 25000.0) * 25000)\<close>.\<close>

definition rt_xmax :: "int \<Rightarrow> int res" where
  "rt_xmax m = bindE (float_of_int m) (\<lambda>x. Inr (\<lceil>fl (x / 25000)\<rceil> * 25000))"

definition rt_xstep :: "int \<Rightarrow> int" where
  "rt_xstep xmax = (if 150000 < xmax then 50000 else 25000)"

text \<open>\<open>[p for p in D[name] if p[key]>0]\<close>.\<close>

definition positive_points :: "string \<Rightarrow> point list \<Rightarrow> point list res" where
  "positive_points key pts = filterE (\<lambda>p. bindE (pt_get p key) (\<lambda>v. Inr (0 < v))) pts"

section \<open>Small multiples\<close>

text \<open>The constants \<open>PANW,PANH = 268,196\<close>, \<open>GX,GY = 26,58\<close>, \<open>margins 62 and 124\<close> and
  \<open>COLS = 3\<close>; the rows, the canvas and the corner of panel \<open>i\<close>.\<close>

definition PANW :: int where "PANW = 268"
definition PANH :: int where "PANH = 196"
definition GX :: int where "GX = 26"
definition GY :: int where "GY = 58"
definition MLEFT :: int where "MLEFT = 62"
definition MTOP :: int where "MTOP = 124"
definition COLS :: int where "COLS = 3"

lemmas panel_consts = PANW_def PANH_def GX_def GY_def MLEFT_def MTOP_def COLS_def

definition panel_rows :: "int \<Rightarrow> int" where
  "panel_rows n = max 1 (- ((- n) div COLS))"

definition panels_W :: int where
  "panels_W = MLEFT + COLS * PANW + (COLS - 1) * GX + 24"

definition panels_H :: "int \<Rightarrow> int" where
  "panels_H n = MTOP + panel_rows n * PANH + (panel_rows n - 1) * GY + 86"

definition panel_L :: "int \<Rightarrow> int" where
  "panel_L i = MLEFT + (i mod COLS) * (PANW + GX)"

definition panel_T :: "int \<Rightarrow> int" where
  "panel_T i = MTOP + (i div COLS) * (PANH + GY)"

definition panel_y_tick :: "int \<Rightarrow> int \<Rightarrow> (int \<Rightarrow> rat res) \<Rightarrow> int \<Rightarrow> svg list res" where
  "panel_y_tick i L ym v = bindE (ym v) (\<lambda>yy. Inr (
     [Elem ''line'' [(''x1'', AInt L), (''y1'', AFix 1 yy), (''x2'', AInt (L + PANW)), (''y2'', AFix 1 yy),
                     (''stroke'', AStr GRID), (''stroke-width'', AStr ''1'')] []] @
     (if i mod COLS = 0 then
        [text_elem [(''x'', AInt (L - 8)), (''y'', AFix 1 (fl (yy + 4))), (''font-size'', AStr ''10''),
                    (''fill'', AStr MUTED), (''text-anchor'', AStr ''end'')] (us_label v)] else [])))"

definition panel_x_tick :: "int \<Rightarrow> int \<Rightarrow> int \<Rightarrow> int \<Rightarrow> svg list res" where
  "panel_x_tick L T xmax v = bindE (x_map L PANW xmax v) (\<lambda>xx. Inr
     [Elem ''line'' [(''x1'', AFix 1 xx), (''y1'', AInt (T + PANH)), (''x2'', AFix 1 xx), (''y2'', AInt (T + PANH + 4)),
                     (''stroke'', AStr AXIS), (''stroke-width'', AStr ''1'')] [],
      text_elem [(''x'', AFix 1 xx), (''y'', AInt (T + PANH + 17)), (''font-size'', AStr ''10''),
                 (''fill'', AStr MUTED), (''text-anchor'', AStr ''middle'')] (str_of_int (v div 1000) @ ''k'')])"

text \<open>One of the two series of a panel; nothing is drawn when no point is positive.\<close>

definition panel_series :: "point list \<Rightarrow> (int \<Rightarrow> rat res) \<Rightarrow> (int \<Rightarrow> rat res) \<Rightarrow> string \<times> string \<Rightarrow> svg list res" where
  "panel_series curve xm ym kc = bindE (positive_points (fst kc) curve) (\<lambda>pts.
     if pts = [] then Inr [] else series pts (snd kc) xm ym (fst kc))"

definition panel :: "(rat \<Rightarrow> rat) \<Rightarrow> sweep_data \<Rightarrow> int \<Rightarrow> int \<Rightarrow> int \<times> round_trip \<Rightarrow> svg list res" where
  "panel lg D xmax xstep irt =
     (let i = fst irt; name = fst (snd irt); label = fst (snd (snd irt));
          L = panel_L i; T = panel_T i;
          xm = x_map L PANW xmax; ym = y_map lg T PANH (lg 500) (lg 200000) in
      bindE (ym 1000) (\<lambda>y1ms.
      bindE (collectE (panel_y_tick i L ym) [1000, 10000, 100000]) (\<lambda>ys.
      bindE (x_ticks (panel_x_tick L T xmax) xmax xstep 0) (\<lambda>xs.
      bindE (collectE (\<lambda>kc. bindE (curve_of D name) (\<lambda>curve. panel_series curve xm ym kc))
               [(''p99'', C2), (''p50'', C1)]) (\<lambda>ss.
      Inr ([Elem ''rect'' [(''x'', AInt L), (''y'', AFix 1 y1ms), (''width'', AInt PANW),
              (''height'', AFix 1 (fl (of_int (T + PANH) - y1ms))), (''fill'', AStr BAND)] []] @
           ys @
           [base_line L T PANW PANH] @
           xs @
           [text_elem [(''x'', AInt L), (''y'', AInt (T - 8)), (''font-size'', AStr ''12''), (''font-weight'', AStr ''600''), (''fill'', AStr INK)] label,
            Open ''g'' [(''clip-path'', AStr (''url(#pan'' @ str_of_int i @ '')''))]] @
           ss @ [Close ''g'']))))))"

definition count_word :: "int \<Rightarrow> string" where
  "count_word n = (if n = 2 then ''two'' else if n = 3 then ''three'' else if n = 4 then ''four''
     else if n = 5 then ''five'' else if n = 6 then ''six'' else str_of_int n)"

definition panels_sub :: "sweep_data \<Rightarrow> string list" where
  "panels_sub D =
     [''Every hop this repo measures, same fleet and same sweep. Identical axes across panels; log latency scale.'',
      ''FIX arms are FIX 4.4 throughout; they differ in delivery path, not protocol version.'',
      ''Hollow marker = the cluster fell behind the offered rate. Shaded band = at or below 1 ms.'',
      ''Past the knee, latency runs to whole seconds; those points clip at the panel top.''] @
     (if in_data ''sequencer-direct'' D
      then [''The direct-to-node arm was swept further than these shared axes show '' @ em_dash @ '' see its own chart.''] else [])"

definition panels_chart :: "(rat \<Rightarrow> rat) \<Rightarrow> sweep_data \<Rightarrow> int \<Rightarrow> int \<Rightarrow> round_trip list \<Rightarrow> svg list res" where
  "panels_chart lg D xmax xstep rts =
     (let n = int (length rts); W = panels_W; H = panels_H n;
          grid_h = panel_rows n * PANH + (panel_rows n - 1) * GY; grid_w = COLS * PANW + (COLS - 1) * GX in
      bindE (collectE (panel lg D xmax xstep) (enum rts)) (\<lambda>ps.
      bindE (int_truediv grid_h 2) (\<lambda>hh. let ymid = fl (of_int MTOP + hh) in
      bindE (int_truediv grid_w 2) (\<lambda>hw.
      Inr (head W H (''sequencer: '' @ count_word n @ '' round trips, p50 and p99'') (panels_sub D) @
           [Open ''defs'' []] @
           map (\<lambda>(i, rt). clip_path (''pan'' @ str_of_int i) (panel_L i) (panel_T i) PANW PANH) (enum rts) @
           [Close ''defs''] @
           ps @
           [y_caption ymid ''latency, log scale'', x_caption (fl (of_int MLEFT + hw)) (H - 46)] @
           legend MLEFT H [(''p50'', C1), (''p99'', C2)] None @ [Close ''svg''])))))"

section \<open>The overlay\<close>

text \<open>\<open>next((q for q in D[_n] if q["rate"] == 100000 and q["p50"] > 0), None)\<close>.\<close>

fun at_100k :: "point list \<Rightarrow> point option res" where
  "at_100k [] = Inr None"
| "at_100k (q # qs) = bindE (pt_get q ''rate'') (\<lambda>r.
     if r = 100000 then bindE (pt_get q ''p50'') (\<lambda>v. if 0 < v then Inr (Some q) else at_100k qs)
     else at_100k qs)"

definition note_100k :: "sweep_data \<Rightarrow> round_trip \<Rightarrow> string list res" where
  "note_100k D rt = bindE (curve_of D (fst rt)) (\<lambda>pts. bindE (at_100k pts) (\<lambda>m.
     case m of None \<Rightarrow> Inr []
     | Some q \<Rightarrow> bindE (pt_get q ''p50'') (\<lambda>v. Inr [fst (snd rt) @ '' '' @ commas v @ '' '' @ micro @ ''s''])))"

definition sub_100k :: "string list \<Rightarrow> string" where
  "sub_100k notes = (if notes \<noteq> [] then ''At 100k: '' @ join ''; '' notes @ ''.'' else ''No 100k point in this dataset.'')"

definition overlay_sub :: "string list \<Rightarrow> string list" where
  "overlay_sub notes =
     [''p50 latency vs offered rate, same fleet and sweep as the panels above. Log latency scale. FIX arms are FIX 4.4 throughout.''] @
     wrap_sub (sub_100k notes) 118 @
     [''Hollow marker = the cluster fell behind the offered rate. Shaded band = at or below 1 ms.'']"

definition overlay_series :: "sweep_data \<Rightarrow> (int \<Rightarrow> rat res) \<Rightarrow> (int \<Rightarrow> rat res) \<Rightarrow> round_trip \<Rightarrow> svg list res" where
  "overlay_series D xm ym rt = bindE (curve_of D (fst rt)) (\<lambda>curve. panel_series curve xm ym (''p50'', snd (snd rt)))"

text \<open>The top and the bottom margin: one line of 16 pixels per line of the subtitle, and one row
  of 18 pixels per further row of the legend.\<close>

definition overlay_T :: "string list \<Rightarrow> int" where
  "overlay_T sub = 46 + 16 * int (length sub) + 2"

definition overlay_B :: "(string \<times> string) list \<Rightarrow> int" where
  "overlay_B items = 74 + (legend_rows items 78 (900 - 20) - 1) * 18"

definition overlay_band :: "int \<Rightarrow> int \<Rightarrow> int \<Rightarrow> int \<Rightarrow> rat \<Rightarrow> svg list" where
  "overlay_band L T PW PH y1ms =
     [Elem ''rect'' [(''x'', AInt L), (''y'', AFix 1 y1ms), (''width'', AInt PW),
        (''height'', AFix 1 (fl (of_int (T + PH) - y1ms))), (''fill'', AStr BAND)] [],
      text_elem [(''x'', AInt (L + PW - 8)), (''y'', AFix 1 (fl (y1ms + 15))), (''font-size'', AStr ''11''), (''fill'', AStr MUTED),
        (''text-anchor'', AStr ''end'')] ''at or below 1 ms'']"

definition overlay_chart :: "(rat \<Rightarrow> rat) \<Rightarrow> sweep_data \<Rightarrow> int \<Rightarrow> int \<Rightarrow> round_trip list \<Rightarrow> svg list res" where
  "overlay_chart lg D xmax xstep rts =
     (let W = 900; L = 78; R = 40; items = map snd rts; B = overlay_B items in
      bindE (collectE (note_100k D) rts) (\<lambda>notes.
      let sub = overlay_sub notes; T = overlay_T sub; H = T + (470 - 96 - 74) + B;
          PW = W - L - R; PH = H - T - B;
          xm = x_map L PW xmax; ym = y_map lg T PH (lg 600) (lg 200000) in
      bindE (ym 1000) (\<lambda>y1ms.
      bindE (axes L T PW PH xmax xstep [1000, 2000, 5000, 10000, 50000, 200000] ''p50 latency, log scale'' ym us_label) (\<lambda>ax.
      bindE (collectE (overlay_series D xm ym) rts) (\<lambda>ss.
      Inr (head W H ''sequencer: gateway round trips, p50 vs offered rate'' sub @
           overlay_band L T PW PH y1ms @ ax @ ss @ legend L H items (Some (W - 20)) @ [Close ''svg'']))))))"

section \<open>No two series share a colour\<close>

lemma by_colour_get:
  "dict_get (by_colour rts) c =
     (let labs = map (\<lambda>rt. fst (snd rt)) (filter (\<lambda>rt. snd (snd rt) = c) rts) in if labs = [] then None else Some labs)"
proof -
  have "by_colour rts = foldl (\<lambda>d (k, a). dict_append k a d) [] (map (\<lambda>rt. (snd (snd rt), fst (snd rt))) rts)"
    by (simp add: by_colour_def foldl_map case_prod_unfold)
  then show ?thesis by (simp only: alist_group.group_get) (simp add: filter_map comp_def Let_def)
qed

lemma by_colour_distinct: "distinct (dict_keys (by_colour rts))"
proof -
  have "by_colour rts = foldl (\<lambda>d (k, a). dict_append k a d) [] (map (\<lambda>rt. (snd (snd rt), fst (snd rt))) rts)"
    by (simp add: by_colour_def foldl_map case_prod_unfold)
  then show ?thesis by (simp only: alist_group.group_distinct)
qed

lemma clashes_mem:
  "(c, labs) \<in> set (clashes rts) \<longleftrightarrow>
     labs = map (\<lambda>rt. fst (snd rt)) (filter (\<lambda>rt. snd (snd rt) = c) rts) \<and> 1 < length labs"
proof -
  have "(c, labs) \<in> set (by_colour rts) \<longleftrightarrow> dict_get (by_colour rts) c = Some labs"
    using dict_get_mem[OF by_colour_distinct] dict_get_Some_mem by metis
  then show ?thesis by (auto simp: clashes_def by_colour_get Let_def)
qed

lemma distinct_map_filter_length:
  "distinct (map f xs) \<longleftrightarrow> (\<forall>c. length (filter (\<lambda>x. f x = c) xs) \<le> 1)"
proof (induction xs)
  case (Cons x xs)
  have "f x \<notin> f ` set xs \<longleftrightarrow> filter (\<lambda>y. f y = f x) xs = []"
    unfolding filter_empty_conv by (metis imageE image_eqI)
  then show ?case using Cons by (auto simp: le_Suc_eq)
qed simp

text \<open>C10: the colour check is exact. It lets a run continue exactly when no two of the series
  present have the same colour, and otherwise it names every colour that is used twice or
  more together with exactly the series that use it.\<close>

theorem clashes_exact:
  "(clashes rts = [] \<longleftrightarrow> distinct (map (\<lambda>rt. snd (snd rt)) rts)) \<and>
   (\<forall>c labs. (c, labs) \<in> set (clashes rts) \<longleftrightarrow>
      labs = map (\<lambda>rt. fst (snd rt)) (filter (\<lambda>rt. snd (snd rt) = c) rts) \<and> 1 < length labs)"
proof -
  have "clashes rts = [] \<longleftrightarrow> (\<forall>c labs. (c, labs) \<notin> set (clashes rts))" by (cases "clashes rts") auto
  then show ?thesis by (auto simp: clashes_mem distinct_map_filter_length not_less)
qed

text \<open>The direct arm and the gRPC output gateway cannot be charted in one run. Both are drawn
  in the colour \<open>C4\<close>, so data that holds both products always clashes; the target
  \<open>charts-all\<close> of \<open>sequencer/Makefile\<close> passes both files.\<close>

lemma direct_and_grpc_clash:
  "in_data ''sequencer-direct'' D \<and> in_data ''sequencer-output-grpc'' D \<Longrightarrow>
   \<exists>labs. (C4, labs) \<in> set (clashes (rt_present D)) \<and> {''direct to node'', ''output: gRPC''} \<subseteq> set labs"
proof -
  assume D: "in_data ''sequencer-direct'' D \<and> in_data ''sequencer-output-grpc'' D"
  let ?fs = "filter (\<lambda>rt. snd (snd rt) = C4) (rt_present D)"
  have "?fs = filter (\<lambda>(n, lab, c). in_data n D) (filter (\<lambda>rt. snd (snd rt) = C4) RT)"
    by (simp add: rt_present_def filter_filter conj_commute)
  also have "filter (\<lambda>rt. snd (snd rt) = C4) RT = [(''sequencer-direct'', ''direct to node'', C4), (''sequencer-output-grpc'', ''output: gRPC'', C4)]"
    by (simp add: RT_def palette_defs)
  finally have f: "?fs = [(''sequencer-direct'', ''direct to node'', C4), (''sequencer-output-grpc'', ''output: gRPC'', C4)]"
    using D by simp
  then have "(C4, [''direct to node'', ''output: gRPC'']) \<in> set (clashes (rt_present D))"
    by (subst clashes_mem) simp
  then show ?thesis by force
qed

section \<open>The shared axis reaches the last point\<close>

lemma rt_xmax_bounds:
  assumes "0 \<le> m" "m < 2 ^ 40"
  shows "\<exists>x. rt_xmax m = Inr x \<and> 25000 dvd x \<and> m \<le> x \<and> x < m + 25000"
proof -
  have f: "float_of_int m = Inr (of_int m)" using assms by (intro float_of_int_small) auto
  define q where "q = fl (of_int m / 25000 :: rat)"
  have le: "\<lceil>q\<rceil> \<le> n \<longleftrightarrow> m \<le> n * 25000" for n
  proof -
    have "\<lceil>q\<rceil> \<le> n \<longleftrightarrow> fl (of_int m / of_int 25000) \<le> of_int n" by (simp add: ceiling_le_iff q_def)
    also have "\<dots> \<longleftrightarrow> m \<le> n * 25000" using assms by (intro binary64.rnd_quot_le_iff) auto
    finally show ?thesis .
  qed
  have "m \<le> \<lceil>q\<rceil> * 25000" using le[of "\<lceil>q\<rceil>"] by simp
  moreover have "(\<lceil>q\<rceil> - 1) * 25000 < m" using le[of "\<lceil>q\<rceil> - 1"] by simp
  ultimately show ?thesis by (simp add: rt_xmax_def f q_def)
qed

text \<open>C30: the rate axis of the two comparison charts follows the data. Its end is a multiple of
  25000, no rate measured lies beyond it, and it is less than one step of 25000 further than
  the largest rate: the quotient in binary64 never pushes the ceiling across.\<close>

theorem rt_xmax_reaches:
  assumes "0 \<le> m" "m < 2 ^ 40"
  shows "\<exists>x. rt_xmax m = Inr x \<and> 25000 dvd x \<and> m \<le> x \<and> x < m + 25000"
  by (rule rt_xmax_bounds[OF assms])

theorem rt_xmax_reaches_witness:
  "\<exists>x. rt_xmax 500000 = Inr x \<and> 25000 dvd x \<and> 500000 \<le> x \<and> x < 500000 + 25000"
  by (rule rt_xmax_reaches) simp_all

section \<open>The grid of panels\<close>

text \<open>C31: the panels of \<open>round-trips.svg\<close> fit the canvas. For any number \<open>n\<close> of round trips,
  each panel with its 6 pixels of clipping margin lies inside the canvas, above the caption
  and the legend; two different panels never overlap, their clipping areas included; and the
  last row is not empty.\<close>

theorem panels_fit:
  assumes "0 \<le> i" "i < n"
  shows "6 \<le> panel_L i \<and> panel_L i + PANW + 6 \<le> panels_W \<and>
    6 \<le> panel_T i \<and> panel_T i + PANH + 6 \<le> panels_H n - 46 \<and>
    (\<forall>j. 0 \<le> j \<and> j < n \<and> i \<noteq> j \<longrightarrow>
       panel_L i + PANW + 6 < panel_L j - 6 \<or> panel_L j + PANW + 6 < panel_L i - 6 \<or>
       panel_T i + PANH + 6 < panel_T j - 6 \<or> panel_T j + PANH + 6 < panel_T i - 6) \<and>
    (panel_rows n - 1) * COLS < n"
proof -
  have i: "i mod 3 = 0 \<or> i mod 3 = 1 \<or> i mod 3 = 2" by presburger
  have r: "0 \<le> i div 3" "i div 3 + 1 \<le> - ((- n) div 3)" using assms by presburger+
  have w: "6 \<le> panel_L i" "panel_L i + PANW + 6 \<le> panels_W"
    using i by (auto simp: panel_L_def panels_W_def panel_consts)
  have "6 \<le> panel_T i" using r by (simp add: panel_T_def panel_consts)
  moreover have "panel_T i + PANH + 6 \<le> panels_H n - 46"
    using r by (simp add: panel_T_def panels_H_def panel_rows_def panel_consts max_def)
  moreover have "(panel_rows n - 1) * COLS < n"
    using assms by (simp add: panel_rows_def panel_consts max_def) presburger
  moreover have "panel_L i + PANW + 6 < panel_L j - 6 \<or> panel_L j + PANW + 6 < panel_L i - 6 \<or>
       panel_T i + PANH + 6 < panel_T j - 6 \<or> panel_T j + PANH + 6 < panel_T i - 6" if "i \<noteq> j" for j
  proof -
    have "i mod 3 \<noteq> j mod 3 \<or> i div 3 \<noteq> j div 3" using that by (metis div_mult_mod_eq)
    then show ?thesis by (auto simp: panel_L_def panel_T_def panel_consts)
  qed
  ultimately show ?thesis using w by blast
qed

theorem panels_fit_witness:
  "6 \<le> panel_L 4 \<and> panel_L 4 + PANW + 6 \<le> panels_W \<and> panel_T 4 + PANH + 6 \<le> panels_H 7 - 46"
  using panels_fit[of 4 7] by simp

section \<open>The comparison charts are drawn\<close>

definition drawable_data :: "sweep_data \<Rightarrow> round_trip list \<Rightarrow> bool" where
  "drawable_data D rts \<longleftrightarrow> (\<forall>rt \<in> set rts. \<exists>pts. dict_get D (CStr (fst rt)) = Some pts \<and> drawable_curve [''p50'', ''p99''] pts)"

lemma positive_points_drawable:
  assumes "drawable_curve keys pts" "key \<in> set keys"
  shows "positive_points key pts = Inr pts"
proof -
  have d: "pt_get p key = Inr (val p key)" "0 < val p key" if "p \<in> set pts" for p
    using drawableD(3)[of keys p key] drawableD(4)[of keys p key] assms that by (auto simp: drawable_curve_def)
  have "positive_points key pts = Inr (filter (\<lambda>p. 0 < val p key) pts)"
    unfolding positive_points_def by (rule filterE_total) (simp add: d)
  also have "filter (\<lambda>p. 0 < val p key) pts = pts" using d by (simp add: filter_id_conv)
  finally show ?thesis .
qed

lemma panel_series_drawn:
  assumes K: "knee_axes lg L PW xmax T PH ylo yhi" and pts: "drawable_curve keys pts" "fst kc \<in> set keys"
    and col: "safe_text (snd kc)" "CHR 0x22 \<notin> set (snd kc)"
  shows "\<exists>o'. panel_series pts (x_map L PW xmax) (y_map lg T PH (lg (of_int ylo)) (lg (of_int yhi))) kc = Inr o' \<and> well_nested o'"
proof -
  have "series pts (snd kc) (x_map L PW xmax) (y_map lg T PH (lg (of_int ylo)) (lg (of_int yhi))) (fst kc) =
      Inr (series_list (x_pos L PW xmax) (\<lambda>v. y_pos T PH (lg (of_int ylo)) (lg (of_int yhi)) (lg (of_int v))) pts (snd kc) (fst kc))"
    unfolding series_list_def
    by (rule chart_maps.series_drawable[OF knee_axes_maps[OF K]]) (use pts in \<open>auto simp: drawable_curve_def\<close>)
  moreover have "pts \<noteq> []" using pts(1) by (simp add: drawable_curve_def)
  ultimately show ?thesis using series_list_nested[OF col]
    by (simp add: panel_series_def positive_points_drawable[OF pts])
qed

lemma knee_axes_panel:
  assumes "log10_function lg" "0 < xmax" "xmax < 2 ^ 40" "0 \<le> i" "i < 2 ^ 20"
  shows "knee_axes lg (panel_L i) PANW xmax (panel_T i) PANH 500 200000"
proof -
  have "0 \<le> panel_L i" "panel_L i \<le> 1000" using pos_mod_bound[of 3 i] pos_mod_sign[of 3 i] by (auto simp: panel_L_def panel_consts)
  moreover have "i div 3 \<le> i" "0 \<le> i div 3" using assms(4) by presburger+
  then have "0 \<le> panel_T i" "panel_T i \<le> 2 ^ 30" using assms(5) by (auto simp: panel_T_def panel_consts)
  ultimately show ?thesis using assms by (intro knee_axes.intro knee_axes_axioms.intro) (auto simp: panel_consts)
qed

lemma panel_drawn:
  assumes "log10_function lg" "0 < xmax" "xmax < 2 ^ 40" "0 < xstep" "0 \<le> i" "i < 2 ^ 20" "safe_text (fst (snd rt))"
    and D: "dict_get D (CStr (fst rt)) = Some pts" "drawable_curve [''p50'', ''p99''] pts"
  shows "\<exists>o'. panel lg D xmax xstep (i, rt) = Inr o' \<and> well_nested o'"
proof -
  let ?L = "panel_L i" and ?T = "panel_T i"
  let ?xm = "x_map ?L PANW xmax" and ?ym = "y_map lg ?T PANH (lg (of_int 500)) (lg (of_int 200000))"
  note K = knee_axes_panel[OF assms(1-3,5,6)]
  have ym: "\<exists>y. ?ym v = Inr y" if "1 \<le> v" for v using knee_axes.ym_py[OF K that] by blast
  obtain y1 where y1: "?ym 1000 = Inr y1" using ym by fastforce
  have "\<exists>ys. collectE (panel_y_tick i ?L ?ym) [1000, 10000, 100000] = Inr ys"
  proof (rule collectE_ex)
    fix v assume "v \<in> set [1000, 10000, 100000 :: int]"
    then have "1 \<le> v" by auto
    from ym[OF this] show "\<exists>ys. panel_y_tick i ?L ?ym v = Inr ys" by (auto simp: panel_y_tick_def)
  qed
  then obtain ys where ys: "collectE (panel_y_tick i ?L ?ym) [1000, 10000, 100000] = Inr ys" ..
  have ysn: "well_nested ys" by (rule collectE_well_nested[OF ys]) (auto simp: panel_y_tick_def py_res)
  have "\<exists>o'. x_ticks (panel_x_tick ?L ?T xmax) xmax xstep 0 = Inr o' \<and> well_nested o'"
  proof (rule x_ticks_ex)
    fix r assume "0 \<le> r" "r \<le> xmax"
    then have "\<bar>r\<bar> < 2 ^ 40" using assms(3) by auto
    then show "\<exists>ys. panel_x_tick ?L ?T xmax r = Inr ys \<and> well_nested ys"
      by (simp only: panel_x_tick_def knee_axes.xm_px[OF K] bindE_Inr) simp
  qed (use assms in auto)
  then obtain xs where xs: "x_ticks (panel_x_tick ?L ?T xmax) xmax xstep 0 = Inr xs" "well_nested xs" by blast
  have s: "\<exists>o'. bindE (curve_of D (fst rt)) (\<lambda>curve. panel_series curve ?xm ?ym kc) = Inr o' \<and> well_nested o'"
    if "kc \<in> set [(''p99'', C2), (''p50'', C1)]" for kc
    using that D(1) panel_series_drawn[OF K D(2), of kc] by (auto simp: curve_of_def)
  then obtain ss where ss: "collectE (\<lambda>kc. bindE (curve_of D (fst rt)) (\<lambda>curve. panel_series curve ?xm ?ym kc)) [(''p99'', C2), (''p50'', C1)] = Inr ss"
    using collectE_ex by meson
  have ssn: "well_nested ss" by (rule collectE_well_nested[OF ss]) (use s in fastforce)
  have "well_nested ([text_elem [(''x'', AInt ?L), (''y'', AInt (?T - 8)), (''font-size'', AStr ''12''), (''font-weight'', AStr ''600''), (''fill'', AStr INK)] (fst (snd rt))] @
      Open ''g'' [(''clip-path'', AStr (''url(#pan'' @ str_of_int i @ '')''))] # ss @ Close ''g'' # [])"
    using assms(7) ssn by (intro well_nested_append well_nested_bracket) auto
  then show ?thesis using y1 ys ysn xs ss
    by (simp add: panel_def Let_def)
qed

lemma RT_safe: "list_all (\<lambda>rt. safe_text (fst (snd rt)) \<and> safe_text (snd (snd rt)) \<and> CHR 0x22 \<notin> set (snd (snd rt)) \<and> length (fst (snd rt)) \<le> 20) RT"
  by (simp add: RT_def)

text \<open>A list of round trips as \<open>rt_present\<close> gives it.\<close>

definition rt_list :: "round_trip list \<Rightarrow> bool" where
  "rt_list rts \<longleftrightarrow> set rts \<subseteq> set RT \<and> length rts \<le> length RT"

lemma rt_present_list: "rt_list (rt_present D)"
  unfolding rt_list_def rt_present_def by (meson filter_is_subset length_filter_le)

lemma rt_listD:
  assumes "rt_list rts" "rt \<in> set rts"
  shows "safe_text (fst (snd rt))" "safe_text (snd (snd rt))" "CHR 0x22 \<notin> set (snd (snd rt))" "length (fst (snd rt)) \<le> 20"
  using assms RT_safe unfolding rt_list_def list_all_iff by blast+

lemma rt_list_length: "rt_list rts \<Longrightarrow> length rts \<le> 10"
  by (simp add: rt_list_def RT_def)

lemma enum_mem: "(i, x) \<in> set (enum xs) \<Longrightarrow> 0 \<le> i \<and> i < int (length xs) \<and> x \<in> set xs"
  by (auto simp: enum_def set_zip)

lemma count_word_safe [simp]: "safe_text (count_word n)" "CHR 0x22 \<notin> set (count_word n)"
  by (simp_all add: count_word_def)

lemma panels_chart_drawn:
  assumes lg: "log10_function lg" and x: "0 < xmax" "xmax < 2 ^ 40" "0 < xstep"
    and rts: "rt_list rts" "drawable_data D rts"
  shows "\<exists>o'. panels_chart lg D xmax xstep rts = Inr o' \<and> well_formed o'"
proof -
  let ?n = "int (length rts)"
  have each: "\<exists>o'. panel lg D xmax xstep irt = Inr o' \<and> well_nested o'" if m: "irt \<in> set (enum rts)" for irt
  proof -
    obtain i rt where irt: "irt = (i, rt)" by (metis surj_pair)
    have i: "0 \<le> i" "i < 2 ^ 20" "rt \<in> set rts"
      using enum_mem[OF m[unfolded irt]] rt_list_length[OF rts(1)] by auto
    obtain pts where "dict_get D (CStr (fst rt)) = Some pts" "drawable_curve [''p50'', ''p99''] pts"
      using rts(2) i(3) unfolding drawable_data_def by blast
    then show ?thesis unfolding irt using panel_drawn[OF lg x i(1,2) rt_listD(1)[OF rts(1) i(3)]] by blast
  qed
  then obtain ps where ps: "collectE (panel lg D xmax xstep) (enum rts) = Inr ps" using collectE_ex by meson
  have psn: "well_nested ps" by (rule collectE_well_nested[OF ps]) (use each in fastforce)
  have r: "0 \<le> panel_rows ?n" "panel_rows ?n \<le> 100"
    using rt_list_length[OF rts(1)] by (auto simp: panel_rows_def COLS_def)
  then have h: "int_truediv (panel_rows ?n * PANH + (panel_rows ?n - 1) * GY) 2 =
      Inr (fl (of_int (panel_rows ?n * PANH + (panel_rows ?n - 1) * GY) / of_int 2))"
    by (intro int_truediv_small) (auto simp: panel_consts)
  have w: "int_truediv (COLS * PANW + (COLS - 1) * GX) 2 = Inr (fl (of_int (COLS * PANW + (COLS - 1) * GX) / of_int 2))"
    by (intro int_truediv_small) (auto simp: panel_consts)
  let ?title = "''sequencer: '' @ count_word ?n @ '' round trips, p50 and p99''"
  let ?clips = "map (\<lambda>(i, rt). clip_path (''pan'' @ str_of_int i) (panel_L i) (panel_T i) PANW PANH) (enum rts)"
  have "well_nested (map (\<lambda>(i, rt). clip_path (''pan'' @ str_of_int i) (panel_L i) (panel_T i) PANW PANH) xs)" for xs :: "(int \<times> round_trip) list"
    by (induction xs) (auto simp: clip_path_def)
  then have "well_nested (Open ''defs'' [] # ?clips @ Close ''defs'' # ps)" using psn by (intro well_nested_bracket) auto
  moreover have "well_nested (tl (head panels_W (panels_H ?n) ?title (panels_sub D)))"
    by (rule head_nested) (auto simp: panels_sub_def split: if_splits)
  moreover have "well_nested (legend MLEFT (panels_H ?n) [(''p50'', C1), (''p99'', C2)] None)" by (rule legend_nested) auto
  ultimately have b: "well_nested (tl (head panels_W (panels_H ?n) ?title (panels_sub D)) @ (Open ''defs'' [] # ?clips @ Close ''defs'' # ps) @
      [y_caption ym ''latency, log scale'', x_caption xc (panels_H ?n - 46)] @ legend MLEFT (panels_H ?n) [(''p50'', C1), (''p99'', C2)] None)" for ym xc
    by (intro well_nested_append) auto
  have "\<exists>ym xc. panels_chart lg D xmax xstep rts = Inr (svg_open panels_W (panels_H ?n) ?title #
      (tl (head panels_W (panels_H ?n) ?title (panels_sub D)) @ (Open ''defs'' [] # ?clips @ Close ''defs'' # ps) @
      [y_caption ym ''latency, log scale'', x_caption xc (panels_H ?n - 46)] @ legend MLEFT (panels_H ?n) [(''p50'', C1), (''p99'', C2)] None) @ [Close ''svg''])"
    unfolding panels_chart_def Let_def ps h w bindE_Inr by (subst head_split) auto
  then obtain ym xc where eq: "panels_chart lg D xmax xstep rts = Inr (svg_open panels_W (panels_H ?n) ?title #
      (tl (head panels_W (panels_H ?n) ?title (panels_sub D)) @ (Open ''defs'' [] # ?clips @ Close ''defs'' # ps) @
      [y_caption ym ''latency, log scale'', x_caption xc (panels_H ?n - 46)] @ legend MLEFT (panels_H ?n) [(''p50'', C1), (''p99'', C2)] None) @ [Close ''svg''])"
    by blast
  show ?thesis unfolding eq by (rule exI, rule conjI, rule refl, rule svg_open_safe[OF b]) simp_all
qed

lemma str_of_nat_length: "n < 10 ^ Suc k \<Longrightarrow> length (str_of_nat n) \<le> Suc k"
proof (induction k arbitrary: n)
  case 0
  then show ?case by (subst str_of_nat.simps) simp
next
  case (Suc k)
  then have "length (str_of_nat (n div 10)) \<le> Suc k" by (intro Suc.IH) (simp add: less_mult_imp_div_less)
  then show ?case by (subst str_of_nat.simps) simp
qed

lemma commas_length: "\<bar>v\<bar> \<le> 10 ^ 9 \<Longrightarrow> length (commas v) \<le> 100"
proof -
  assume "\<bar>v\<bar> \<le> 10 ^ 9"
  then have "nat \<bar>v\<bar> < 10 ^ Suc 9" by simp
  then have "length (str_of_nat (nat \<bar>v\<bar>)) \<le> Suc 9" by (rule str_of_nat_length)
  moreover have "length (group3 s) \<le> 2 * length s" for s by (induction s rule: group3.induct) auto
  then have "length (group3 (rev (str_of_nat (nat \<bar>v\<bar>)))) \<le> 2 * length (str_of_nat (nat \<bar>v\<bar>))" by (metis length_rev)
  ultimately show ?thesis unfolding commas_def by (simp del: abs_of_nonneg abs_of_nonpos)
qed

lemma at_100k_drawable:
  assumes "\<forall>p \<in> set pts. drawable [''p50'', ''p99''] p"
  shows "\<exists>m. at_100k pts = Inr m \<and> (\<forall>q. m = Some q \<longrightarrow> q \<in> set pts)"
  using assms
proof (induction pts)
  case (Cons p pts)
  have d: "drawable [''p50'', ''p99''] p" using Cons.prems by simp
  have "pt_get p ''rate'' = Inr (val p ''rate'')" "pt_get p ''p50'' = Inr (val p ''p50'')"
    using drawableD(1)[OF d] drawableD(3)[OF d, of "''p50''"] by simp_all
  moreover obtain m where "at_100k pts = Inr m" "\<forall>q. m = Some q \<longrightarrow> q \<in> set pts" using Cons by auto
  ultimately show ?case by auto
qed simp

lemma note_100k_drawn:
  assumes "rt_list rts" "drawable_data D rts" "rt \<in> set rts"
  shows "\<exists>ns. note_100k D rt = Inr ns \<and> (\<forall>s \<in> set ns. safe_text s \<and> length s \<le> 200) \<and> length ns \<le> 1"
proof -
  obtain pts where D: "dict_get D (CStr (fst rt)) = Some pts" "drawable_curve [''p50'', ''p99''] pts"
    using assms unfolding drawable_data_def by blast
  obtain m where m: "at_100k pts = Inr m" "\<forall>q. m = Some q \<longrightarrow> q \<in> set pts"
    using at_100k_drawable[of pts] D(2) by (auto simp: drawable_curve_def)
  show ?thesis
  proof (cases m)
    case None
    then show ?thesis using D m by (simp add: note_100k_def curve_of_def)
  next
    case (Some q)
    then have q: "drawable [''p50'', ''p99''] q" using m D(2) by (auto simp: drawable_curve_def)
    have "pt_get q ''p50'' = Inr (val q ''p50'')" "\<bar>val q ''p50''\<bar> \<le> 10 ^ 9"
      using drawableD(3)[OF q, of "''p50''"] drawableD(4)[OF q, of "''p50''"] by auto
    then show ?thesis using D(1) m(1) Some commas_length[of "val q ''p50''"] rt_listD[OF assms(1,3)]
      by (simp add: note_100k_def curve_of_def micro_def)
  qed
qed

lemma collect_bound:
  assumes "collectE f xs = Inr zs" "\<And>x. x \<in> set xs \<Longrightarrow> \<exists>ys. f x = Inr ys \<and> (\<forall>s \<in> set ys. P s) \<and> length ys \<le> 1"
  shows "(\<forall>s \<in> set zs. P s) \<and> length zs \<le> length xs"
  using assms
proof (induction xs arbitrary: zs)
  case (Cons x xs)
  obtain ys where ys: "f x = Inr ys" "\<forall>s \<in> set ys. P s" "length ys \<le> 1" using Cons.prems(2)[of x] by auto
  then obtain ws where ws: "collectE f xs = Inr ws" "zs = ys @ ws" using Cons.prems(1) by (auto simp: py_res)
  have "(\<forall>s \<in> set ws. P s) \<and> length ws \<le> length xs" using Cons.IH[OF ws(1)] Cons.prems(2) by simp
  then show ?case using ys ws(2) by auto
qed simp

lemma join_length: "(\<And>s. s \<in> set ss \<Longrightarrow> length s \<le> k) \<Longrightarrow> length (join sep ss) \<le> length ss * (k + length sep)"
  by (induction sep ss rule: join.induct) (auto simp: trans_le_add1 add_mono)

lemma overlay_sub_safe:
  assumes "list_all safe_text nts"
  shows "list_all safe_text (overlay_sub nts)"
proof -
  have "safe_text (sub_100k nts)" using assms by (auto simp: sub_100k_def list_all_iff intro!: safe_join)
  then have "safe_text l" if "l \<in> set (wrap_sub (sub_100k nts) 118)" for l
    using wrap_sub_bounds(2)[OF that] by (auto simp: safe_text_def)
  then show ?thesis by (auto simp: overlay_sub_def list_all_iff)
qed

lemma overlay_sub_bounds:
  assumes "\<forall>s \<in> set nts. safe_text s \<and> length s \<le> 200" "length nts \<le> 10"
  shows "length (overlay_sub nts) \<le> 10000" "l \<in> set (overlay_sub nts) \<Longrightarrow> safe_text l"
proof -
  have "length (join ''; '' nts) \<le> length nts * (200 + length ''; '')" using assms(1) by (intro join_length) auto
  also have "\<dots> \<le> 10 * (200 + length ''; '')" using assms(2) by (intro mult_right_mono) auto
  finally have "length (sub_100k nts) \<le> 3000" by (simp add: sub_100k_def)
  then show "length (overlay_sub nts) \<le> 10000"
    using wrap_sub_bounds(1)[of "sub_100k nts" 118] by (simp add: overlay_sub_def)
  show "safe_text l" if "l \<in> set (overlay_sub nts)" using overlay_sub_safe[of nts] assms(1) that by (auto simp: list_all_iff)
qed

lemma overlay_chart_drawn:
  assumes lg: "log10_function lg" and x: "0 < xmax" "xmax < 2 ^ 40" "0 < xstep"
    and rts: "rt_list rts" "drawable_data D rts"
  shows "\<exists>o'. overlay_chart lg D xmax xstep rts = Inr o' \<and> well_formed o'"
proof -
  let ?items = "map snd rts"
  note N = note_100k_drawn[OF rts]
  then obtain nts where nts: "collectE (note_100k D) rts = Inr nts" using collectE_ex by meson
  have nb: "(\<forall>s \<in> set nts. safe_text s \<and> length s \<le> 200) \<and> length nts \<le> length rts"
    by (rule collect_bound[OF nts]) (rule N)
  then have sub: "length (overlay_sub nts) \<le> 10000" "\<And>l. l \<in> set (overlay_sub nts) \<Longrightarrow> safe_text l"
    using overlay_sub_bounds[of nts] rt_list_length[OF rts(1)] by auto
  define T where "T = overlay_T (overlay_sub nts)"
  define B where "B = overlay_B ?items"
  have T: "\<bar>T\<bar> \<le> 2 ^ 40" using sub(1) by (simp add: T_def overlay_T_def)
  let ?H = "T + 300 + B"
  let ?ym = "y_map lg T 300 (lg (of_int 600)) (lg (of_int 200000))"
  have K: "knee_axes lg 78 782 xmax T 300 600 200000"
    using lg x T by (intro knee_axes.intro knee_axes_axioms.intro) auto
  have y1: "?ym 1000 = Inr (y_pos T 300 (lg (of_int 600)) (lg (of_int 200000)) (lg (of_int 1000)))"
    by (rule knee_axes.ym_py[OF K]) simp
  obtain ax where ax: "axes 78 T 782 300 xmax xstep [1000, 2000, 5000, 10000, 50000, 200000] ''p50 latency, log scale'' ?ym us_label = Inr ax" "well_nested ax"
    using axes_nested[OF K x(3), of "[1000, 2000, 5000, 10000, 50000, 200000]" "''p50 latency, log scale''" us_label] by auto
  have each: "\<exists>o'. overlay_series D (x_map 78 782 xmax) ?ym rt = Inr o' \<and> well_nested o'" if m: "rt \<in> set rts" for rt
  proof -
    obtain pts where D: "dict_get D (CStr (fst rt)) = Some pts" "drawable_curve [''p50'', ''p99''] pts"
      using rts(2) m unfolding drawable_data_def by blast
    then show ?thesis using panel_series_drawn[OF K D(2), of "(''p50'', snd (snd rt))"] rt_listD[OF rts(1) m]
      by (simp add: overlay_series_def curve_of_def)
  qed
  then obtain ss where ss: "collectE (overlay_series D (x_map 78 782 xmax) ?ym) rts = Inr ss" using collectE_ex by meson
  have ssn: "well_nested ss" by (rule collectE_well_nested[OF ss]) (use each in fastforce)
  let ?title = "''sequencer: gateway round trips, p50 vs offered rate''"
  have h: "well_nested (tl (head 900 ?H ?title (overlay_sub nts)))" by (rule head_nested) (auto simp: sub(2))
  have leg: "well_nested (legend 78 ?H ?items (Some 880))"
    by (rule legend_nested) (use rt_listD[OF rts(1)] in fastforce)
  define band where "band = overlay_band 78 T 782 300 (y_pos T 300 (lg (of_int 600)) (lg (of_int 200000)) (lg (of_int 1000)))"
  have b: "well_nested band" by (simp add: band_def overlay_band_def)
  have eq: "overlay_chart lg D xmax xstep rts = Inr (svg_open 900 ?H ?title #
      (tl (head 900 ?H ?title (overlay_sub nts)) @ band @ ax @ ss @ legend 78 ?H ?items (Some 880)) @ [Close ''svg''])"
    using y1 ax(1) ss unfolding overlay_chart_def Let_def nts bindE_Inr T_def[symmetric] B_def[symmetric] band_def
    by (subst head_split) simp
  have "well_formed (svg_open 900 ?H ?title #
      (tl (head 900 ?H ?title (overlay_sub nts)) @ band @ ax @ ss @ legend 78 ?H ?items (Some 880)) @ [Close ''svg''])"
    by (rule svg_open_safe) (use h b ax(2) ssn leg in simp_all)
  then show ?thesis using eq by blast
qed

end
