(* ===== verification/Knee_Text.thy ===== *)
theory Knee_Text
  imports Svg_Text Round_Trips
begin

text \<open>
  What \<open>mkcharts.py\<close> writes can be read. The theorems on its charts say when a chart is drawn;
  here nothing is asked of the data: if a routine returns, what it returns nests and holds
  nothing that would end an attribute or open a tag, so the text of the chart is accepted by
  the reader of \<open>Svg_Text\<close>. The labels come from the tables of the script, never from the
  input, and of the input only numbers are printed.
\<close>

section \<open>Drawing routines\<close>

lemma y_tick_returned: "y_tick L PW ymap fmt v = Inr o' \<Longrightarrow> safe_text (fmt v) \<Longrightarrow> well_nested o'"
  by (auto simp: y_tick_def y_tick_at_def py_res)

lemma x_tick_returned: "x_tick L T PW PH xmax v = Inr o' \<Longrightarrow> well_nested o'"
  by (auto simp: x_tick_def x_tick_at_def py_res)

lemma axes_returned:
  assumes "axes L T PW PH xmax xstep yticks ylab ymap fmt = Inr o'" "safe_text ylab" "\<And>v. safe_text (fmt v)"
  shows "well_nested o'"
proof -
  from assms(1) obtain ys xs x y where o: "collectE (y_tick L PW ymap fmt) yticks = Inr ys"
      "x_ticks (x_tick L T PW PH xmax) xmax xstep 0 = Inr xs"
      "o' = ys @ [y_caption y ylab, base_line L T PW PH] @ xs @ [x_caption x (T + PH + 44)]"
    by (auto simp: axes_def py_res)
  have "well_nested ys" using o(1) assms(3) by (blast intro: collectE_well_nested y_tick_returned)
  moreover have "well_nested xs" using o(2) by (blast intro: x_ticks_returned x_tick_returned)
  ultimately show ?thesis using assms(2) by (simp add: o(3))
qed

lemma marker_returned:
  assumes "marker col xm ym key p = Inr o'" "safe_text col" "CHR 0x22 \<notin> set col"
  shows "well_nested o'"
  using assms by (auto simp: marker_def py_res)

lemma series_returned:
  assumes "series pts col xm ym key = Inr o'" "safe_text col" "CHR 0x22 \<notin> set col"
  shows "well_nested o'"
proof -
  from assms(1) obtain xys ms where o: "collectE (marker col xm ym key) pts = Inr ms"
      "o' = Elem ''path'' [(''d'', AStr (path_data xys)), (''fill'', AStr ''none''), (''stroke'', AStr col),
         (''stroke-width'', AStr ''2''), (''stroke-linejoin'', AStr ''round''), (''stroke-linecap'', AStr ''round'')] [] # ms"
    by (auto simp: series_def py_res)
  have "well_nested ms" using o(1) assms(2,3) by (blast intro: collectE_well_nested marker_returned)
  then show ?thesis using assms(2,3) by (simp add: o(2) path_data_safe)
qed

section \<open>The knee charts\<close>

lemma combined_series_returned:
  assumes "combined_series D xm ym nc = Inr o'" "safe_text (fst nc)" "safe_text (snd nc)" "CHR 0x22 \<notin> set (snd nc)"
  shows "well_nested o'"
proof -
  from assms(1) obtain pts s x y a where o: "series pts (snd nc) xm ym ''p50'' = Inr s"
      "o' = s @ [text_elem ([(''x'', AFix 1 x), (''y'', AFix 1 y), (''font-size'', AStr ''12'')] @ a @
          [(''font-weight'', AStr ''600''), (''fill'', AStr INK)]) (fst nc)]"
      "a = [] \<or> a = [(''text-anchor'', AStr ''end'')]"
    by (auto simp: combined_series_def Let_def py_res split: prod.splits)
  have "well_nested s" using o(1) assms(3,4) by (rule series_returned)
  then show ?thesis using o(3) assms(2) by (auto simp: o(2))
qed

lemma combined_chart_returned:
  assumes "combined_chart lg D = Inr o'"
  shows "well_formed o'"
proof -
  let ?title = "''Flat, then a knee: three raft implementations under open-loop load''"
  let ?sub = "[''p50 latency vs offered rate, 3-node multi-AZ cluster on EC2. Log latency scale.'',
             ''Hollow marker = the cluster no longer kept up with the offered rate.'']"
  from assms obtain o2 o3 xm ym where
      o: "axes 78 78 672 348 650000 100000 [500, 1000, 2000, 5000, 10000] ''p50 latency (log scale)'' ym us_label = Inr o2"
      "collectE (combined_series D xm ym) (present D) = Inr o3"
      "o' = head 900 500 ?title ?sub @ o2 @ o3 @ legend 78 500 (present D) None @ [Close ''svg'']"
    by (simp add: combined_chart_def Let_def bindE_eq_Inr) blast
  have "well_nested o2" using o(1) by (rule axes_returned) simp_all
  moreover have "well_nested o3"
    using o(2) by (rule collectE_well_nested) (erule combined_series_returned; auto simp: present_set)
  moreover have "well_nested (legend 78 500 (present D) None)" by (rule legend_nested) (auto simp: present_set)
  ultimately have "well_nested (o2 @ o3 @ legend 78 500 (present D) None)" by simp
  from head_document[OF this, of ?title ?sub 900 500] show ?thesis by (auto simp: o(3))
qed

lemma product_chart_returned:
  assumes "product_chart lg pts cfg = Inr o'" "cfg_ok cfg"
  shows "well_formed o'"
proof -
  note c = assms(2)[unfolded cfg_ok_def]
  let ?sub = "[c_line2 cfg, ''p50 and p99 latency, open loop. Hollow marker = the cluster fell behind the offered rate.'']"
  let ?leg = "legend 78 440 [(''p50'', C1), (''p99'', C2)] None"
  let ?clip = "Elem ''defs'' [] [clip_path ''plot'' 78 86 622 280]" and ?g = "Open ''g'' [(''clip-path'', AStr ''url(#plot)'')]"
  from assms(1) obtain o3 o4 s99 s50 xm ym w x l99 l50 where
      o: "collectE (rule_mark 86 280 xm) (c_markers cfg) = Inr o3"
      "axes 78 86 622 280 (c_xmax cfg) (c_xstep cfg) (c_yticks cfg) latency_label ym commas = Inr o4"
      "series pts C2 xm ym ''p99'' = Inr s99" "series pts C1 xm ym ''p50'' = Inr s50"
      "o' = head 820 440 (c_title cfg) ?sub @
        [Elem ''rect'' [(''x'', AInt 78), (''y'', AInt 86), (''width'', AFix 1 w), (''height'', AInt 280), (''fill'', AStr BAND)] [],
         text_elem [(''x'', AInt 86), (''y'', AInt 102), (''font-size'', AStr ''11''), (''fill'', AStr MUTED)] ''comfort zone''] @ o3 @ o4 @
        [?clip, ?g] @ s99 @ s50 @ [Close ''g''] @ [end_label x l99 ''p99'', end_label x l50 ''p50''] @ ?leg @ [Close ''svg'']"
    by (simp add: product_chart_def Let_def bindE_eq_Inr case_prod_unfold) blast
  have "well_nested o3" using o(1) c by (blast intro: rule_marks_nested)
  moreover have "well_nested o4" using o(2) by (rule axes_returned) (simp_all add: latency_label_def)
  moreover have "well_nested s99" using o(3) by (rule series_returned) simp_all
  moreover have "well_nested s50" using o(4) by (rule series_returned) simp_all
  moreover have "well_nested ?leg" by (rule legend_nested) auto
  ultimately have "well_nested (
      [Elem ''rect'' [(''x'', AInt 78), (''y'', AInt 86), (''width'', AFix 1 w), (''height'', AInt 280), (''fill'', AStr BAND)] [],
       text_elem [(''x'', AInt 86), (''y'', AInt 102), (''font-size'', AStr ''11''), (''fill'', AStr MUTED)] ''comfort zone''] @ o3 @ o4 @
      [?clip] @ ?g # (s99 @ s50) @ Close ''g'' # [end_label x l99 ''p99'', end_label x l50 ''p50''] @ ?leg)"
    by (intro well_nested_append well_nested_bracket) (auto simp: clip_path_def)
  from head_document[OF this, of "c_title cfg" ?sub 820 440] c show ?thesis by (auto simp: o(5))
qed

section \<open>The comparison charts\<close>

lemma panel_series_returned:
  assumes "panel_series curve xm ym kc = Inr o'" "safe_text (snd kc)" "CHR 0x22 \<notin> set (snd kc)"
  shows "well_nested o'"
  using assms by (auto simp: panel_series_def py_res split: if_splits intro: series_returned)

lemma panel_ticks_returned:
  "panel_y_tick i L ym v = Inr o' \<Longrightarrow> well_nested o'" "panel_x_tick L T xmax v = Inr o' \<Longrightarrow> well_nested o'"
  by (auto simp: panel_y_tick_def panel_x_tick_def py_res split: if_splits)

lemma panel_returned:
  assumes "panel lg D xmax xstep irt = Inr o'" "safe_text (fst (snd (snd irt)))"
  shows "well_nested o'"
proof -
  let ?i = "fst irt" and ?n = "fst (snd irt)" and ?lab = "fst (snd (snd irt))"
  let ?L = "panel_L ?i" and ?T = "panel_T ?i"
  let ?g = "Open ''g'' [(''clip-path'', AStr (''url(#pan'' @ str_of_int ?i @ '')''))]"
  from assms(1) obtain ys xs ss xm ym y h where
      o: "collectE (panel_y_tick ?i ?L ym) [1000, 10000, 100000] = Inr ys"
      "x_ticks (panel_x_tick ?L ?T xmax) xmax xstep 0 = Inr xs"
      "collectE (\<lambda>kc. bindE (curve_of D ?n) (\<lambda>curve. panel_series curve xm ym kc)) [(''p99'', C2), (''p50'', C1)] = Inr ss"
      "o' = [Elem ''rect'' [(''x'', AInt ?L), (''y'', AFix 1 y), (''width'', AInt PANW), (''height'', AFix 1 h), (''fill'', AStr BAND)] []] @
        ys @ [base_line ?L ?T PANW PANH] @ xs @
        [text_elem [(''x'', AInt ?L), (''y'', AInt (?T - 8)), (''font-size'', AStr ''12''), (''font-weight'', AStr ''600''), (''fill'', AStr INK)] ?lab, ?g] @
        ss @ [Close ''g'']"
    by (simp only: panel_def Let_def bindE_eq_Inr sum.inject) metis
  have "well_nested ys" using o(1) by (blast intro: collectE_well_nested panel_ticks_returned)
  moreover have "well_nested xs" using o(2) by (blast intro: x_ticks_returned panel_ticks_returned)
  moreover have "well_nested ss"
    using o(3) by (rule collectE_well_nested) (auto simp: bindE_eq_Inr dest: panel_series_returned)
  ultimately have "well_nested ([Elem ''rect'' [(''x'', AInt ?L), (''y'', AFix 1 y), (''width'', AInt PANW), (''height'', AFix 1 h), (''fill'', AStr BAND)] []] @
      ys @ [base_line ?L ?T PANW PANH] @ xs @
      [text_elem [(''x'', AInt ?L), (''y'', AInt (?T - 8)), (''font-size'', AStr ''12''), (''font-weight'', AStr ''600''), (''fill'', AStr INK)] ?lab] @
      ?g # ss @ Close ''g'' # [])"
    using assms(2) by (intro well_nested_append well_nested_bracket) auto
  then show ?thesis by (simp add: o(4))
qed

lemma panels_chart_returned:
  assumes "panels_chart lg D xmax xstep rts = Inr o'" "rt_list rts"
  shows "well_formed o'"
proof -
  let ?n = "int (length rts)"
  let ?title = "''sequencer: '' @ count_word ?n @ '' round trips, p50 and p99''"
  let ?clips = "map (\<lambda>(i, rt). clip_path (''pan'' @ str_of_int i) (panel_L i) (panel_T i) PANW PANH) (enum rts)"
  let ?leg = "legend MLEFT (panels_H ?n) [(''p50'', C1), (''p99'', C2)] None"
  from assms(1) obtain ps x y where o: "collectE (panel lg D xmax xstep) (enum rts) = Inr ps"
      "o' = head panels_W (panels_H ?n) ?title (panels_sub D) @ [Open ''defs'' []] @ ?clips @ [Close ''defs''] @ ps @
        [y_caption y ''latency, log scale'', x_caption x (panels_H ?n - 46)] @ ?leg @ [Close ''svg'']"
    by (simp only: panels_chart_def Let_def bindE_eq_Inr sum.inject) (elim exE conjE, rule that, assumption, erule sym)
  have "well_nested ps" using o(1)
  proof (rule collectE_well_nested)
    fix irt ys assume m: "irt \<in> set (enum rts)" "panel lg D xmax xstep irt = Inr ys"
    then have "snd irt \<in> set rts" using enum_mem[of "fst irt" "snd irt" rts] by simp
    then show "well_nested ys" using rt_listD[OF assms(2)] m(2) by (blast intro: panel_returned)
  qed
  moreover have "well_nested (map (\<lambda>(i, rt). clip_path (''pan'' @ str_of_int i) (panel_L i) (panel_T i) PANW PANH) xs)" for xs :: "(int \<times> round_trip) list"
    by (induction xs) (auto simp: clip_path_def)
  moreover have "well_nested ?leg" by (rule legend_nested) auto
  moreover have "safe_tag ''defs'' []" by simp
  ultimately have "well_nested (Open ''defs'' [] # ?clips @ Close ''defs'' # (ps @
      [y_caption y ''latency, log scale'', x_caption x (panels_H ?n - 46)] @ ?leg))"
    by (intro well_nested_bracket well_nested_append) (simp_all only: captions_nested well_nested_Nil, simp)
  moreover have "safe_text ?title" "CHR 0x22 \<notin> set ?title" by (simp_all add: count_word_def)
  moreover have "list_all safe_text (panels_sub D)" by (simp add: panels_sub_def)
  ultimately have "well_formed (head panels_W (panels_H ?n) ?title (panels_sub D) @ (Open ''defs'' [] # ?clips @ Close ''defs'' # (ps @
      [y_caption y ''latency, log scale'', x_caption x (panels_H ?n - 46)] @ ?leg)) @ [Close ''svg''])" by (rule head_document)
  then show ?thesis by (simp only: o(2) append.simps append_assoc)
qed

lemma collectE_all:
  assumes "collectE f xs = Inr zs" "\<And>x ys. x \<in> set xs \<Longrightarrow> f x = Inr ys \<Longrightarrow> list_all P ys"
  shows "list_all P zs"
  using collectE_parts[OF assms(1)] assms(2) by (fastforce simp: list_all_iff)

lemma note_100k_returned:
  assumes "note_100k D rt = Inr ns" "safe_text (fst (snd rt))"
  shows "list_all safe_text ns"
  using assms by (auto simp: note_100k_def py_res split: option.splits)

lemma overlay_series_returned:
  assumes "overlay_series D xm ym rt = Inr o'" "safe_text (snd (snd rt))" "CHR 0x22 \<notin> set (snd (snd rt))"
  shows "well_nested o'"
  using assms by (auto simp: overlay_series_def py_res intro: panel_series_returned)

lemma overlay_chart_returned:
  assumes "overlay_chart lg D xmax xstep rts = Inr o'" "rt_list rts"
  shows "well_formed o'"
proof -
  let ?title = "''sequencer: gateway round trips, p50 vs offered rate''"
  from assms(1) obtain nts ax ss T PW PH H xm ym y where
      o: "collectE (note_100k D) rts = Inr nts"
      "axes 78 T PW PH xmax xstep [1000, 2000, 5000, 10000, 50000, 200000] ''p50 latency, log scale'' ym us_label = Inr ax"
      "collectE (overlay_series D xm ym) rts = Inr ss"
      "o' = head 900 H ?title (overlay_sub nts) @ overlay_band 78 T PW PH y @ ax @ ss @ legend 78 H (map snd rts) (Some (900 - 20)) @ [Close ''svg'']"
    by (simp only: overlay_chart_def Let_def bindE_eq_Inr sum.inject) metis
  have nts: "list_all safe_text nts" using o(1) by (rule collectE_all) (use rt_listD[OF assms(2)] note_100k_returned in blast)
  have "well_nested ax" using o(2) by (rule axes_returned) simp_all
  moreover have "well_nested ss"
    using o(3) by (rule collectE_well_nested) (use rt_listD[OF assms(2)] overlay_series_returned in blast)
  moreover have "well_nested (legend 78 H (map snd rts) (Some (900 - 20)))"
    using rt_listD[OF assms(2)] by (intro legend_nested) auto
  ultimately have "well_nested (overlay_band 78 T PW PH y @ ax @ ss @ legend 78 H (map snd rts) (Some (900 - 20)))"
    by (simp add: overlay_band_def)
  from head_document[OF this, of ?title "overlay_sub nts" 900 H] overlay_sub_safe[OF nts] show ?thesis by (simp add: o(4))
qed

lemmas chart_returned = combined_chart_returned product_chart_returned panels_chart_returned overlay_chart_returned

end
