(* ===== verification/Mk_Charts.thy ===== *)
theory Mk_Charts
  imports Knee_Text
begin

text \<open>
  The script \<open>sweep/mkcharts.py\<close> as a whole: its command line, the files it reads and
  writes, in the order of the source, and the line it prints. \<open>here\<close> is the directory of the
  script (\<open>os.path.dirname(os.path.abspath(__file__))\<close>), \<open>args\<close> is \<open>sys.argv[1:]\<close> and
  \<open>lg\<close> is \<open>math.log10\<close>. Each chart is computed completely before its file is written, and
  a file once written stays written when a later step raises.
\<close>

section \<open>The model\<close>

definition is_csv :: "string \<Rightarrow> bool" where
  "is_csv a \<longleftrightarrow> ends_with a ''.csv''"

definition csv_args :: "string \<Rightarrow> string list \<Rightarrow> string list" where
  "csv_args here args = (let cs = filter is_csv args in if cs \<noteq> [] then cs else [path_join here ''knee-sweep.csv''])"

definition combined_flag :: "string list \<Rightarrow> bool" where
  "combined_flag args \<longleftrightarrow> ''--combined'' \<in> set args"

definition out_dir :: "string \<Rightarrow> string list \<Rightarrow> string" where
  "out_dir here args = (let ds = filter (\<lambda>a. \<not> is_csv a \<and> \<not> starts_with a ''--'') args in
     if ds \<noteq> [] then hd ds else dirname here)"

text \<open>\<open>rows=[r for path in CSVS for r in csv.DictReader(open(path))]\<close>.\<close>

definition read_rows :: "string list \<Rightarrow> csv_row list io" where
  "read_rows paths = forI (\<lambda>rows path. bindI (readI path) (\<lambda>t.
     bindI (liftI (csv_dict_rows t)) (\<lambda>rs. returnI (rows @ rs)))) [] paths"

definition write_svg :: "string \<Rightarrow> svg list \<Rightarrow> unit io" where
  "write_svg path o' = writeI path (svg_text o')"

definition write_combined :: "(rat \<Rightarrow> rat) \<Rightarrow> string \<Rightarrow> sweep_data \<Rightarrow> unit io" where
  "write_combined lg out D = bindI (liftI (combined_chart lg D)) (\<lambda>o'.
     if present D \<noteq> [] then write_svg (out @ ''/knee-curves.svg'') o' else returnI ())"

definition write_product :: "(rat \<Rightarrow> rat) \<Rightarrow> string \<Rightarrow> sweep_data \<Rightarrow> unit \<Rightarrow> string \<times> chart_cfg \<Rightarrow> unit io" where
  "write_product lg out D u nc = (if \<not> in_data (fst nc) D then returnI ()
     else bindI (liftI (bindE (curve_of D (fst nc)) (\<lambda>pts. product_chart lg pts (snd nc)))) (\<lambda>o'.
          write_svg (out @ ''/knee-'' @ fst nc @ ''.svg'') o'))"

definition check_clashes :: "round_trip list \<Rightarrow> unit io" where
  "check_clashes rts = (if clashes rts \<noteq> [] then raiseI (SystemExitMsg (clash_message (clashes rts))) else returnI ())"

definition write_round_trips :: "(rat \<Rightarrow> rat) \<Rightarrow> string \<Rightarrow> sweep_data \<Rightarrow> round_trip list \<Rightarrow> unit io" where
  "write_round_trips lg out D rts =
     bindI (liftI (bindE (maxrate D rts) rt_xmax)) (\<lambda>xmax.
     bindI (liftI (panels_chart lg D xmax (rt_xstep xmax) rts)) (\<lambda>o1.
     bindI (write_svg (out @ ''/round-trips.svg'') o1) (\<lambda>_.
     bindI (liftI (overlay_chart lg D xmax (rt_xstep xmax) rts)) (\<lambda>o2.
     write_svg (out @ ''/round-trips-p50.svg'') o2))))"

definition written :: "sweep_data \<Rightarrow> string list" where
  "written D = filter (\<lambda>n. in_data n D) (map fst CFG)"

definition summary :: "bool \<Rightarrow> string \<Rightarrow> sweep_data \<Rightarrow> string" where
  "summary combined out D =
     (let n = int (length (rt_present D));
          rt = (if combined then
                  (if 2 \<le> n then '', round-trips.svg + round-trips-p50.svg ('' @ str_of_int n @ '' round trips)'' else [])
                else if 2 \<le> n then
                  '' (skipped the '' @ str_of_int n @ ''-series round-trips overlay: pass --combined '' @
                  ''to write it, and only from a target that hands over EVERY gateway CSV)''
                else [])
      in ''wrote '' @ (if present D \<noteq> [] then ''knee-curves.svg and '' else []) @ str_of_int (int (length (written D))) @
         '' per-product chart(s) ('' @ join '', '' (written D) @ '')'' @ rt @ '' to '' @ out)"

definition mkcharts :: "(rat \<Rightarrow> rat) \<Rightarrow> string \<Rightarrow> string list \<Rightarrow> int io" where
  "mkcharts lg here args =
     (let out = out_dir here args in
      bindI (makedirsI out) (\<lambda>_.
      bindI (read_rows (csv_args here args)) (\<lambda>rows.
      bindI (liftI (sweep_data rows)) (\<lambda>D.
      bindI (write_combined lg out D) (\<lambda>_.
      bindI (forI (write_product lg out D) () CFG) (\<lambda>_.
      bindI (check_clashes (rt_present D)) (\<lambda>_.
      bindI (if combined_flag args \<and> 2 \<le> length (rt_present D)
             then write_round_trips lg out D (rt_present D) else returnI ()) (\<lambda>_.
      bindI (printI (summary (combined_flag args) out D)) (\<lambda>_.
      returnI 0)))))))))"

section \<open>Which files the script may write\<close>

definition knee_path :: "string \<Rightarrow> string \<Rightarrow> string" where
  "knee_path out name = out @ ''/knee-'' @ name @ ''.svg''"

definition chart_files :: "string \<Rightarrow> bool \<Rightarrow> string set" where
  "chart_files out combined = insert (knee_path out ''curves'') (knee_path out ` fst ` set CFG) \<union>
     (if combined then {out @ ''/round-trips.svg'', out @ ''/round-trips-p50.svg''} else {})"

lemma knee_path_inj [simp]: "knee_path out n = knee_path out m \<longleftrightarrow> n = m"
  by (simp add: knee_path_def)

lemma knee_path_image: "knee_path out n \<in> knee_path out ` S \<longleftrightarrow> n \<in> S"
  by auto

lemma round_trip_paths [simp]:
  "out @ ''/round-trips.svg'' \<noteq> knee_path out n" "out @ ''/round-trips-p50.svg'' \<noteq> knee_path out n"
  "knee_path out n \<noteq> out @ ''/round-trips.svg''" "knee_path out n \<noteq> out @ ''/round-trips-p50.svg''"
  by (simp_all add: knee_path_def)

text \<open>Every text the script writes is accepted by the reader of \<open>Svg_Text\<close>.\<close>

lemma write_combined_writes_only [frame]:
  assumes "knee_path out ''curves'' \<in> S"
  shows "writes_only S xml_ok (write_combined lg out D)"
  unfolding write_combined_def write_svg_def using assms
  by (intro frame) (auto simp: knee_path_def intro: xml_ok_svg_text combined_chart_returned)

lemma write_product_writes_only [frame]:
  assumes "nc \<in> set CFG" "knee_path out ` fst ` set CFG \<subseteq> S"
  shows "writes_only S xml_ok (write_product lg out D u nc)"
proof -
  have cfg: "cfg_ok (snd nc)" using CFG_ok assms(1) by (simp only: list_all_iff)
  have path: "out @ ''/knee-'' @ fst nc @ ''.svg'' \<in> S" using assms by (fastforce simp: knee_path_def)
  have "xml_ok (svg_text o')" if "product_chart lg pts (snd nc) = Inr o'" for pts o'
    by (rule xml_ok_svg_text[OF product_chart_returned[OF that cfg]])
  then show ?thesis unfolding write_product_def write_svg_def using path
    by (intro frame) (simp_all only: liftI_Inr bindE_eq_Inr, blast)
qed

lemma write_round_trips_writes_only [frame]:
  assumes "{out @ ''/round-trips.svg'', out @ ''/round-trips-p50.svg''} \<subseteq> S" "rt_list rts"
  shows "writes_only S xml_ok (write_round_trips lg out D rts)"
  unfolding write_round_trips_def write_svg_def using assms
  by (intro frame) (auto intro: xml_ok_svg_text panels_chart_returned overlay_chart_returned)

lemma mkcharts_writes_only: "writes_only (chart_files (out_dir here args) (combined_flag args)) xml_ok (mkcharts lg here args)"
  unfolding mkcharts_def Let_def read_rows_def check_clashes_def
  by (intro frame) (auto simp: chart_files_def rt_present_list)

lemma chart_files_not_csv: "path \<in> chart_files out c \<Longrightarrow> \<not> is_csv path"
  by (auto simp: chart_files_def knee_path_def is_csv_def py_eval split: if_splits)

text \<open>C5: what \<open>mkcharts.py\<close> may change, and what it leaves behind. Whatever its arguments, its
  input and the way it ends, with an exception included, a file that differs afterwards is
  \<open>knee-curves.svg\<close>, a \<open>knee-<product>.svg\<close> of the table \<open>CFG\<close> or, with \<open>--combined\<close>, one of
  the two comparison charts, in the output directory, and what it holds is a document that
  the XML reader accepts: one element, tags that match, attributes that are quoted and given
  once. In particular no sweep file is ever written to, and no cell of the input can break
  a chart.\<close>

theorem mkcharts_frame:
  "{path. files (snd (run (mkcharts lg here args) w)) path \<noteq> files w path} \<subseteq>
   {path \<in> chart_files (out_dir here args) (combined_flag args). \<not> is_csv path \<and>
      (\<exists>t. files (snd (run (mkcharts lg here args) w)) path = Some t \<and> xml_ok t)}"
  using writes_only_run[OF mkcharts_writes_only] chart_files_not_csv by blast

text \<open>C6: the comparison charts are opt-in. A run without \<open>--combined\<close> never touches
  \<open>round-trips.svg\<close> or \<open>round-trips-p50.svg\<close>, however many products its files hold: the
  partial overlay that used to replace the complete one cannot come back.\<close>

theorem round_trips_opt_in:
  assumes "\<not> combined_flag args" "name \<in> {''/round-trips.svg'', ''/round-trips-p50.svg''}"
  shows "files (snd (run (mkcharts lg here args) w)) (out_dir here args @ name) = files w (out_dir here args @ name)"
proof -
  have "out_dir here args @ name \<notin> chart_files (out_dir here args) (combined_flag args)"
    using assms by (auto simp: chart_files_def)
  then show ?thesis using writes_only_run[OF mkcharts_writes_only] by blast
qed

section \<open>Input\<close>

text \<open>The rows of the input files, in order, or the exception of the first file that does not
  exist.\<close>

definition input_rows :: "world \<Rightarrow> string list \<Rightarrow> csv_row list res" where
  "input_rows w paths = collectE (\<lambda>path. case files w path of None \<Rightarrow> Inl (FileNotFoundError path)
     | Some t \<Rightarrow> csv_dict_rows t) paths"

lemma read_rows_input: "read_rows paths w = (input_rows w paths, w)"
proof -
  have "forI (\<lambda>rows path. bindI (readI path) (\<lambda>t. bindI (liftI (csv_dict_rows t)) (\<lambda>rs. returnI (rows @ rs)))) acc paths w =
      (bindE (input_rows w paths) (\<lambda>rs. Inr (acc @ rs)), w)" for acc
    by (induction paths arbitrary: acc)
      (auto simp: input_rows_def bindI_def io_defs bindE_def split: option.splits sum.splits)
  then show ?thesis by (simp add: read_rows_def)
qed

text \<open>Rows that can be charted: those of a product of the table \<open>CFG\<close> have the columns of a
  sweep, a rate of at least one request per second and positive latencies.\<close>

definition charted :: "csv_row \<Rightarrow> bool" where
  "charted r \<longleftrightarrow> (\<exists>name \<in> fst ` set CFG. row_get r ''product'' = Inr (CStr name))"

definition chart_rows :: "csv_row list \<Rightarrow> bool" where
  "chart_rows rows \<longleftrightarrow> sweep_rows rows \<and> (\<forall>r \<in> set rows. charted r \<longrightarrow>
     drawable [''p50'', ''p99''] (num_columns r) \<and> 1 \<le> val (num_columns r) ''rate'' \<and> val (num_columns r) ''rate'' \<le> 10 ^ 9)"

definition chartable :: "sweep_data \<Rightarrow> bool" where
  "chartable D \<longleftrightarrow> (\<forall>name \<in> fst ` set CFG. \<forall>pts. dict_get D (CStr name) = Some pts \<longrightarrow>
     drawable_curve [''p50'', ''p99''] pts \<and> (\<forall>p \<in> set pts. 1 \<le> val p ''rate'' \<and> val p ''rate'' \<le> 10 ^ 9))"

lemma drawable_mean:
  assumes "reps \<noteq> []" "\<forall>x \<in> set reps. drawable keys x" "\<And>k. dict_get pt k = column_mean reps k"
  shows "drawable keys pt"
proof -
  have b: "\<exists>m. dict_get pt k = Some m \<and> a \<le> m \<and> m \<le> b"
    if "\<forall>x \<in> set reps. dict_get x k \<noteq> None \<and> a \<le> val x k \<and> val x k \<le> b" for k a b
  proof -
    have "\<forall>x \<in> set reps. \<exists>v. dict_get x k = Some v \<and> a \<le> v \<and> v \<le> b" using that by (auto simp: val_def)
    then show ?thesis using column_mean_between[OF assms(1)] assms(3) by metis
  qed
  have "\<exists>m. dict_get pt ''rate'' = Some m \<and> 0 \<le> m \<and> m \<le> 2 ^ 40 - 1"
    by (rule b) (use assms(2) in \<open>fastforce simp: drawable_def\<close>)
  moreover have "\<exists>m. dict_get pt ''achieved'' = Some m \<and> - (2 ^ 40 - 1) \<le> m \<and> m \<le> 2 ^ 40 - 1"
    by (rule b) (use assms(2) in \<open>fastforce simp: drawable_def\<close>)
  moreover have "\<exists>m. dict_get pt k = Some m \<and> 1 \<le> m \<and> m \<le> 10 ^ 9" if "k \<in> set keys" for k
    by (rule b) (use assms(2) that in \<open>fastforce simp: drawable_def\<close>)
  ultimately show ?thesis unfolding drawable_def val_def by fastforce
qed

lemma rate_of_val: "dict_get pt ''rate'' \<noteq> None \<Longrightarrow> rate_of pt = val pt ''rate''"
  by (auto simp: rate_of_def val_def)

lemma chart_rows_curve:
  assumes "chart_rows rows" "name \<in> fst ` set CFG" "pt \<in> set (sweep_curve rows (CStr name))"
  shows "drawable [''p50'', ''p99''] pt \<and> 1 \<le> val pt ''rate'' \<and> val pt ''rate'' \<le> 10 ^ 9"
proof -
  have sw: "sweep_rows rows" using assms(1) by (simp add: chart_rows_def)
  let ?R = "repeats rows (CStr name) (rate_of pt)"
  have R: "drawable [''p50'', ''p99''] x \<and> 1 \<le> val x ''rate'' \<and> val x ''rate'' \<le> 10 ^ 9" if x: "x \<in> set ?R" for x
  proof -
    obtain r where r: "r \<in> set rows" "row_key r = Inr (CStr name, rate_of pt)" "x = num_columns r"
      using x unfolding repeats_mem by blast
    then have "charted r" using assms(2) unfolding charted_def row_key_def by (auto simp: py_res)
    then show ?thesis using assms(1) r unfolding chart_rows_def by blast
  qed
  have d: "drawable [''p50'', ''p99''] pt"
    using curve_point[OF sw assms(3)] R by (intro drawable_mean[of ?R]) auto
  then have "rate_of pt = val pt ''rate''" by (intro rate_of_val) (simp add: drawable_def)
  moreover obtain x where x: "x \<in> set ?R" using curve_point(2)[OF sw assms(3)] by (cases ?R) auto
  moreover have "val x ''rate'' = rate_of pt" using repeats_rate[OF sw x] by (simp add: val_def)
  ultimately show ?thesis using d R[OF x] by simp
qed

lemma chart_rows_data:
  assumes "chart_rows rows"
  shows "\<exists>D. sweep_data rows = Inr D \<and> chartable D \<and>
    (\<forall>name. in_data name D \<longleftrightarrow> rates rows (CStr name) \<noteq> {}) \<and>
    (\<forall>name \<in> fst ` set CFG. \<forall>r. measured_at D name r \<longleftrightarrow> rates rows (CStr name) = {} \<or> r \<in> rates rows (CStr name))"
proof -
  have sw: "sweep_rows rows" using assms by (simp add: chart_rows_def)
  obtain D where D: "sweep_data rows = Inr D"
      "\<And>p. dict_get D p = (if rates rows p = {} then None else Some (sweep_curve rows p))"
    using sweep_data_curves[OF sw] by blast
  have fin: "finite (rates rows p)" for p
  proof -
    have "rates rows p \<subseteq> (\<lambda>r. snd (projr (row_key r))) ` set rows" unfolding rates_def by force
    then show ?thesis by (rule finite_subset) simp
  qed
  have rates: "(\<lambda>p. val p ''rate'') ` set (sweep_curve rows (CStr name)) = rates rows (CStr name)"
    if "name \<in> fst ` set CFG" for name
  proof -
    have "val p ''rate'' = rate_of p" if "p \<in> set (sweep_curve rows (CStr name))" for p
      using chart_rows_curve[OF assms \<open>name \<in> fst ` set CFG\<close> that] by (auto simp: drawable_def rate_of_val)
    then have "(\<lambda>p. val p ''rate'') ` set (sweep_curve rows (CStr name)) = set (map rate_of (sweep_curve rows (CStr name)))"
      by auto
    then show ?thesis using fin by (simp add: curve_rates[OF sw])
  qed
  have "set (map rate_of (sweep_curve rows p)) = rates rows p" for p by (simp only: curve_rates[OF sw] set_sorted_list_of_set[OF fin])
  then have "sweep_curve rows p \<noteq> []" if "rates rows p \<noteq> {}" for p
    using that by (metis empty_set list.map(1))
  then have "chartable D"
    unfolding chartable_def drawable_curve_def D(2) using chart_rows_curve[OF assms] by (metis option.distinct(1) option.inject)
  moreover have "measured_at D name r \<longleftrightarrow> rates rows (CStr name) = {} \<or> r \<in> rates rows (CStr name)"
    if "name \<in> fst ` set CFG" for name r
    using rates[OF that] D(2) by (auto simp: measured_at_def)
  ultimately show ?thesis using D by (auto simp: in_data_def)
qed


section \<open>The knee charts\<close>

text \<open>What a run leaves: every chart of the data, complete and well formed.\<close>

definition knee_charts_written :: "(rat \<Rightarrow> rat) \<Rightarrow> string \<Rightarrow> sweep_data \<Rightarrow> (string \<rightharpoonup> string) \<Rightarrow> bool" where
  "knee_charts_written lg out D f \<longleftrightarrow>
     (present D \<noteq> [] \<longrightarrow> (\<exists>o'. combined_chart lg D = Inr o' \<and> well_formed o' \<and> f (knee_path out ''curves'') = Some (svg_text o'))) \<and>
     (\<forall>nc \<in> set CFG. \<forall>pts. dict_get D (CStr (fst nc)) = Some pts \<longrightarrow>
        (\<exists>o'. product_chart lg pts (snd nc) = Inr o' \<and> well_formed o' \<and> f (knee_path out (fst nc)) = Some (svg_text o')))"

definition product_file :: "(rat \<Rightarrow> rat) \<Rightarrow> string \<Rightarrow> sweep_data \<Rightarrow> (string \<rightharpoonup> string) \<Rightarrow> string \<times> chart_cfg \<Rightarrow> (string \<rightharpoonup> string)" where
  "product_file lg out D f nc = (case dict_get D (CStr (fst nc)) of None \<Rightarrow> f
     | Some pts \<Rightarrow> f(knee_path out (fst nc) \<mapsto> svg_text (projr (product_chart lg pts (snd nc)))))"

lemma write_products:
  assumes "\<forall>nc \<in> set cs. \<forall>pts. dict_get D (CStr (fst nc)) = Some pts \<longrightarrow> (\<exists>o'. product_chart lg pts (snd nc) = Inr o')"
  shows "forI (write_product lg out D) () cs w = (Inr (), w\<lparr>files := foldl (product_file lg out D) (files w) cs\<rparr>)"
  using assms
proof (induction cs arbitrary: w)
  case (Cons nc cs)
  have "write_product lg out D () nc w = (Inr (), w\<lparr>files := product_file lg out D (files w) nc\<rparr>)"
    using Cons.prems by (cases "dict_get D (CStr (fst nc))")
      (auto simp: write_product_def product_file_def in_data_def curve_of_def write_svg_def io_defs bindI_def knee_path_def)
  then show ?case using Cons by (simp add: bindI_def)
qed (simp add: returnI_def)

lemma product_files_get:
  assumes "distinct (map fst cs)"
  shows "nc \<in> set cs \<Longrightarrow> dict_get D (CStr (fst nc)) = Some pts \<Longrightarrow>
      foldl (product_file lg out D) f cs (knee_path out (fst nc)) = Some (svg_text (projr (product_chart lg pts (snd nc))))"
    and "p \<notin> knee_path out ` fst ` set cs \<Longrightarrow> foldl (product_file lg out D) f cs p = f p"
proof -
  have other: "p \<notin> knee_path out ` fst ` set cs \<Longrightarrow> foldl (product_file lg out D) f cs p = f p" for cs f p
    by (induction cs arbitrary: f) (auto simp: product_file_def split: option.splits)
  then show "p \<notin> knee_path out ` fst ` set cs \<Longrightarrow> foldl (product_file lg out D) f cs p = f p" .
  show "foldl (product_file lg out D) f cs (knee_path out (fst nc)) = Some (svg_text (projr (product_chart lg pts (snd nc))))"
    if "nc \<in> set cs" "dict_get D (CStr (fst nc)) = Some pts"
    using assms that
  proof (induction cs arbitrary: f)
    case (Cons c cs)
    show ?case
    proof (cases "nc = c")
      case True
      then have "knee_path out (fst nc) \<notin> knee_path out ` fst ` set cs" using Cons.prems(1) by (simp add: knee_path_image)
      then show ?thesis using True Cons.prems(3) by (simp add: other) (simp add: product_file_def)
    next
      case False
      then show ?thesis using Cons by simp
    qed
  qed simp
qed

lemma CFG_names: "distinct (map fst CFG)" "''curves'' \<notin> fst ` set CFG"
    "{''aeron'', ''braft'', ''openraft''} \<subseteq> fst ` set CFG" "fst ` set RT \<subseteq> fst ` set CFG"
  by (simp_all add: CFG_def RT_def)

lemma drawable_curve_mono: "drawable_curve keys pts \<Longrightarrow> set keys' \<subseteq> set keys \<Longrightarrow> drawable_curve keys' pts"
  using drawable_mono unfolding drawable_curve_def by blast

lemma chartable_product:
  assumes "log10_function lg" "chartable D" "nc \<in> set CFG" "dict_get D (CStr (fst nc)) = Some pts"
  shows "\<exists>o'. product_chart lg pts (snd nc) = Inr o' \<and> well_formed o'"
proof -
  have "cfg_ok (snd nc)" using CFG_ok assms(3) by (simp add: list_all_iff)
  moreover have "drawable_curve [''p50'', ''p99''] pts" using assms(2-4) unfolding chartable_def by blast
  ultimately show ?thesis using product_chart_document[OF assms(1)] unfolding drawable_curve_def by blast
qed

lemma chartable_combined:
  assumes "chartable D"
  shows "\<forall>name \<in> {''aeron'', ''braft'', ''openraft''}. \<forall>pts. dict_get D (CStr name) = Some pts \<longrightarrow> drawable_curve [''p50''] pts"
proof (intro ballI allI impI)
  fix name pts assume n: "name \<in> {''aeron'', ''braft'', ''openraft''}" and p: "dict_get D (CStr name) = Some pts"
  have "drawable_curve [''p50'', ''p99''] pts" using assms p subsetD[OF CFG_names(3) n] unfolding chartable_def by blast
  then show "drawable_curve [''p50''] pts" by (rule drawable_curve_mono) simp
qed

lemma knee_phase:
  assumes lg: "log10_function lg" and D: "chartable D" "measured_at D ''braft'' 250000" "measured_at D ''openraft'' 85000"
  shows "\<exists>f u. write_combined lg out D w = (Inr (), u) \<and>
    forI (write_product lg out D) () CFG u = (Inr (), w\<lparr>files := f\<rparr>) \<and>
    knee_charts_written lg out D f \<and> (\<forall>p. p \<notin> chart_files out False \<longrightarrow> f p = files w p)"
proof -
  obtain oc where oc: "combined_chart lg D = Inr oc" "well_formed oc"
    using combined_chart_cases[OF lg chartable_combined[OF D(1)]] D(2,3) by auto
  define g where "g = (if present D \<noteq> [] then (files w)(knee_path out ''curves'' \<mapsto> svg_text oc) else files w)"
  define f where "f = foldl (product_file lg out D) g CFG"
  have c: "write_combined lg out D w = (Inr (), w\<lparr>files := g\<rparr>)"
    using oc by (simp add: write_combined_def bindI_lift g_def write_svg_def io_defs knee_path_def)
  have p: "forI (write_product lg out D) () CFG (w\<lparr>files := g\<rparr>) = (Inr (), w\<lparr>files := f\<rparr>)"
    using chartable_product[OF lg D(1)] by (subst write_products) (fastforce simp: f_def)+
  have "knee_path out ''curves'' \<notin> knee_path out ` fst ` set CFG" using CFG_names(2) by (simp only: knee_path_image not_False_eq_True)
  then have "f (knee_path out ''curves'') = g (knee_path out ''curves'')"
    unfolding f_def by (rule product_files_get(2)[OF CFG_names(1)])
  moreover have "\<exists>o'. product_chart lg pts (snd nc) = Inr o' \<and> well_formed o' \<and> f (knee_path out (fst nc)) = Some (svg_text o')"
    if "nc \<in> set CFG" "dict_get D (CStr (fst nc)) = Some pts" for nc pts
    using chartable_product[OF lg D(1) that] product_files_get(1)[OF CFG_names(1) that, of lg out g] by (auto simp: f_def)
  ultimately have "knee_charts_written lg out D f" using oc by (auto simp: knee_charts_written_def g_def)
  moreover have "f q = files w q" if "q \<notin> chart_files out False" for q
    using product_files_get(2)[OF CFG_names(1), of q out lg D g] that by (auto simp: f_def g_def chart_files_def)
  ultimately show ?thesis using c p by blast
qed


section \<open>The comparison charts\<close>

lemma rt_present_data: "rt \<in> set (rt_present D) \<Longrightarrow> in_data (fst rt) D \<and> fst rt \<in> fst ` set CFG"
proof -
  assume "rt \<in> set (rt_present D)"
  then have "rt \<in> set RT" "in_data (fst rt) D" unfolding rt_present_def by (auto split: prod.splits)
  then show ?thesis using CFG_names(4) by blast
qed

lemma chartable_drawable_data: "chartable D \<Longrightarrow> drawable_data D (rt_present D)"
  unfolding drawable_data_def chartable_def using rt_present_data unfolding in_data_def by blast

lemma maxrate_chartable:
  assumes "chartable D" "rt_present D \<noteq> []"
  shows "\<exists>m. maxrate D (rt_present D) = Inr m \<and> 1 \<le> m \<and> m \<le> 10 ^ 9 \<and>
    (\<forall>rt \<in> set (rt_present D). \<forall>pts. dict_get D (CStr (fst rt)) = Some pts \<longrightarrow> (\<forall>p \<in> set pts. val p ''rate'' \<le> m))"
proof -
  define c where "c rt = map (\<lambda>p. val p ''rate'') (the (dict_get D (CStr (fst rt))))" for rt :: round_trip
  have C: "\<exists>pts. dict_get D (CStr (fst rt)) = Some pts \<and> drawable_curve [''p50'', ''p99''] pts \<and>
      (\<forall>p \<in> set pts. 1 \<le> val p ''rate'' \<and> val p ''rate'' \<le> 10 ^ 9)" if "rt \<in> set (rt_present D)" for rt
    using assms(1) rt_present_data[OF that] unfolding chartable_def in_data_def by blast
  have "(\<lambda>(n, lab, col). bindE (curve_of D n) (mapE (\<lambda>q. pt_get q ''rate''))) rt = Inr (c rt)"
    if rt: "rt \<in> set (rt_present D)" for rt
  proof -
    obtain pts where p: "dict_get D (CStr (fst rt)) = Some pts" "drawable_curve [''p50'', ''p99''] pts" using C[OF rt] by blast
    have "mapE (\<lambda>q. pt_get q ''rate'') pts = Inr (map (\<lambda>p. val p ''rate'') pts)"
      by (rule mapE_total) (use p(2) drawableD(1) in \<open>auto simp: drawable_curve_def\<close>)
    then show ?thesis using p(1) by (cases rt) (simp add: curve_of_def c_def)
  qed
  then have "all_rates D (rt_present D) = Inr (concat (map c (rt_present D)))"
    unfolding all_rates_def collectE_def by (subst mapE_total[of _ _ c]) auto
  moreover obtain r rs where r: "concat (map c (rt_present D)) = r # rs"
  proof -
    obtain rt where "rt \<in> set (rt_present D)" using assms(2) by (cases "rt_present D") auto
    moreover from C[OF this] have "c rt \<noteq> []" by (auto simp: c_def drawable_curve_def)
    ultimately show thesis using that by (cases "concat (map c (rt_present D))") auto
  qed
  ultimately have m: "maxrate D (rt_present D) = Inr (foldl max r rs)" by (simp add: maxrate_def)
  have all: "1 \<le> x \<and> x \<le> 10 ^ 9" if "x \<in> set (r # rs)" for x
    using that C unfolding r[symmetric] by (fastforce simp: c_def)
  have "val p ''rate'' \<in> set (r # rs)" if "rt \<in> set (rt_present D)" "dict_get D (CStr (fst rt)) = Some pts" "p \<in> set pts" for rt pts p
    using that unfolding r[symmetric] by (force simp: c_def)
  then show ?thesis using m foldl_max[of r rs] all by blast
qed

definition round_trips_written :: "(rat \<Rightarrow> rat) \<Rightarrow> string \<Rightarrow> sweep_data \<Rightarrow> (string \<rightharpoonup> string) \<Rightarrow> bool" where
  "round_trips_written lg out D f \<longleftrightarrow> (\<exists>xmax o1 o2.
     (\<forall>rt \<in> set (rt_present D). \<forall>pts. dict_get D (CStr (fst rt)) = Some pts \<longrightarrow> (\<forall>p \<in> set pts. val p ''rate'' \<le> xmax)) \<and>
     panels_chart lg D xmax (rt_xstep xmax) (rt_present D) = Inr o1 \<and> well_formed o1 \<and> f (out @ ''/round-trips.svg'') = Some (svg_text o1) \<and>
     overlay_chart lg D xmax (rt_xstep xmax) (rt_present D) = Inr o2 \<and> well_formed o2 \<and> f (out @ ''/round-trips-p50.svg'') = Some (svg_text o2))"

lemma round_trip_phase:
  assumes lg: "log10_function lg" and D: "chartable D" "rt_present D \<noteq> []"
  shows "\<exists>f. write_round_trips lg out D (rt_present D) w = (Inr (), w\<lparr>files := f\<rparr>) \<and> round_trips_written lg out D f \<and>
    (\<forall>n. f (knee_path out n) = files w (knee_path out n))"
proof -
  obtain m where m: "maxrate D (rt_present D) = Inr m" "1 \<le> m" "m \<le> 10 ^ 9"
      "\<forall>rt \<in> set (rt_present D). \<forall>pts. dict_get D (CStr (fst rt)) = Some pts \<longrightarrow> (\<forall>p \<in> set pts. val p ''rate'' \<le> m)"
    using maxrate_chartable[OF D] by blast
  then obtain x where x: "rt_xmax m = Inr x" "m \<le> x" "x < m + 25000"
    using rt_xmax_bounds[of m] by auto
  have b: "0 < x" "x < 2 ^ 40" "0 < rt_xstep x" using x m by (auto simp: rt_xstep_def)
  obtain o1 o2 where o: "panels_chart lg D x (rt_xstep x) (rt_present D) = Inr o1" "well_formed o1"
      "overlay_chart lg D x (rt_xstep x) (rt_present D) = Inr o2" "well_formed o2"
    using panels_chart_drawn[OF lg b rt_present_list chartable_drawable_data[OF D(1)]]
      overlay_chart_drawn[OF lg b rt_present_list chartable_drawable_data[OF D(1)]] by blast
  let ?f = "(files w)(out @ ''/round-trips.svg'' \<mapsto> svg_text o1, out @ ''/round-trips-p50.svg'' \<mapsto> svg_text o2)"
  have "write_round_trips lg out D (rt_present D) w = (Inr (), w\<lparr>files := ?f\<rparr>)"
    using m(1) x(1) o by (simp add: write_round_trips_def bindI_lift write_svg_def bindI_def io_defs)
  moreover have "round_trips_written lg out D ?f"
    unfolding round_trips_written_def
  proof (rule exI[of _ x], rule exI[of _ o1], rule exI[of _ o2], intro conjI o)
    show "\<forall>rt \<in> set (rt_present D). \<forall>pts. dict_get D (CStr (fst rt)) = Some pts \<longrightarrow> (\<forall>p \<in> set pts. val p ''rate'' \<le> x)"
      using m(4) x(2) by (meson order_trans)
  qed simp_all
  ultimately show ?thesis by auto
qed


section \<open>The whole run\<close>

text \<open>The series of the comparison for which there are rows.\<close>

definition rt_rows :: "csv_row list \<Rightarrow> round_trip list" where
  "rt_rows rows = filter (\<lambda>rt. rates rows (CStr (fst rt)) \<noteq> {}) RT"

text \<open>The points that carry the direct labels of \<open>knee-curves.svg\<close> were measured.\<close>

definition labels_measured :: "csv_row list \<Rightarrow> bool" where
  "labels_measured rows \<longleftrightarrow> (\<forall>(name, r) \<in> {(''braft'', 250000), (''openraft'', 85000)}.
     rates rows (CStr name) = {} \<or> r \<in> rates rows (CStr name))"

lemma clash_free: "clashes rts = [] \<longleftrightarrow> distinct (map (\<lambda>rt. snd (snd rt)) rts)"
proof -
  have "clashes rts = [] \<longleftrightarrow> (\<forall>c labs. (c, labs) \<notin> set (clashes rts))" by (cases "clashes rts") auto
  then show ?thesis by (auto simp: clashes_mem distinct_map_filter_length not_less)
qed

text \<open>The run up to the colour check.\<close>

lemma mkcharts_knee_phase:
  assumes lg: "log10_function lg" and out: "files w (out_dir here args) = None"
    and rows: "input_rows w (csv_args here args) = Inr rows" "chart_rows rows" "labels_measured rows"
  shows "\<exists>D f ds. sweep_data rows = Inr D \<and> chartable D \<and> rt_present D = rt_rows rows \<and>
    knee_charts_written lg (out_dir here args) D f \<and>
    (\<forall>p. p \<notin> chart_files (out_dir here args) False \<longrightarrow> f p = files w p) \<and>
    mkcharts lg here args w =
      bindI (check_clashes (rt_present D)) (\<lambda>_.
      bindI (if combined_flag args \<and> 2 \<le> length (rt_present D)
             then write_round_trips lg (out_dir here args) D (rt_present D) else returnI ()) (\<lambda>_.
      bindI (printI (summary (combined_flag args) (out_dir here args) D)) (\<lambda>_. returnI 0))) (w\<lparr>dirs := ds, files := f\<rparr>)"
proof -
  let ?out = "out_dir here args"
  obtain ds where mk: "makedirsI ?out w = (Inr (), w\<lparr>dirs := ds\<rparr>)" using out by (simp add: makedirsI_def)
  obtain D where D: "sweep_data rows = Inr D" "chartable D" "\<forall>name. in_data name D \<longleftrightarrow> rates rows (CStr name) \<noteq> {}"
      "\<forall>name \<in> fst ` set CFG. \<forall>r. measured_at D name r \<longleftrightarrow> rates rows (CStr name) = {} \<or> r \<in> rates rows (CStr name)"
    using chart_rows_data[OF rows(2)] by (elim exE conjE)
  have m: "measured_at D name r \<longleftrightarrow> rates rows (CStr name) = {} \<or> r \<in> rates rows (CStr name)"
    if "name \<in> {''aeron'', ''braft'', ''openraft''}" for name r
    using D(4) subsetD[OF CFG_names(3) that] by blast
  have "measured_at D ''braft'' 250000" "measured_at D ''openraft'' 85000"
    using rows(3) by (simp_all add: labels_measured_def m)
  from knee_phase[OF lg D(2) this, of ?out "w\<lparr>dirs := ds\<rparr>"]
  obtain f u where f: "write_combined lg ?out D (w\<lparr>dirs := ds\<rparr>) = (Inr (), u)"
      "forI (write_product lg ?out D) () CFG u = (Inr (), w\<lparr>dirs := ds, files := f\<rparr>)"
      "knee_charts_written lg ?out D f" "\<forall>p. p \<notin> chart_files ?out False \<longrightarrow> f p = files w p"
    by auto
  have rr: "read_rows (csv_args here args) (w\<lparr>dirs := ds\<rparr>) = (Inr rows, w\<lparr>dirs := ds\<rparr>)"
    using rows(1) by (simp add: read_rows_input input_rows_def)
  have "rt_present D = rt_rows rows"
    unfolding rt_present_def rt_rows_def by (rule filter_cong) (auto simp: D(3))
  moreover have "mkcharts lg here args w =
      bindI (check_clashes (rt_present D)) (\<lambda>_.
      bindI (if combined_flag args \<and> 2 \<le> length (rt_present D)
             then write_round_trips lg ?out D (rt_present D) else returnI ()) (\<lambda>_.
      bindI (printI (summary (combined_flag args) ?out D)) (\<lambda>_. returnI 0))) (w\<lparr>dirs := ds, files := f\<rparr>)"
    unfolding mkcharts_def Let_def
    by (subst bindI_Inr, rule mk, subst bindI_Inr, rule rr, subst bindI_lift, simp only: D(1) sum.case,
        subst bindI_Inr, rule f(1), subst bindI_Inr, rule f(2), rule refl)
  ultimately show ?thesis using D(1,2) f(3,4)
    by (intro exI conjI) assumption+
qed

text \<open>C3: a run of \<open>mkcharts.py\<close> succeeds and leaves every chart of its data. For sweep files
  whose rows of charted products carry a rate, an achieved rate and positive latencies, with
  the two labelled points measured, and with no two round trips of the data in one colour,
  the exit status is 0; \<open>knee-curves.svg\<close>, the chart of each product that has rows and, with
  \<open>--combined\<close> and at least two round trips, both comparison charts are in the output
  directory, each a complete well-formed document drawn from the averaged data and with a
  rate axis that reaches every point; and the last line says so.\<close>

theorem mkcharts_succeeds:
  assumes "log10_function lg" "files w (out_dir here args) = None"
    "input_rows w (csv_args here args) = Inr rows" "chart_rows rows" "labels_measured rows"
    "distinct (map (\<lambda>rt. snd (snd rt)) (rt_rows rows))"
  shows "\<exists>D w'. sweep_data rows = Inr D \<and> run (mkcharts lg here args) w = (0, w') \<and>
    knee_charts_written lg (out_dir here args) D (files w') \<and>
    (combined_flag args \<and> 2 \<le> length (rt_rows rows) \<longrightarrow> round_trips_written lg (out_dir here args) D (files w')) \<and>
    stdout w' = stdout w @ summary (combined_flag args) (out_dir here args) D @ [CHR 0x0A] \<and> stderr w' = stderr w"
proof -
  let ?out = "out_dir here args"
  obtain D f ds where D: "sweep_data rows = Inr D" "chartable D" "rt_present D = rt_rows rows" "knee_charts_written lg ?out D f"
      "mkcharts lg here args w =
      bindI (check_clashes (rt_present D)) (\<lambda>_.
      bindI (if combined_flag args \<and> 2 \<le> length (rt_present D)
             then write_round_trips lg ?out D (rt_present D) else returnI ()) (\<lambda>_.
      bindI (printI (summary (combined_flag args) ?out D)) (\<lambda>_. returnI 0))) (w\<lparr>dirs := ds, files := f\<rparr>)"
    using mkcharts_knee_phase[OF assms(1-5)] by blast
  have cl: "check_clashes (rt_present D) = returnI ()" using assms(6) by (simp add: check_clashes_def clash_free D(3))
  show ?thesis
  proof (cases "combined_flag args \<and> 2 \<le> length (rt_present D)")
    case True
    then have "rt_present D \<noteq> []" by auto
    from round_trip_phase[OF assms(1) D(2) this, of ?out "w\<lparr>dirs := ds, files := f\<rparr>"]
    obtain g where g: "write_round_trips lg ?out D (rt_present D) (w\<lparr>dirs := ds, files := f\<rparr>) = (Inr (), w\<lparr>dirs := ds, files := g\<rparr>)"
        "round_trips_written lg ?out D g" "\<And>n. g (knee_path ?out n) = f (knee_path ?out n)"
      by auto
    have "knee_charts_written lg ?out D g" using D(4) g(3) by (simp add: knee_charts_written_def)
    moreover have "run (mkcharts lg here args) w = (0, w\<lparr>dirs := ds, files := g, stdout := stdout w @ summary (combined_flag args) ?out D @ [CHR 0x0A]\<rparr>)"
      unfolding run_def D(5) cl bindI_return if_P[OF True]
      by (subst bindI_Inr, rule g(1)) (simp add: bindI_print returnI_def)
    ultimately show ?thesis using D(1) g(2) by simp
  next
    case False
    then show ?thesis using D(1,3,4,5) cl by (auto simp: run_def bindI_print returnI_def)
  qed
qed

text \<open>C11: a clash of colours stops the run before any comparison is drawn. When two round trips of
  the data have one colour, the exit status is 1, the message on the error stream names the
  clashes, nothing is printed, \<open>knee-curves.svg\<close> and the charts of the products are
  written already, and \<open>round-trips.svg\<close> and \<open>round-trips-p50.svg\<close> are as before, with or
  without \<open>--combined\<close>.\<close>

theorem mkcharts_clash:
  assumes "log10_function lg" "files w (out_dir here args) = None"
    "input_rows w (csv_args here args) = Inr rows" "chart_rows rows" "labels_measured rows"
    "\<not> distinct (map (\<lambda>rt. snd (snd rt)) (rt_rows rows))"
  shows "\<exists>D w'. sweep_data rows = Inr D \<and> run (mkcharts lg here args) w = (1, w') \<and>
    knee_charts_written lg (out_dir here args) D (files w') \<and>
    (\<forall>p. p \<notin> chart_files (out_dir here args) False \<longrightarrow> files w' p = files w p) \<and>
    stdout w' = stdout w \<and> stderr w' = stderr w @ clash_message (clashes (rt_rows rows)) @ [CHR 0x0A]"
proof -
  let ?out = "out_dir here args"
  obtain D f ds where D: "sweep_data rows = Inr D" "rt_present D = rt_rows rows" "knee_charts_written lg ?out D f"
      "\<forall>p. p \<notin> chart_files ?out False \<longrightarrow> f p = files w p"
      "mkcharts lg here args w =
      bindI (check_clashes (rt_present D)) (\<lambda>_.
      bindI (if combined_flag args \<and> 2 \<le> length (rt_present D)
             then write_round_trips lg ?out D (rt_present D) else returnI ()) (\<lambda>_.
      bindI (printI (summary (combined_flag args) ?out D)) (\<lambda>_. returnI 0))) (w\<lparr>dirs := ds, files := f\<rparr>)"
    using mkcharts_knee_phase[OF assms(1-5)] by blast
  have "check_clashes (rt_present D) = raiseI (SystemExitMsg (clash_message (clashes (rt_rows rows))))"
    using assms(6) by (simp add: check_clashes_def clash_free D(2))
  then show ?thesis using D by (auto simp: run_def raiseI_def)
qed


lemma input_rows_missing:
  assumes "path \<in> set paths" "files w path = None"
  shows "\<exists>p \<in> set paths. files w p = None \<and> input_rows w paths = Inl (FileNotFoundError p)"
  using assms
proof (induction paths)
  case (Cons q paths)
  show ?case
  proof (cases "files w q")
    case None
    then show ?thesis by (simp add: input_rows_def)
  next
    case (Some t)
    obtain rs where "csv_reader_rows t = Inr rs" using csv_reader_total by blast
    then show ?thesis using Cons Some by (auto simp: input_rows_def csv_dict_rows_def)
  qed
qed simp

text \<open>C37: a run that cannot read its input changes no file. If one of the sweep files does not
  exist, \<open>mkcharts.py\<close> ends with status 1 before anything is written or printed; without a
  \<open>.csv\<close> argument the file is \<open>knee-sweep.csv\<close> beside the script.\<close>

theorem mkcharts_missing_input:
  assumes "path \<in> set (csv_args here args)" "files w path = None"
  shows "fst (run (mkcharts lg here args) w) = 1 \<and> files (snd (run (mkcharts lg here args) w)) = files w \<and>
    stdout (snd (run (mkcharts lg here args) w)) = stdout w"
proof (cases "files w (out_dir here args)")
  case None
  obtain p where "input_rows w (csv_args here args) = Inl (FileNotFoundError p)"
    using input_rows_missing[of path "csv_args here args" w] assms by auto
  then have i: "input_rows (w\<lparr>dirs := ds\<rparr>) (csv_args here args) = Inl (FileNotFoundError p)" for ds
    by (simp add: input_rows_def)
  show ?thesis using None by (simp add: run_def mkcharts_def Let_def bindI_def makedirsI_def read_rows_input i)
next
  case (Some t)
  then show ?thesis by (simp add: run_def mkcharts_def Let_def bindI_def makedirsI_def)
qed

text \<open>C16: the labels of \<open>knee-curves.svg\<close> can stop a run. If the data holds \<open>braft\<close> without
  250000 or \<open>openraft\<close> without 85000 requests per second, the script ends with an uncaught
  \<open>StopIteration\<close>, status 1, and no chart is written at all, not even those of the products
  that could be drawn.\<close>

theorem mkcharts_label_missing:
  assumes "log10_function lg" "files w (out_dir here args) = None"
    "input_rows w (csv_args here args) = Inr rows" "chart_rows rows" "\<not> labels_measured rows"
  shows "fst (mkcharts lg here args w) = Inl StopIteration \<and> fst (run (mkcharts lg here args) w) = 1 \<and>
    files (snd (run (mkcharts lg here args) w)) = files w \<and> stdout (snd (run (mkcharts lg here args) w)) = stdout w"
proof -
  obtain D where D: "sweep_data rows = Inr D" "chartable D"
      "\<forall>name \<in> fst ` set CFG. \<forall>r. measured_at D name r \<longleftrightarrow> rates rows (CStr name) = {} \<or> r \<in> rates rows (CStr name)"
    using chart_rows_data[OF assms(4)] by (elim exE conjE)
  have m: "measured_at D name r \<longleftrightarrow> rates rows (CStr name) = {} \<or> r \<in> rates rows (CStr name)"
    if "name \<in> {''aeron'', ''braft'', ''openraft''}" for name r
    using D(3) subsetD[OF CFG_names(3) that] by blast
  have "\<not> (measured_at D ''braft'' 250000 \<and> measured_at D ''openraft'' 85000)"
    using assms(5) by (auto simp: labels_measured_def m)
  then have c: "combined_chart lg D = Inl StopIteration"
    using combined_chart_cases[OF assms(1) chartable_combined[OF D(2)]] by auto
  have i: "input_rows (w\<lparr>dirs := ds\<rparr>) (csv_args here args) = Inr rows" for ds
    using assms(3) by (simp add: input_rows_def)
  have "mkcharts lg here args w = (Inl StopIteration, w\<lparr>dirs := (if out_dir here args \<in> set (dirs w) then dirs w else dirs w @ [out_dir here args])\<rparr>)"
    using assms(2) D(1) c by (simp add: mkcharts_def Let_def bindI_def makedirsI_def read_rows_input i liftI_def write_combined_def)
  then show ?thesis by (simp add: run_def)
qed

section \<open>Sample runs\<close>

definition sample_text :: "string list \<Rightarrow> string" where
  "sample_text names = concat (map (\<lambda>l. l @ [CHR 0x0A])
     (''product,rate,achieved,p50,p99'' # map (\<lambda>n. n @ '',100000,99990,900,1500'') names))"

definition sample_row :: "string \<Rightarrow> csv_row" where
  "sample_row n = dict_row [''product'', ''rate'', ''achieved'', ''p50'', ''p99''] [n, ''100000'', ''99990'', ''900'', ''1500'']"

definition sample_world :: "string list \<Rightarrow> world" where
  "sample_world names = \<lparr>files = [''sweep.csv'' \<mapsto> sample_text names], stdout = [], stderr = [], dirs = []\<rparr>"

definition sample_args :: "string list" where
  "sample_args = [''sweep.csv'', ''--combined'', ''charts'']"

lemma sample_args_eval: "csv_args here sample_args = [''sweep.csv'']" "out_dir here sample_args = ''charts''"
    "combined_flag sample_args"
  by (simp_all add: sample_args_def csv_args_def out_dir_def combined_flag_def is_csv_def py_eval)

lemma sample_row_eval: "row_key (sample_row n) = Inr (CStr n, 100000)"
    "num_columns (sample_row n) = [(''rate'', 100000), (''achieved'', 99990), (''p50'', 900), (''p99'', 1500)]"
    "distinct (dict_keys (sample_row n))"
  by (simp_all add: sample_row_def row_eval)

lemma sample_chart_rows: "length names \<le> 10 \<Longrightarrow> chart_rows (map sample_row names)"
  by (auto simp: chart_rows_def sweep_rows_def sample_row_eval drawable_def val_def)

lemma sample_rates: "rates (map sample_row names) (CStr n) = (if n \<in> set names then {100000} else {})"
  by (auto simp: rates_def sample_row_eval)

lemma sample_input:
  assumes "\<forall>n \<in> set names. list_all plain_char n \<and> CHR '','' \<notin> set n"
  shows "input_rows (sample_world names) [''sweep.csv''] = Inr (map sample_row names)"
proof -
  let ?ls = "''product,rate,achieved,p50,p99'' # map (\<lambda>n. n @ '',100000,99990,900,1500'') names"
  have "csv_reader_rows (sample_text names) = Inr (map (split_on (CHR '','')) ?ls)"
    unfolding sample_text_def
    by (rule csv_reader_plain) (use assms in \<open>auto simp: plain_char_def is_crnl_def\<close>)
  also have "map (split_on (CHR '','')) ?ls = [''product'', ''rate'', ''achieved'', ''p50'', ''p99''] #
      map (\<lambda>n. [n, ''100000'', ''99990'', ''900'', ''1500'']) names"
    using assms by (auto simp: split_on_append)
  finally have "csv_dict_rows (sample_text names) = Inr (map sample_row names)"
    by (simp add: csv_dict_rows_def sample_row_def filter_id_conv comp_def)
  then show ?thesis by (simp add: input_rows_def sample_world_def)
qed


lemma sample_no_out: "files (sample_world names) ''charts'' = None"
  by (simp add: sample_world_def)

theorem mkcharts_succeeds_witness:
  "\<exists>D w'. run (mkcharts log10_rounded ''sweep'' sample_args) (sample_world [''sequencer'', ''sequencer-relay'']) = (0, w') \<and>
     knee_charts_written log10_rounded ''charts'' D (files w') \<and> round_trips_written log10_rounded ''charts'' D (files w')"
proof -
  let ?rows = "map sample_row [''sequencer'', ''sequencer-relay'']"
  have i: "input_rows (sample_world [''sequencer'', ''sequencer-relay'']) (csv_args ''sweep'' sample_args) = Inr ?rows"
    unfolding sample_args_eval by (rule sample_input) (simp add: plain_char_def is_crnl_def)
  have c: "chart_rows ?rows" by (rule sample_chart_rows) simp
  have l: "labels_measured ?rows" unfolding labels_measured_def sample_rates by simp
  have rt: "rt_rows ?rows = [(''sequencer'', ''synchronous ack'', C1), (''sequencer-relay'', ''relay (gRPC)'', C2)]"
    unfolding rt_rows_def sample_rates by (simp add: RT_def)
  have d: "distinct (map (\<lambda>rt. snd (snd rt)) (rt_rows ?rows))" unfolding rt by (simp add: palette_defs)
  show ?thesis
    using mkcharts_succeeds[OF log10_rounded.log10_function_axioms _ i c l d, unfolded sample_args_eval]
      sample_no_out[of "[''sequencer'', ''sequencer-relay'']"] sample_args_eval(3) unfolding rt by auto
qed

theorem mkcharts_clash_witness:
  "\<exists>w'. run (mkcharts log10_rounded ''sweep'' sample_args) (sample_world [''sequencer-direct'', ''sequencer-output-grpc'']) = (1, w') \<and>
     files w' ''charts/round-trips.svg'' = None"
proof -
  let ?rows = "map sample_row [''sequencer-direct'', ''sequencer-output-grpc'']"
  have i: "input_rows (sample_world [''sequencer-direct'', ''sequencer-output-grpc'']) (csv_args ''sweep'' sample_args) = Inr ?rows"
    unfolding sample_args_eval by (rule sample_input) (simp add: plain_char_def is_crnl_def)
  have c: "chart_rows ?rows" by (rule sample_chart_rows) simp
  have l: "labels_measured ?rows" unfolding labels_measured_def sample_rates by simp
  have rt: "rt_rows ?rows = [(''sequencer-direct'', ''direct to node'', C4), (''sequencer-output-grpc'', ''output: gRPC'', C4)]"
    unfolding rt_rows_def sample_rates by (simp add: RT_def)
  have d: "\<not> distinct (map (\<lambda>rt. snd (snd rt)) (rt_rows ?rows))" unfolding rt by simp
  obtain w' where w: "run (mkcharts log10_rounded ''sweep'' sample_args) (sample_world [''sequencer-direct'', ''sequencer-output-grpc'']) = (1, w')"
      "\<forall>p. p \<notin> chart_files ''charts'' False \<longrightarrow> files w' p = files (sample_world [''sequencer-direct'', ''sequencer-output-grpc'']) p"
    using mkcharts_clash[OF log10_rounded.log10_function_axioms _ i c l d, unfolded sample_args_eval, OF sample_no_out] by (elim exE conjE)
  have "''charts/round-trips.svg'' \<notin> chart_files ''charts'' False"
    using round_trip_paths(1)[of "''charts''"] by (auto simp: chart_files_def)
  then show ?thesis using w by (simp add: sample_world_def)
qed

theorem mkcharts_label_missing_witness:
  "fst (mkcharts log10_rounded ''sweep'' sample_args (sample_world [''braft'', ''sequencer''])) = Inl StopIteration"
proof -
  let ?rows = "map sample_row [''braft'', ''sequencer'']"
  have i: "input_rows (sample_world [''braft'', ''sequencer'']) (csv_args ''sweep'' sample_args) = Inr ?rows"
    unfolding sample_args_eval by (rule sample_input) (simp add: plain_char_def is_crnl_def)
  have c: "chart_rows ?rows" by (rule sample_chart_rows) simp
  have l: "\<not> labels_measured ?rows" unfolding labels_measured_def sample_rates by simp
  show ?thesis
    using mkcharts_label_missing[OF log10_rounded.log10_function_axioms _ i c l] sample_no_out by (simp add: sample_args_eval)
qed

theorem mkcharts_missing_input_witness:
  "fst (run (mkcharts log10_rounded ''sweep'' []) (sample_world [])) = 1"
  using mkcharts_missing_input[of "''sweep/knee-sweep.csv''" "''sweep''" "[]" "sample_world []" log10_rounded]
  by (simp add: csv_args_def sample_world_def py_eval)

theorem round_trips_opt_in_witness:
  "files (snd (run (mkcharts log10_rounded ''sweep'' [''sweep.csv'', ''charts'']) (sample_world [''sequencer'', ''sequencer-relay'']))) ''charts/round-trips.svg'' = None"
  using round_trips_opt_in[of "[''sweep.csv'', ''charts'']" "''/round-trips.svg''" log10_rounded "''sweep''" "sample_world [''sequencer'', ''sequencer-relay'']"]
  by (simp add: combined_flag_def out_dir_def is_csv_def py_eval sample_world_def)

end
