(* ===== verification/Line_Charts.thy ===== *)
theory Line_Charts
  imports Knee_Charts Svg_Text
begin

text \<open>
  What \<open>sweep/mkcharts-fleets.py\<close> and \<open>sweep/mkcharts-multi.py\<close> have in common, line by
  line: the averaging of repeats, the grid, the curves and the legend of their \<open>chart\<close>
  functions. A series is a dictionary from rates to pairs of a latency and an achieved rate.
  Unlike \<open>mkcharts.py\<close>, these scripts average with the floor division \<open>//\<close>.
\<close>

section \<open>Series\<close>

type_synonym line_data = "(int, int \<times> int) dict"

text \<open>\<open>{k: (sum(a for a, _ in v) // len(v), sum(b for _, b in v) // len(v)) for k, v in acc.items()}\<close>.\<close>

definition floor_means :: "(int, (int \<times> int) list) dict \<Rightarrow> line_data" where
  "floor_means acc = map (\<lambda>(k, v). (k, (sum_list (map fst v) div int (length v), sum_list (map snd v) div int (length v)))) acc"

text \<open>The colours \<open>COLS\<close> of both scripts.\<close>

definition line_cols :: "string list" where
  "line_cols = [C1, C2, C3, C4]"

text \<open>The parameters of \<open>chart\<close>.\<close>

record line_cfg =
  l_title :: string
  l_sub :: "string list"
  l_xmax :: int
  l_xstep :: int
  l_yrange :: "int \<times> int"
  l_yticks :: "int list"
  l_fmt :: "int \<Rightarrow> string"
  l_band_at :: "int option"
  l_band_label :: "string option"
  l_markers :: "(int \<times> string \<times> int) list"

section \<open>The grid\<close>

text \<open>\<open>ym\<close> clamps a latency below one microsecond to one.\<close>

definition line_y_map :: "(rat \<Rightarrow> rat) \<Rightarrow> int \<Rightarrow> int \<Rightarrow> rat \<Rightarrow> rat \<Rightarrow> int \<Rightarrow> rat res" where
  "line_y_map lg T PH ylo yhi v = y_map lg T PH ylo yhi (max v 1)"

definition line_band :: "int \<Rightarrow> int \<Rightarrow> int \<Rightarrow> int \<Rightarrow> (int \<Rightarrow> rat res) \<Rightarrow> (int \<Rightarrow> string) \<Rightarrow>
    int option \<Rightarrow> string option \<Rightarrow> svg list res" where
  "line_band L T PW PH ym fmt band_at label =
     (case (if band_at = Some 0 then None else band_at) of None \<Rightarrow> Inr []
      | Some b \<Rightarrow> bindE (ym b) (\<lambda>yb. Inr
          [Elem ''rect'' [(''x'', AInt L), (''y'', AFix 1 yb), (''width'', AInt PW), (''height'', AFix 1 (fl (of_int (T + PH) - yb))),
                          (''fill'', AStr BAND)] [],
           text_elem [(''x'', AInt (L + 8)), (''y'', AFix 1 (fl (yb + 15))), (''font-size'', AStr ''11''), (''fill'', AStr MUTED)]
             (''at or below '' @ (case label of Some s \<Rightarrow> if s \<noteq> [] then s else fmt b | None \<Rightarrow> fmt b))]))"

definition line_y_tick :: "int \<Rightarrow> int \<Rightarrow> (int \<Rightarrow> rat res) \<Rightarrow> (int \<Rightarrow> string) \<Rightarrow> int \<Rightarrow> svg list res" where
  "line_y_tick L PW ym fmt v = bindE (ym v) (\<lambda>yy. Inr
     [Elem ''line'' [(''x1'', AInt L), (''y1'', AFix 1 yy), (''x2'', AInt (L + PW)), (''y2'', AFix 1 yy), (''stroke'', AStr GRID)] [],
      text_elem [(''x'', AInt (L - 10)), (''y'', AFix 1 (fl (yy + 4))), (''font-size'', AStr ''11''),
                 (''fill'', AStr MUTED), (''text-anchor'', AStr ''end'')] (fmt v)])"

definition line_x_tick :: "int \<Rightarrow> int \<Rightarrow> int \<Rightarrow> (int \<Rightarrow> rat res) \<Rightarrow> int \<Rightarrow> svg list res" where
  "line_x_tick T PH PW xm v = bindE (xm v) (\<lambda>xx. Inr
     [Elem ''line'' [(''x1'', AFix 1 xx), (''y1'', AInt (T + PH)), (''x2'', AFix 1 xx), (''y2'', AInt (T + PH + 5)), (''stroke'', AStr AXIS)] [],
      text_elem [(''x'', AFix 1 xx), (''y'', AInt (T + PH + 20)), (''font-size'', AStr ''11''),
                 (''fill'', AStr MUTED), (''text-anchor'', AStr ''middle'')] (str_of_int (v div 1000) @ ''k'')])"

definition line_axis :: "int \<Rightarrow> int \<Rightarrow> int \<Rightarrow> int \<Rightarrow> svg" where
  "line_axis L T PW PH = Elem ''line'' [(''x1'', AInt L), (''y1'', AInt (T + PH)), (''x2'', AInt (L + PW)), (''y2'', AInt (T + PH)), (''stroke'', AStr AXIS)] []"

text \<open>A dashed rule at a rate, with its label \<open>dy\<close> below the top.\<close>

definition line_rule :: "int \<Rightarrow> int \<Rightarrow> (int \<Rightarrow> rat res) \<Rightarrow> int \<times> string \<times> int \<Rightarrow> svg list res" where
  "line_rule T PH xm m = bindE (xm (fst m)) (\<lambda>kx. Inr
     [Elem ''line'' [(''x1'', AFix 1 kx), (''y1'', AInt T), (''x2'', AFix 1 kx), (''y2'', AInt (T + PH)), (''stroke'', AStr MUTED),
                     (''stroke-width'', AStr ''1''), (''stroke-dasharray'', AStr ''4 4'')] [],
      text_elem [(''x'', AFix 1 (fl (kx + 6))), (''y'', AInt (T + snd (snd m))), (''font-size'', AStr ''11''), (''font-weight'', AStr ''600''),
                 (''fill'', AStr INK2)] (fst (snd m))])"

definition line_clip :: "int \<Rightarrow> int \<Rightarrow> int \<Rightarrow> int \<Rightarrow> svg list" where
  "line_clip L T PW PH =
     [Elem ''defs'' [] [Elem ''clipPath'' [(''id'', AStr ''p'')]
        [Elem ''rect'' [(''x'', AInt (L - 6)), (''y'', AInt (T - 6)), (''width'', AInt (PW + 12)), (''height'', AInt (PH + 12))] []]],
      Open ''g'' [(''clip-path'', AStr ''url(#p)'')]]"

section \<open>Curves\<close>

text \<open>\<open>sorted(k for k in data if k <= xmax)\<close>, paired with \<open>data[k]\<close>.\<close>

definition line_points :: "line_data \<Rightarrow> int \<Rightarrow> (int \<times> int \<times> int) list" where
  "line_points data xmax = sort_key fst (filter (\<lambda>kv. fst kv \<le> xmax) data)"

definition line_place :: "(int \<Rightarrow> rat res) \<Rightarrow> (int \<Rightarrow> rat res) \<Rightarrow> int \<times> int \<times> int \<Rightarrow> (rat \<times> rat) res" where
  "line_place xm ym kv = bindE (xm (fst kv)) (\<lambda>x. bindE (ym (fst (snd kv))) (\<lambda>y. Inr (x, y)))"

definition line_path :: "(rat \<times> rat) list \<Rightarrow> string" where
  "line_path xys = join '' '' (map (\<lambda>(i, (x, y)).
     (if i = (0::nat) then ''M'' else ''L'') @ fmt_fixed 1 x @ '','' @ fmt_fixed 1 y) (zip [0..<length xys] xys))"

definition line_marker :: "string \<Rightarrow> (int \<Rightarrow> rat res) \<Rightarrow> (int \<Rightarrow> rat res) \<Rightarrow> int \<times> int \<times> int \<Rightarrow> svg list res" where
  "line_marker col xm ym kv = bindE (below_99 (snd (snd kv)) (fst kv)) (\<lambda>s. bindE (line_place xm ym kv) (\<lambda>(x, y). Inr
     [Elem ''circle'' [(''cx'', AFix 1 x), (''cy'', AFix 1 y), (''r'', AStr ''4.5''), (''fill'', AStr (if s then SURF else col)),
                       (''stroke'', AStr (if s then col else SURF)), (''stroke-width'', AStr ''2'')] []]))"

definition line_curve :: "(int \<Rightarrow> rat res) \<Rightarrow> (int \<Rightarrow> rat res) \<Rightarrow> int \<Rightarrow> (string \<times> line_data) \<times> string \<Rightarrow> svg list res" where
  "line_curve xm ym xmax sc =
     (let pts = line_points (snd (fst sc)) xmax in
      if pts = [] then Inr []
      else bindE (mapE (line_place xm ym) pts) (\<lambda>xys.
           bindE (collectE (line_marker (snd sc) xm ym) pts) (\<lambda>ms. Inr (
             Elem ''path'' [(''d'', AStr (line_path xys)), (''fill'', AStr ''none''), (''stroke'', AStr (snd sc)),
                            (''stroke-width'', AStr ''2''), (''stroke-linejoin'', AStr ''round'')] [] # ms))))"

section \<open>The legend\<close>

text \<open>\<open>28 + len(label) * 6.3\<close>.\<close>

definition line_legend_w :: "string \<Rightarrow> rat" where
  "line_legend_w label = fl (28 + fl (of_int (py_len label) * fl (63 / 10)))"

fun line_legend :: "int \<Rightarrow> int \<Rightarrow> int \<Rightarrow> pynum \<Rightarrow> (string \<times> string) list \<Rightarrow> svg list" where
  "line_legend W L ly lx [] = []"
| "line_legend W L ly lx ((label, col) # items) =
     (let w = line_legend_w label;
          (lx', ly') = (if of_int (W - 10) < plus_float lx w then (PyInt L, ly + 17) else (lx, ly))
      in legend_entry lx' ly' (label, col) @ line_legend W L ly' (PyFloat (plus_float lx' w)) items)"


section \<open>Loading a series\<close>

text \<open>
  Both scripts load a series the same way: a row gives a measurement \<open>(rate, (latency,
  achieved))\<close>, is skipped or raises, and the measurements are grouped by rate. \<open>row\<close> is
  the body of the loop, \<open>read\<close> what it makes of a row.
\<close>

locale series_loader =
  fixes row :: "(int, (int \<times> int) list) dict \<Rightarrow> 'r \<Rightarrow> (int, (int \<times> int) list) dict res"
    and read :: "'r \<Rightarrow> (int \<times> int \<times> int) option res"
  assumes row_read: "row acc r = bindE (read r) (\<lambda>m. Inr (case m of None \<Rightarrow> acc | Some (k, v) \<Rightarrow> dict_append k v acc))"
begin

lemma rows_grouped:
  "foldE row acc rs = bindE (mapE read rs) (\<lambda>ms. Inr (foldl (\<lambda>d (k, v). dict_append k v d) acc (List.map_filter id ms)))"
proof (induction rs arbitrary: acc)
  case (Cons r rs)
  show ?case
  proof (cases "read r")
    case (Inr m)
    then show ?thesis using Cons by (cases m) (auto simp: row_read[of _ r] map_filter_simps bindE_assoc)
  qed (simp add: row_read)
qed (simp add: map_filter_simps)

end

text \<open>The measurements at one rate.\<close>

definition measured :: "(int \<times> int \<times> int) option list \<Rightarrow> int \<Rightarrow> (int \<times> int) list" where
  "measured ms k = map snd (filter (\<lambda>m. fst m = k) (List.map_filter id ms))"

text \<open>What a series has to be: one point per rate measured, the means of its measurements rounded
  down.\<close>

definition floor_mean :: "int list \<Rightarrow> int" where
  "floor_mean xs = \<lfloor>(\<Sum>x\<leftarrow>xs. of_int x) / (of_nat (length xs) :: rat)\<rfloor>"

definition series_of :: "(int \<times> int \<times> int) option list \<Rightarrow> line_data \<Rightarrow> bool" where
  "series_of ms d \<longleftrightarrow> distinct (dict_keys d) \<and>
     (\<forall>k. dict_get d k = (let vs = measured ms k in
        if vs = [] then None else Some (floor_mean (map fst vs), floor_mean (map snd vs))))"

context series_loader
begin

lemma series_means:
  "bindE (foldE row [] rs) (\<lambda>acc. Inr (floor_means acc)) = Inl e \<longleftrightarrow> mapE read rs = Inl e"
  "mapE read rs = Inr ms \<Longrightarrow> \<exists>d. bindE (foldE row [] rs) (\<lambda>acc. Inr (floor_means acc)) = Inr d \<and> series_of ms d"
proof -
  show "bindE (foldE row [] rs) (\<lambda>acc. Inr (floor_means acc)) = Inl e \<longleftrightarrow> mapE read rs = Inl e"
    by (auto simp: rows_grouped py_res)
  assume ms: "mapE read rs = Inr ms"
  let ?acc = "foldl (\<lambda>d (k, v). dict_append k v d) [] (List.map_filter id ms)"
  have m: "sum_list xs div int (length xs) = floor_mean xs" for xs
  proof -
    have "of_int (sum_list xs) = (\<Sum>x\<leftarrow>xs. (of_int x :: rat))" by (induction xs) auto
    then show ?thesis using floor_divide_of_int_eq[of "sum_list xs" "int (length xs)", where ?'a = rat]
      by (simp add: floor_mean_def)
  qed
  have "dict_get (floor_means ?acc) k = map_option (\<lambda>vs. (sum_list (map fst vs) div int (length vs), sum_list (map snd vs) div int (length vs))) (dict_get ?acc k)" for k
    unfolding floor_means_def by (rule dict_get_map)
  moreover have "dict_get ?acc k = (let vs = measured ms k in if vs = [] then None else Some vs)" for k
    unfolding alist_group.group_get measured_def by simp
  ultimately have "dict_get (floor_means ?acc) k = (let vs = measured ms k in
      if vs = [] then None else Some (floor_mean (map fst vs), floor_mean (map snd vs)))" for k
    using m[of "map fst (measured ms k)"] m[of "map snd (measured ms k)"] by (simp add: Let_def)
  moreover have "dict_keys (floor_means ?acc) = dict_keys ?acc" by (auto simp: floor_means_def dict_keys_def split: prod.splits)
  ultimately have "series_of ms (floor_means ?acc)"
    using alist_group.group_distinct[of "List.map_filter id ms"] by (simp add: series_of_def)
  then show "\<exists>d. bindE (foldE row [] rs) (\<lambda>acc. Inr (floor_means acc)) = Inr d \<and> series_of ms d"
    by (simp add: rows_grouped ms)
qed

end


section \<open>What the routines draw\<close>

text \<open>A series that can be drawn: no bound from below on the latencies, which are clamped.\<close>

definition line_ok :: "line_data \<Rightarrow> bool" where
  "line_ok d \<longleftrightarrow> (\<forall>kv \<in> set d. 0 \<le> fst kv \<and> fst kv < 2 ^ 40 \<and> fst (snd kv) \<le> 10 ^ 9 \<and> \<bar>snd (snd kv)\<bar> < 2 ^ 40)"

text \<open>Parameters that fit their own axes.\<close>

definition line_cfg_ok :: "line_cfg \<Rightarrow> bool" where
  "line_cfg_ok cfg \<longleftrightarrow> 0 < l_xmax cfg \<and> l_xmax cfg < 2 ^ 40 \<and> 0 < l_xstep cfg \<and>
     1 \<le> fst (l_yrange cfg) \<and> 2 * fst (l_yrange cfg) \<le> snd (l_yrange cfg) \<and> snd (l_yrange cfg) \<le> 10 ^ 9 \<and>
     (\<forall>v \<in> set (l_yticks cfg). fst (l_yrange cfg) \<le> v \<and> v \<le> snd (l_yrange cfg) \<and> safe_text (l_fmt cfg v)) \<and>
     (case l_band_at cfg of None \<Rightarrow> True | Some b \<Rightarrow> fst (l_yrange cfg) \<le> b \<and> b \<le> snd (l_yrange cfg) \<and> safe_text (l_fmt cfg b)) \<and>
     (case l_band_label cfg of None \<Rightarrow> True | Some s \<Rightarrow> safe_text s) \<and>
     (\<forall>m \<in> set (l_markers cfg). 0 \<le> fst m \<and> fst m \<le> l_xmax cfg \<and> safe_text (fst (snd m))) \<and>
     safe_text (l_title cfg) \<and> CHR 0x22 \<notin> set (l_title cfg) \<and> list_all safe_text (l_sub cfg) \<and> length (l_sub cfg) \<le> 10"

lemma line_points_mem: "kv \<in> set (line_points d xmax) \<longleftrightarrow> kv \<in> set d \<and> fst kv \<le> xmax"
  by (simp add: line_points_def)

lemma line_path_safe: "safe_text (line_path xys)" "CHR 0x22 \<notin> set (line_path xys)"
proof -
  show "safe_text (line_path xys)" unfolding line_path_def by (rule safe_join) auto
  show "CHR 0x22 \<notin> set (line_path xys)"
    unfolding line_path_def by (rule contra_subsetD[OF join_chars]) auto
qed

lemma line_cols_safe: "col \<in> set line_cols \<Longrightarrow> safe_text col \<and> CHR 0x22 \<notin> set col"
  by (auto simp: line_cols_def)

definition line_curve_list :: "(int \<Rightarrow> rat) \<Rightarrow> (int \<Rightarrow> rat) \<Rightarrow> (int \<times> int \<times> int) list \<Rightarrow> string \<Rightarrow> svg list" where
  "line_curve_list fx fy pts col = (if pts = [] then [] else
     Elem ''path'' [(''d'', AStr (line_path (map (\<lambda>kv. (fx (fst kv), fy (max (fst (snd kv)) 1))) pts))), (''fill'', AStr ''none''),
       (''stroke'', AStr col), (''stroke-width'', AStr ''2''), (''stroke-linejoin'', AStr ''round'')] [] #
     map (\<lambda>kv. circle_at (fx (fst kv)) (fy (max (fst (snd kv)) 1)) (100 * snd (snd kv) < 99 * fst kv) col) pts)"

context knee_axes
begin

abbreviation lym :: "int \<Rightarrow> rat res" where
  "lym \<equiv> line_y_map lg T PH (lg (of_int ylo)) (lg (of_int yhi))"

text \<open>Unlike the charts of \<open>mkcharts.py\<close>, no latency is outside the logarithm's domain.\<close>

lemma lym_py: "lym v = Inr (py (max v 1))"
  by (simp only: line_y_map_def) (rule ym_py, simp)

lemma line_curve_drawn:
  assumes "line_ok d"
  shows "line_curve xm lym xmax ((label, d), col) = Inr (line_curve_list px py (line_points d xmax) col)"
proof -
  let ?pts = "line_points d xmax"
  have ok: "0 \<le> fst kv" "fst kv < 2 ^ 40" "\<bar>snd (snd kv)\<bar> < 2 ^ 40" if "kv \<in> set ?pts" for kv
    using assms that unfolding line_ok_def line_points_mem by blast+
  have pl: "line_place xm lym kv = Inr (px (fst kv), py (max (fst (snd kv)) 1))" if "kv \<in> set ?pts" for kv
    using ok[OF that] by (simp add: line_place_def lym_py) (subst xm_px, auto)
  have mk: "line_marker col xm lym kv = Inr [circle_at (px (fst kv)) (py (max (fst (snd kv)) 1)) (100 * snd (snd kv) < 99 * fst kv) col]"
    if "kv \<in> set ?pts" for kv
    using pl[OF that] below_99_exact[OF ok[OF that]] by (simp add: line_marker_def circle_at_def)
  have "mapE (line_place xm lym) ?pts = Inr (map (\<lambda>kv. (px (fst kv), py (max (fst (snd kv)) 1))) ?pts)"
    using pl by (rule mapE_total)
  moreover have "collectE (line_marker col xm lym) ?pts =
      Inr (map (\<lambda>kv. circle_at (px (fst kv)) (py (max (fst (snd kv)) 1)) (100 * snd (snd kv) < 99 * fst kv) col) ?pts)"
    using mk by (simp add: collectE_singles)
  ultimately show ?thesis by (simp add: line_curve_def line_curve_list_def Let_def)
qed

lemma line_curves_drawn:
  assumes "\<forall>s \<in> set ss. line_ok (snd s)"
  shows "collectE (line_curve xm lym xmax) (zip ss line_cols) =
    Inr (concat (map (\<lambda>((label, d), col). line_curve_list px py (line_points d xmax) col) (zip ss line_cols)))"
proof -
  have "line_curve xm lym xmax sc = Inr ((\<lambda>((label, d), col). line_curve_list px py (line_points d xmax) col) sc)"
    if "sc \<in> set (zip ss line_cols)" for sc
  proof -
    obtain label d col where sc: "sc = ((label, d), col)" by (metis prod.exhaust)
    then have "line_ok d" using that assms by (auto dest!: set_zip_leftD)
    then show ?thesis unfolding sc by (simp add: line_curve_drawn)
  qed
  then show ?thesis unfolding collectE_def by (subst mapE_total) auto
qed

end


text \<open>The frame of a chart: band, grid, ticks and rules.\<close>

lemma knee_axes_line:
  assumes "log10_function lg" "line_cfg_ok cfg" "0 \<le> PH" "PH \<le> 1000" "0 \<le> T" "T \<le> 1000"
  shows "knee_axes lg 84 812 (l_xmax cfg) T PH (fst (l_yrange cfg)) (snd (l_yrange cfg))"
  using assms by (intro knee_axes.intro knee_axes_axioms.intro) (auto simp: line_cfg_ok_def)

lemma line_band_drawn:
  assumes "knee_axes lg L PW xmax T PH ylo yhi"
  shows "\<exists>o'. line_band L T PW PH (line_y_map lg T PH (lg (of_int ylo)) (lg (of_int yhi))) fmt band_at lab = Inr o'"
  by (simp add: line_band_def knee_axes.lym_py[OF assms] split: option.splits)

lemma line_y_ticks_drawn:
  assumes "knee_axes lg L PW xmax T PH ylo yhi"
  shows "\<exists>o'. collectE (line_y_tick L PW (line_y_map lg T PH (lg (of_int ylo)) (lg (of_int yhi))) fmt) vs = Inr o'"
  by (rule collectE_ex) (simp add: line_y_tick_def knee_axes.lym_py[OF assms])

lemma line_x_ticks_drawn:
  assumes K: "knee_axes lg L PW (l_xmax cfg) T PH ylo yhi" and "line_cfg_ok cfg"
  shows "\<exists>o'. x_ticks (line_x_tick T PH PW (x_map L PW (l_xmax cfg))) (l_xmax cfg) (l_xstep cfg) 0 = Inr o'"
proof -
  have "\<exists>ys. line_x_tick T PH PW (x_map L PW (l_xmax cfg)) r = Inr ys \<and> well_nested ys" if "0 \<le> r" "r \<le> l_xmax cfg" for r
  proof -
    have "\<bar>r\<bar> < 2 ^ 40" using that assms(2) by (auto simp: line_cfg_ok_def)
    then show ?thesis by (simp only: line_x_tick_def knee_axes.xm_px[OF K] bindE_Inr) simp
  qed
  then show ?thesis using x_ticks_ex[of "l_xstep cfg" "l_xmax cfg"] assms(2) by (simp add: line_cfg_ok_def) blast
qed

lemma line_rules_drawn:
  assumes K: "knee_axes lg L PW (l_xmax cfg) T PH ylo yhi" and "line_cfg_ok cfg"
  shows "\<exists>o'. collectE (line_rule T PH (x_map L PW (l_xmax cfg))) (l_markers cfg) = Inr o'"
proof (rule collectE_ex)
  fix m assume "m \<in> set (l_markers cfg)"
  then have "\<bar>fst m\<bar> < 2 ^ 40" using assms(2) by (fastforce simp: line_cfg_ok_def)
  then show "\<exists>o'. line_rule T PH (x_map L PW (l_xmax cfg)) m = Inr o'"
    by (simp only: line_rule_def knee_axes.xm_px[OF K] bindE_Inr) simp
qed

text \<open>The parts of a chart below its head, for either script.\<close>

lemma line_parts_drawn:
  fixes lg cfg T PH
  defines "xm \<equiv> x_map 84 812 (l_xmax cfg)"
    and "ym \<equiv> line_y_map lg T PH (lg (of_int (fst (l_yrange cfg)))) (lg (of_int (snd (l_yrange cfg))))"
    and "fx \<equiv> x_pos 84 812 (l_xmax cfg)"
    and "fy \<equiv> \<lambda>v. y_pos T PH (lg (of_int (fst (l_yrange cfg)))) (lg (of_int (snd (l_yrange cfg)))) (lg (of_int v))"
  assumes "log10_function lg" "line_cfg_ok cfg" "0 \<le> PH" "PH \<le> 1000" "0 \<le> T" "T \<le> 1000" "\<forall>s \<in> set ss. line_ok (snd s)"
  shows "\<exists>band ys xs ms. line_band 84 T 812 PH ym (l_fmt cfg) (l_band_at cfg) (l_band_label cfg) = Inr band \<and>
    collectE (line_y_tick 84 812 ym (l_fmt cfg)) (l_yticks cfg) = Inr ys \<and>
    x_ticks (line_x_tick T PH 812 xm) (l_xmax cfg) (l_xstep cfg) 0 = Inr xs \<and>
    collectE (line_rule T PH xm) (l_markers cfg) = Inr ms \<and>
    collectE (line_curve xm ym (l_xmax cfg)) (zip ss line_cols) =
      Inr (concat (map (\<lambda>((label, d), col). line_curve_list fx fy (line_points d (l_xmax cfg)) col) (zip ss line_cols)))"
proof -
  note K = knee_axes_line[OF assms(5-10)]
  show ?thesis unfolding xm_def ym_def fx_def fy_def
    using line_band_drawn[OF K] line_y_ticks_drawn[OF K] line_x_ticks_drawn[OF K assms(6)] line_rules_drawn[OF K assms(6)]
      knee_axes.line_curves_drawn[OF K assms(11)] by metis
qed

lemma line_legend_nested:
  "\<forall>item \<in> set items. safe_text (fst item) \<and> safe_attr (''fill'', AStr (snd item)) \<Longrightarrow> well_nested (line_legend W L ly lx items)"
proof (induction items arbitrary: ly lx)
  case (Cons item items)
  have "safe_text (fst item) \<and> safe_attr (''fill'', AStr (snd item))" using Cons.prems by simp
  moreover have "well_nested (line_legend W L ly' lx' items)" for ly' lx' using Cons.prems by (intro Cons.IH) simp
  ultimately show ?case by (cases item) (auto simp: Let_def legend_entry_def split: prod.splits)
qed simp

lemma line_legend_safe:
  assumes "\<forall>s \<in> set ss. safe_text (fst s)"
  shows "well_nested (line_legend W L ly lx (map (\<lambda>((label, data), col). (label, col)) (zip ss line_cols)))"
proof (rule line_legend_nested, rule ballI)
  fix item assume "item \<in> set (map (\<lambda>((label, data), col). (label, col)) (zip ss line_cols))"
  then obtain label d col where i: "((label, d), col) \<in> set (zip ss line_cols)" "item = (label, col)" by auto
  then show "safe_text (fst item) \<and> safe_attr (''fill'', AStr (snd item))"
    using assms line_cols_safe[OF set_zip_rightD[OF i(1)]] set_zip_leftD[OF i(1)] by auto
qed

lemma line_clip_bracket:
  assumes "well_nested cs"
  shows "well_nested (line_clip L T PW PH @ cs @ [Close ''g''])"
  unfolding line_clip_def append_Cons append_Nil using assms
  by (intro iffD2[OF well_nested_Elem] conjI well_nested_bracket) auto


text \<open>Apart from the curves nothing draws a marker.\<close>

lemma line_parts_plain:
  "line_band L T PW PH ym fmt band_at lab = Inr band \<Longrightarrow> markers band = []"
  "collectE (line_y_tick L PW ym fmt) vs = Inr ys \<Longrightarrow> markers ys = []"
  "x_ticks (line_x_tick T PH PW xm) xmax xstep 0 = Inr xs \<Longrightarrow> markers xs = []"
  "collectE (line_rule T PH xm) rs = Inr ms \<Longrightarrow> markers ms = []"
proof -
  show "line_band L T PW PH ym fmt band_at lab = Inr band \<Longrightarrow> markers band = []"
    by (auto simp: line_band_def py_res split: option.splits if_splits)
  show "collectE (line_y_tick L PW ym fmt) vs = Inr ys \<Longrightarrow> markers ys = []"
    by (erule markers_collect) (auto simp: line_y_tick_def py_res)
  show "x_ticks (line_x_tick T PH PW xm) xmax xstep 0 = Inr xs \<Longrightarrow> markers xs = []"
    by (erule markers_ticks) (auto simp: line_x_tick_def py_res)
  show "collectE (line_rule T PH xm) rs = Inr ms \<Longrightarrow> markers ms = []"
    by (erule markers_collect) (auto simp: line_rule_def py_res)
qed

lemma line_rest_plain: "markers (line_clip L T PW PH) = []" "\<not> is_marker (line_axis L T PW PH)"
  by (simp_all add: line_clip_def line_axis_def)

lemma line_legend_plain: "markers (line_legend W L ly lx items) = []"
proof (induction items arbitrary: ly lx)
  case (Cons item items)
  then show ?case by (cases item) (auto simp: Let_def legend_entry_def split: prod.splits)
qed simp

text \<open>
  What the markers of a chart have to be: for each series in turn, at most four of them, and
  for each of its rates up to the end of the axis in increasing order, the rate, the latency
  (at least one microsecond), whether less than 99 % was achieved, and the colour of the
  series.
\<close>

definition expected_marks :: "int \<Rightarrow> (string \<times> line_data) list \<Rightarrow> (int \<times> int \<times> bool \<times> string) list" where
  "expected_marks xmax ss = concat (map (\<lambda>((label, d), col).
     map (\<lambda>(k, lat, ach). (k, max lat 1, 100 * ach < 99 * k, col)) (sort_key fst (filter (\<lambda>kv. fst kv \<le> xmax) d)))
     (zip ss [C1, C2, C3, C4]))"

lemma line_curves_marks:
  assumes K: "knee_axes lg 84 812 xmax T PH lo hi" and T: "0 \<le> T" "T \<le> 1000" "PH \<le> 1000" and ss: "\<forall>s \<in> set ss. line_ok (snd s)"
  shows "list_all2 (drawn_point (84, 812, xmax) (T, PH, lo, hi)) (expected_marks xmax ss)
    (markers (concat (map (\<lambda>((label, d), col). line_curve_list (x_pos 84 812 xmax)
      (\<lambda>v. y_pos T PH (lg (of_int lo)) (lg (of_int hi)) (lg (of_int v))) (line_points d xmax) col) (zip ss line_cols))))"
proof -
  let ?R = "drawn_point (84, 812, xmax) (T, PH, lo, hi)"
  let ?fx = "x_pos 84 812 xmax" and ?fy = "\<lambda>v. y_pos T PH (lg (of_int lo)) (lg (of_int hi)) (lg (of_int v))"
  have m: "markers (line_curve_list ?fx ?fy pts col) =
      map (\<lambda>kv. circle_at (?fx (fst kv)) (?fy (max (fst (snd kv)) 1)) (100 * snd (snd kv) < 99 * fst kv) col) pts" for pts col
    by (simp add: line_curve_list_def)
  have one: "?R (fst kv, max (fst (snd kv)) 1, 100 * snd (snd kv) < 99 * fst kv, col)
      (circle_at (?fx (fst kv)) (?fy (max (fst (snd kv)) 1)) (100 * snd (snd kv) < 99 * fst kv) col)"
    if "line_ok d" "kv \<in> set (line_points d xmax)" for d kv col
  proof -
    have "0 \<le> fst kv" "max (fst (snd kv)) 1 \<le> 10 ^ 9" using that by (auto simp: line_ok_def line_points_mem)
    then show ?thesis using T by (intro knee_axes.drawn_point_at[OF K]) auto
  qed
  have series: "list_all2 ?R (map (\<lambda>(k, lat, ach). (k, max lat 1, 100 * ach < 99 * k, col)) (line_points d xmax))
      (markers (line_curve_list ?fx ?fy (line_points d xmax) col))" if "line_ok d" for d col
    unfolding m list_all2_conv_all_nth using one[OF that nth_mem] by (simp add: case_prod_unfold)
  have "list_all2 ?R (concat (map (\<lambda>((label, d), col). map (\<lambda>(k, lat, ach). (k, max lat 1, 100 * ach < 99 * k, col)) (line_points d xmax)) zs))
      (markers (concat (map (\<lambda>((label, d), col). line_curve_list ?fx ?fy (line_points d xmax) col) zs)))"
    if "\<forall>z \<in> set zs. line_ok (snd (fst z))" for zs :: "((string \<times> line_data) \<times> string) list"
    using that by (induction zs) (auto intro!: list_all2_appendI series)
  moreover have "\<forall>z \<in> set (zip ss line_cols). line_ok (snd (fst z))" using ss by (metis prod.collapse set_zip_leftD)
  ultimately show ?thesis unfolding expected_marks_def line_points_def line_cols_def by blast
qed

section \<open>What a routine returns nests\<close>

text \<open>Nothing is asked of the data here: if a routine returns, what it returns nests. The labels
  come from the tables of the scripts, and of the input only numbers are printed.\<close>

lemma line_band_returned:
  assumes "line_band L T PW PH ym (l_fmt cfg) (l_band_at cfg) (l_band_label cfg) = Inr o'" "line_cfg_ok cfg"
  shows "well_nested o'"
  using assms by (auto simp: line_band_def line_cfg_ok_def py_res split: option.splits if_splits)

lemma line_y_tick_returned: "line_y_tick L PW ym fmt v = Inr o' \<Longrightarrow> safe_text (fmt v) \<Longrightarrow> well_nested o'"
  by (auto simp: line_y_tick_def py_res)

lemma line_x_tick_returned: "line_x_tick T PH PW xm v = Inr o' \<Longrightarrow> well_nested o'"
  by (auto simp: line_x_tick_def py_res)

lemma line_rule_returned: "line_rule T PH xm m = Inr o' \<Longrightarrow> safe_text (fst (snd m)) \<Longrightarrow> well_nested o'"
  by (auto simp: line_rule_def py_res)

lemma line_marker_returned: "line_marker col xm ym kv = Inr o' \<Longrightarrow> safe_text col \<Longrightarrow> CHR 0x22 \<notin> set col \<Longrightarrow> well_nested o'"
  by (auto simp: line_marker_def py_res)

lemma line_curve_returned:
  assumes "line_curve xm ym xmax sc = Inr o'" "safe_text (snd sc)" "CHR 0x22 \<notin> set (snd sc)"
  shows "well_nested o'"
proof (cases "line_points (snd (fst sc)) xmax = []")
  case False
  then obtain xys ms where o: "collectE (line_marker (snd sc) xm ym) (line_points (snd (fst sc)) xmax) = Inr ms"
      "o' = Elem ''path'' [(''d'', AStr (line_path xys)), (''fill'', AStr ''none''), (''stroke'', AStr (snd sc)),
                            (''stroke-width'', AStr ''2''), (''stroke-linejoin'', AStr ''round'')] [] # ms"
    using assms(1) by (auto simp: line_curve_def Let_def py_res)
  have "well_nested ms" using o(1) assms(2,3) by (blast intro: collectE_well_nested line_marker_returned)
  then show ?thesis using assms(2,3) by (simp add: o(2) line_path_safe)
qed (use assms in \<open>simp add: line_curve_def\<close>)

text \<open>The body of both charts, between the head and the end.\<close>

lemma line_body_returned:
  assumes cfg: "line_cfg_ok cfg" and ss: "\<And>s. s \<in> set ss \<Longrightarrow> safe_text (fst s)"
    and o: "line_band L T PW PH ym (l_fmt cfg) (l_band_at cfg) (l_band_label cfg) = Inr band"
      "collectE (line_y_tick L PW ym (l_fmt cfg)) (l_yticks cfg) = Inr ys"
      "x_ticks (line_x_tick T PH PW xm) (l_xmax cfg) (l_xstep cfg) 0 = Inr xs"
      "collectE (line_rule T PH xm) (l_markers cfg) = Inr ms"
      "collectE (line_curve xm ym (l_xmax cfg)) (zip ss line_cols) = Inr cs"
    and cap: "well_nested [cap]"
  shows "well_nested (band @ ys @ [line_axis L T PW PH] @ xs @ [cap] @ ms @ (line_clip L T PW PH @ cs @ [Close ''g'']) @
    line_legend W L ly lx (map (\<lambda>((label, data), col). (label, col)) (zip ss line_cols)))"
proof -
  note c = cfg[unfolded line_cfg_ok_def]
  define g where "g = line_clip L T PW PH @ cs @ [Close ''g'']"
  have "well_nested cs" using o(5)
  proof (rule collectE_well_nested)
    fix sc zs assume m: "sc \<in> set (zip ss line_cols)" "line_curve xm ym (l_xmax cfg) sc = Inr zs"
    then have "snd sc \<in> set line_cols" by (metis prod.collapse set_zip_rightD)
    then show "well_nested zs" using line_cols_safe m(2) by (blast intro: line_curve_returned)
  qed
  then have "well_nested g" unfolding g_def by (rule line_clip_bracket)
  moreover have "well_nested band" by (rule line_band_returned[OF o(1) cfg])
  moreover have "well_nested ys" using o(2) c by (blast intro: collectE_well_nested line_y_tick_returned)
  moreover have "well_nested xs" using o(3) by (blast intro: x_ticks_returned line_x_tick_returned)
  moreover have "well_nested ms" using o(4) c by (blast intro: collectE_well_nested line_rule_returned)
  moreover have "well_nested (line_legend W L ly lx (map (\<lambda>((label, data), col). (label, col)) (zip ss line_cols)))"
    using ss by (intro line_legend_safe) blast
  moreover have "well_nested [line_axis L T PW PH]" by (simp add: line_axis_def)
  ultimately show ?thesis unfolding g_def[symmetric] by (intro well_nested_append cap)
qed

section \<open>The series of a chart\<close>

text \<open>What the series of a chart have to be, for the table \<open>specs\<close> of labels, files and
  products and the meaning \<open>parse\<close> of a file: a file that does not exist is an empty series,
  and the first malformed file gives its exception.\<close>

definition file_series :: "(string \<rightharpoonup> string) \<Rightarrow> (string \<Rightarrow> line_data res) \<Rightarrow> string \<Rightarrow> line_data res" where
  "file_series f parse path = (case f path of None \<Rightarrow> Inr [] | Some t \<Rightarrow> parse t)"

definition chart_series :: "(string \<rightharpoonup> string) \<Rightarrow> (string \<Rightarrow> string \<Rightarrow> line_data res) \<Rightarrow> (string \<times> string \<times> string) list \<Rightarrow>
    (string \<times> line_data) list res" where
  "chart_series f parse specs =
     mapE (\<lambda>(label, path, product). bindE (file_series f (parse product) path) (\<lambda>d. Inr (label, d))) specs"

text \<open>The loop by which both scripts load their series gives exactly these.\<close>

lemma load_loop:
  assumes "\<And>path product. load path product w = (file_series (files w) (parse product) path, w)"
  shows "forI (\<lambda>acc (label, path, product). bindI (load path product) (\<lambda>d. returnI (acc @ [(label, d)]))) acc specs w =
    (bindE (chart_series (files w) parse specs) (\<lambda>ss. Inr (acc @ ss)), w)"
proof (induction specs arbitrary: acc)
  case Nil
  then show ?case by (simp add: chart_series_def returnI_def)
next
  case (Cons x specs)
  obtain label path product where x: "x = (label, path, product)" by (metis prod.exhaust)
  show ?case
  proof (cases "file_series (files w) (parse product) path")
    case (Inl e)
    then show ?thesis by (simp add: x bindI_def assms chart_series_def)
  next
    case (Inr d)
    then show ?thesis using Cons.IH[of "acc @ [(label, d)]"]
      by (simp add: x bindI_def returnI_def assms chart_series_def bindE_assoc)
  qed
qed

text \<open>A file that can be charted: absent, or well formed and in range.\<close>

definition series_good :: "(string \<rightharpoonup> string) \<Rightarrow> (string \<Rightarrow> line_data res) \<Rightarrow> string \<Rightarrow> bool" where
  "series_good f parse path \<longleftrightarrow> (case file_series f parse path of Inl e \<Rightarrow> False | Inr d \<Rightarrow> line_ok d)"

lemma series_good_upd: "path \<noteq> p \<Longrightarrow> series_good (f(p \<mapsto> t)) parse path = series_good f parse path"
  by (simp add: series_good_def file_series_def)

lemma chart_series_upd:
  "(\<And>label path product. (label, path, product) \<in> set specs \<Longrightarrow> path \<noteq> p) \<Longrightarrow> chart_series (f(p \<mapsto> t)) parse specs = chart_series f parse specs"
  unfolding chart_series_def by (rule mapE_cong) (auto simp: file_series_def)

lemma chart_series_good:
  assumes "\<And>label path product. (label, path, product) \<in> set specs \<Longrightarrow> safe_text label \<and> series_good f (parse product) path"
  shows "\<exists>ss. chart_series f parse specs = Inr ss \<and> (\<forall>s \<in> set ss. safe_text (fst s) \<and> line_ok (snd s))"
  using assms
proof (induction specs)
  case (Cons x specs)
  obtain label path product where x: "x = (label, path, product)" by (metis prod.exhaust)
  obtain d where "file_series f (parse product) path = Inr d" "line_ok d" "safe_text label"
    using Cons.prems[of label path product] by (auto simp: x series_good_def split: sum.splits)
  moreover obtain ss where "chart_series f parse specs = Inr ss" "\<forall>s \<in> set ss. safe_text (fst s) \<and> line_ok (snd s)"
    using Cons by (metis list.set_intros(2))
  ultimately show ?case by (simp add: x chart_series_def)
qed (simp add: chart_series_def)

lemma chart_series_labels:
  assumes "chart_series f parse specs = Inr ss"
  shows "map fst ss = map fst specs"
  using assms
proof (induction specs arbitrary: ss)
  case (Cons x specs)
  then show ?case by (cases x) (auto simp: chart_series_def py_res)
qed (simp add: chart_series_def)

lemma chart_series_safe:
  assumes "chart_series f parse specs = Inr ss" "s \<in> set ss" "\<And>label path product. (label, path, product) \<in> set specs \<Longrightarrow> safe_text label"
  shows "safe_text (fst s)"
proof -
  have "fst s \<in> set (map fst specs)" using chart_series_labels[OF assms(1)] assms(2) by (metis image_eqI list.set_map)
  then show ?thesis using assms(3) by auto
qed

text \<open>A malformed file is never passed over.\<close>

lemma chart_series_fails:
  assumes "(label, path, product) \<in> set specs" "file_series f (parse product) path = Inl e"
  shows "\<exists>e. chart_series f parse specs = Inl e"
  using assms
proof (induction specs)
  case (Cons x specs)
  obtain l q r where x: "x = (l, q, r)" by (metis prod.exhaust)
  show ?case using Cons by (cases "file_series f (parse r) q") (auto simp: x chart_series_def)
qed simp

lemma ordinary_chart_series: "(\<And>product t. ordinary (parse product t)) \<Longrightarrow> ordinary (chart_series f parse specs)"
  unfolding chart_series_def by (auto simp: file_series_def case_prod_unfold split: option.split intro!: ordinary)

text \<open>A chart in a file: the text of the document that the chart function returned.\<close>

definition chart_at :: "(string \<rightharpoonup> string) \<Rightarrow> string \<Rightarrow> svg list res \<Rightarrow> bool" where
  "chart_at f path r \<longleftrightarrow> (\<exists>o'. r = Inr o' \<and> well_formed o' \<and> f path = Some (svg_text o'))"

end
