(* ===== verification/Fleet_Charts.thy ===== *)
theory Fleet_Charts
  imports Line_Charts
begin

text \<open>
  \<open>sweep/mkcharts-fleets.py\<close>: three charts comparing one product across fleets. \<open>fleet_load\<close>
  reads one series, \<open>fleet_chart\<close> draws one chart and \<open>mkcharts_fleets\<close> is the script. A
  series file that does not exist is an empty series; the file of the paired runs has to
  exist.
\<close>

section \<open>Loading\<close>

text \<open>One row of a headerless read: short rows and rows of other products are skipped, which
  also skips the header.\<close>

definition fleet_row :: "string \<Rightarrow> (int, (int \<times> int) list) dict \<Rightarrow> string list \<Rightarrow> (int, (int \<times> int) list) dict res" where
  "fleet_row product acc row =
     (if length row < 10 \<or> row ! 0 \<noteq> product then Inr acc
      else bindE (py_int (row ! 1)) (\<lambda>rate. bindE (py_int (row ! 3)) (\<lambda>p50. bindE (py_int (row ! 2)) (\<lambda>ach.
           Inr (dict_append rate (p50, ach) acc)))))"

definition fleet_series :: "string \<Rightarrow> string \<Rightarrow> line_data res" where
  "fleet_series product t = bindE (csv_reader_rows t) (\<lambda>rows. bindE (foldE (fleet_row product) [] rows) (\<lambda>acc. Inr (floor_means acc)))"

definition fleet_load :: "string \<Rightarrow> string \<Rightarrow> line_data io" where
  "fleet_load path product = bindI (existsI path) (\<lambda>e.
     if \<not> e then returnI [] else bindI (readI path) (\<lambda>t. liftI (fleet_series product t)))"

section \<open>Drawing\<close>

definition fleet_head :: "int \<Rightarrow> int \<Rightarrow> string \<Rightarrow> string list \<Rightarrow> svg list" where
  "fleet_head W H title sub =
     [Open ''svg'' [(''xmlns'', AStr ''http://www.w3.org/2000/svg''), (''width'', AInt W), (''height'', AInt H),
        (''viewBox'', AStr (''0 0 '' @ str_of_int W @ '' '' @ str_of_int H)), (''font-family'', AQuoted FONT),
        (''role'', AStr ''img''), (''aria-label'', AStr title)],
      Elem ''rect'' [(''width'', AInt W), (''height'', AInt H), (''fill'', AStr SURF)] [],
      text_elem [(''x'', AStr ''84''), (''y'', AStr ''30''), (''font-size'', AStr ''16''), (''font-weight'', AStr ''600''), (''fill'', AStr INK)] title] @
     map (\<lambda>(i, l). text_elem [(''x'', AStr ''84''), (''y'', AInt (50 + int i * 16)), (''font-size'', AStr ''12''), (''fill'', AStr INK2)] l)
       (zip [0..<length sub] sub)"

text \<open>The markers of a fleet chart are the one \<open>marker\<close> of the source, 16 pixels below the
  top, or none.\<close>

definition fleet_chart :: "(rat \<Rightarrow> rat) \<Rightarrow> line_cfg \<Rightarrow> (string \<times> line_data) list \<Rightarrow> svg list res" where
  "fleet_chart lg cfg sers =
     (let W = 940; H = 496; L = 84; R = 44; T = 50 + int (length (l_sub cfg)) * 16 + 14; B = 104;
          PW = W - L - R; PH = H - T - B in
      bindE (py_log10 lg (of_int (fst (l_yrange cfg)))) (\<lambda>ylo.
      bindE (py_log10 lg (of_int (snd (l_yrange cfg)))) (\<lambda>yhi.
      let xm = x_map L PW (l_xmax cfg); ym = line_y_map lg T PH ylo yhi in
      bindE (line_band L T PW PH ym (l_fmt cfg) (l_band_at cfg) (l_band_label cfg)) (\<lambda>band.
      bindE (collectE (line_y_tick L PW ym (l_fmt cfg)) (l_yticks cfg)) (\<lambda>ys.
      bindE (x_ticks (line_x_tick T PH PW xm) (l_xmax cfg) (l_xstep cfg) 0) (\<lambda>xs.
      bindE (int_truediv PW 2) (\<lambda>hw.
      bindE (collectE (line_rule T PH xm) (l_markers cfg)) (\<lambda>ms.
      bindE (collectE (line_curve xm ym (l_xmax cfg)) (zip sers line_cols)) (\<lambda>cs.
      Inr (fleet_head W H (l_title cfg) (l_sub cfg) @ band @ ys @ [line_axis L T PW PH] @ xs @
           [text_elem [(''x'', AFix 0 (fl (of_int L + hw))), (''y'', AInt (T + PH + 44)), (''font-size'', AStr ''11''), (''fill'', AStr INK2),
              (''text-anchor'', AStr ''middle'')] ''offered rate (requests/sec)''] @
           ms @ line_clip L T PW PH @ cs @ [Close ''g''] @
           line_legend W L (H - 34) (PyInt L) (map (\<lambda>((label, data), col). (label, col)) (zip sers line_cols)) @
           [Close ''svg'']))))))))))"

section \<open>The paired runs\<close>

text \<open>Ack and dissemination latencies measured in the same runs; a row with an empty cell is
  skipped, a rate that occurs twice keeps its last row.\<close>

definition paired_row :: "(int, int \<times> int) dict \<Rightarrow> csv_row \<Rightarrow> (int, int \<times> int) dict res" where
  "paired_row paired row =
     bindE (row_get row ''ack_p50'') (\<lambda>a.
     bindE (if val_truthy a then bindE (row_get row ''diss_p50'') (\<lambda>d. Inr (val_truthy d)) else Inr False) (\<lambda>both.
     if \<not> both then Inr paired
     else bindE (bindE (row_get row ''ack_p50'') int_of_val) (\<lambda>ack.
          bindE (bindE (row_get row ''diss_p50'') int_of_val) (\<lambda>diss.
          bindE (bindE (row_get row ''rate'') int_of_val) (\<lambda>rate.
          Inr (dict_set rate (ack, diss) paired))))))"

definition paired_runs :: "string \<Rightarrow> (int, int \<times> int) dict res" where
  "paired_runs t = bindE (csv_dict_rows t) (\<lambda>rows. foldE paired_row [] rows)"

text \<open>\<open>ach.get(k, (0, k))[1]\<close>.\<close>

definition achieved_at :: "line_data \<Rightarrow> int \<Rightarrow> int" where
  "achieved_at ach k = (case dict_get ach k of Some v \<Rightarrow> snd v | None \<Rightarrow> k)"

definition ack_series :: "(int, int \<times> int) dict \<Rightarrow> line_data \<Rightarrow> line_data" where
  "ack_series paired ach = map (\<lambda>(k, v). (k, (fst v, achieved_at ach k))) paired"

definition diss_series :: "(int, int \<times> int) dict \<Rightarrow> line_data \<Rightarrow> line_data" where
  "diss_series paired ach = map (\<lambda>(k, v). (k, (snd v, achieved_at ach k))) paired"

section \<open>The three charts\<close>

text \<open>\<open>f"{v} us"\<close>, and the millisecond label of the third chart, with a plain u.\<close>

definition plain_us :: "int \<Rightarrow> string" where
  "plain_us v = str_of_int v @ '' us''"

definition ms_or_us :: "int \<Rightarrow> string" where
  "ms_or_us v = (if 1000 \<le> v then str_of_int (v div 1000) @ '' ms'' else str_of_int v @ '' us'')"

definition instance_types_cfg :: line_cfg where
  "instance_types_cfg = \<lparr>l_title = ''sequencer ack path across four instance types'',
     l_sub = [''p50 vs offered rate, 3-node multi-AZ, identical code and sweep throughout. Log scale.'',
       ''No instance type broke the ~1 ms floor. c7i reaches the highest rate, c6in the lowest,'',
       ''and 16 vCPU is no better than 8 - at the knee the raft leader measured 99.6% idle.'',
       ''Hollow marker = the cluster fell behind the offered rate.''],
     l_xmax = 210000, l_xstep = 50000, l_yrange = (600, 300000), l_yticks = [1000, 2000, 5000, 20000, 100000],
     l_fmt = us_label, l_band_at = Some 1000, l_band_label = None, l_markers = []\<rparr>"

definition ack_vs_dissemination_cfg :: line_cfg where
  "ack_vs_dissemination_cfg = \<lparr>l_title = ''Ack vs dissemination, measured in the same runs - they cross over near 85k'',
     l_sub = [''c7a.2xlarge (AMD Genoa, 8 vCPU), brpc output gateway. Leader-to-faster-follower RTT 535 us.'',
       ''Both p50s come from one load-generator run per rate, so this carries no observer-effect confound.'',
       ''Below ~85k the ack wins: dissemination pays a journal tail plus a hop, and the gateway is unloaded.'',
       ''Above it the ack pays the loaded gateway twice, inbound and outbound. Both collapse together at 140k.''],
     l_xmax = 145000, l_xstep = 25000, l_yrange = (560, 4000), l_yticks = [600, 800, 1000, 1500, 2000, 3000],
     l_fmt = plain_us, l_band_at = Some 1000, l_band_label = Some ''1 ms'', l_markers = [(87000, ''crossover'', 16)]\<rparr>"

definition aeron_vendor_cfg :: line_cfg where
  "aeron_vendor_cfg = \<lparr>l_title = ''Aeron regressed on AMD and recovers on Intel'',
     l_sub = [''p50 vs offered rate, same Aeron Cluster build and 3-node multi-AZ layout throughout. Log scale.'',
       ''AMD Genoa steps up at 290k and never recovers; both Intel fleets stay flat past 400k.'',
       ''Hollow marker = the cluster fell behind the offered rate.''],
     l_xmax = 720000, l_xstep = 100000, l_yrange = (420, 6000), l_yticks = [500, 700, 1000, 2000, 5000],
     l_fmt = ms_or_us, l_band_at = None, l_band_label = None, l_markers = []\<rparr>"

text \<open>The series of one chart, loaded in order: label, file, product.\<close>

definition load_series :: "(string \<times> string \<times> string) list \<Rightarrow> (string \<times> line_data) list io" where
  "load_series specs = forI (\<lambda>acc (label, path, product).
     bindI (fleet_load path product) (\<lambda>d. returnI (acc @ [(label, d)]))) [] specs"

definition write_chart :: "string \<Rightarrow> svg list res \<Rightarrow> unit io" where
  "write_chart path r = bindI (liftI r) (\<lambda>o'. writeI path (svg_text o'))"

definition mkcharts_fleets :: "(rat \<Rightarrow> rat) \<Rightarrow> string \<Rightarrow> string list \<Rightarrow> int io" where
  "mkcharts_fleets lg here args =
     (let root = dirname here; fleets = path_join (path_join root ''sequencer'') ''fleets'';
          out = (case args of a # _ \<Rightarrow> a | [] \<Rightarrow> path_join root ''sequencer'') in
      bindI (load_series
        [(''c7a.2xlarge (AMD Genoa, 8 vCPU)'', fleets @ ''/ack-c7a-2xlarge.csv'', ''sequencer''),
         (''c7a.4xlarge (AMD Genoa, 16 vCPU)'', fleets @ ''/ack-c7a-4xlarge.csv'', ''sequencer''),
         (''c6in.4xlarge (Intel Ice Lake, network-optimised)'', fleets @ ''/ack-c6in-4xlarge.csv'', ''sequencer''),
         (''c7i.4xlarge (Intel Sapphire Rapids)'', fleets @ ''/ack-c7i-4xlarge.csv'', ''sequencer'')]) (\<lambda>s1.
      bindI (write_chart (path_join out ''fleet-instance-types.svg'') (fleet_chart lg instance_types_cfg s1)) (\<lambda>_.
      bindI (readI (fleets @ ''/paired-c7a-2xlarge-brpc.csv'')) (\<lambda>t.
      bindI (liftI (paired_runs t)) (\<lambda>paired.
      bindI (fleet_load (fleets @ ''/paired-c7a-2xlarge-brpc-dissemination.csv'') ''sequencer-output-brpc'') (\<lambda>ach.
      bindI (write_chart (path_join out ''fleet-ack-vs-dissemination.svg'')
               (fleet_chart lg ack_vs_dissemination_cfg
                  [(''synchronous ack'', ack_series paired ach), (''dissemination (brpc output gateway)'', diss_series paired ach)])) (\<lambda>_.
      bindI (load_series
        [(''c6i.2xlarge (Intel Ice Lake, 8 vCPU)'', root @ ''/sweep/knee-sweep-c6i.csv'', ''aeron''),
         (''c7a.2xlarge (AMD Genoa, 8 vCPU)'', root @ ''/aeron/aeron.csv'', ''aeron''),
         (''c6in.4xlarge (Intel Ice Lake, network-optimised)'', fleets @ ''/aeron-c6in-4xlarge.csv'', ''aeron''),
         (''c7i.4xlarge (Intel Sapphire Rapids)'', fleets @ ''/aeron-c7i-4xlarge.csv'', ''aeron'')]) (\<lambda>s3.
      bindI (write_chart (path_join out ''fleet-aeron-vendor.svg'') (fleet_chart lg aeron_vendor_cfg s3)) (\<lambda>_.
      bindI (printI (''wrote fleet-instance-types.svg, fleet-ack-vs-dissemination.svg, fleet-aeron-vendor.svg to '' @ out)) (\<lambda>_.
      returnI 0))))))))))"


section \<open>The series\<close>

text \<open>What a row of a fleet's file says.\<close>

definition fleet_read :: "string \<Rightarrow> string list \<Rightarrow> (int \<times> int \<times> int) option res" where
  "fleet_read product row =
     (if length row < 10 \<or> row ! 0 \<noteq> product then Inr None
      else bindE (py_int (row ! 1)) (\<lambda>rate. bindE (py_int (row ! 3)) (\<lambda>p50. bindE (py_int (row ! 2)) (\<lambda>ach.
           Inr (Some (rate, p50, ach))))))"

interpretation fleet_loader: series_loader "fleet_row product" "fleet_read product" for product
  by unfold_locales (auto simp: fleet_row_def fleet_read_def bindE_assoc)

text \<open>C19: a fleet's series is the mean of its runs. For any file the series has one point for each
  rate measured for the product, whose latency and achieved rate are the means over all rows
  of that rate, rounded down; rows of other products and short rows, the header among them,
  do not count; and if a row of the product holds a cell that is no integer, its exception is
  the result.\<close>

theorem fleet_series_correct:
  "\<exists>rows. csv_reader_rows t = Inr rows \<and>
    (case mapE (fleet_read product) rows of Inl e \<Rightarrow> fleet_series product t = Inl e
     | Inr ms \<Rightarrow> \<exists>d. fleet_series product t = Inr d \<and> series_of ms d)"
proof -
  obtain rows where "csv_reader_rows t = Inr rows" using csv_reader_total by blast
  then show ?thesis using fleet_loader.series_means[of product rows]
    by (cases "mapE (fleet_read product) rows") (auto simp: fleet_series_def)
qed


text \<open>The two averaging rules differ. Two runs at one rate with a \<open>p50\<close> of 901 and 902
  microseconds are one point at 902 in \<open>mkcharts.py\<close> and one at 901 in the fleet and
  multi-gateway charts, whose comments promise the same averaging.\<close>

lemma averaging_rules_differ:
  "avg_column [[(''p50'', 901)], [(''p50'', 902)]] ''p50'' = Inr 902 \<and>
   floor_means [(100000, [(901, 100000), (902, 100000)])] = [(100000, (901, 100000))]"
proof
  have "rhe (fl (1803 / 2 :: rat)) = 902" by code_simp
  moreover have "int_truediv 1803 2 = Inr (fl (of_int 1803 / of_int 2))" by (rule int_truediv_small) simp_all
  ultimately show "avg_column [[(''p50'', 901)], [(''p50'', 902)]] ''p50'' = Inr 902"
    by (simp add: avg_column_def dict_index_def)
qed (simp add: floor_means_def)

section \<open>The charts are drawn\<close>

lemma fleet_head_split: "fleet_head W H title sub = svg_open W H title # tl (fleet_head W H title sub)"
  by (simp add: fleet_head_def svg_open_def)

lemma fleet_head_nested:
  assumes "safe_text title" "list_all safe_text sub"
  shows "well_nested (tl (fleet_head W H title sub))"
proof -
  have "well_nested (map (\<lambda>(i, l). text_elem (a i) l) xs)"
    if "\<And>i. safe_tag ''text'' (a i)" "\<forall>il \<in> set xs. safe_text (snd il)" for a :: "nat \<Rightarrow> attr list" and xs
    using that(2) by (induction xs) (auto simp del: safe_tag_def simp: that(1))
  moreover have "\<forall>il \<in> set (zip [0..<length sub] sub). safe_text (snd il)"
    using assms(2) by (auto simp: list_all_iff dest: set_zip_rightD)
  ultimately show ?thesis using assms(1) by (simp add: fleet_head_def)
qed

lemma fleet_document:
  assumes "well_nested o'" "safe_text title" "CHR 0x22 \<notin> set title" "list_all safe_text sub"
  shows "well_formed (fleet_head W H title sub @ o' @ [Close ''svg''])"
proof -
  have "well_nested (tl (fleet_head W H title sub) @ o')" using assms fleet_head_nested by simp
  from svg_open_safe[OF this assms(2,3), of W H] show ?thesis by (subst fleet_head_split) simp
qed

lemma fleet_chart_returned:
  assumes "fleet_chart lg cfg ss = Inr o'" "line_cfg_ok cfg" "\<And>s. s \<in> set ss \<Longrightarrow> safe_text (fst s)"
  shows "well_formed o'"
proof -
  note c = assms(2)[unfolded line_cfg_ok_def]
  from assms(1) obtain T PH ym xm band ys xs ms cs x y where
      o: "line_band 84 T 812 PH ym (l_fmt cfg) (l_band_at cfg) (l_band_label cfg) = Inr band"
      "collectE (line_y_tick 84 812 ym (l_fmt cfg)) (l_yticks cfg) = Inr ys"
      "x_ticks (line_x_tick T PH 812 xm) (l_xmax cfg) (l_xstep cfg) 0 = Inr xs"
      "collectE (line_rule T PH xm) (l_markers cfg) = Inr ms"
      "collectE (line_curve xm ym (l_xmax cfg)) (zip ss line_cols) = Inr cs"
      "o' = fleet_head 940 496 (l_title cfg) (l_sub cfg) @ band @ ys @ [line_axis 84 T 812 PH] @ xs @
           [text_elem [(''x'', AFix 0 x), (''y'', AInt y), (''font-size'', AStr ''11''), (''fill'', AStr INK2),
              (''text-anchor'', AStr ''middle'')] ''offered rate (requests/sec)''] @
           ms @ line_clip 84 T 812 PH @ cs @ [Close ''g''] @
           line_legend 940 84 462 (PyInt 84) (map (\<lambda>((label, data), col). (label, col)) (zip ss line_cols)) @ [Close ''svg'']"
    by (simp add: fleet_chart_def Let_def bindE_eq_Inr) blast
  let ?cap = "text_elem [(''x'', AFix 0 x), (''y'', AInt y), (''font-size'', AStr ''11''), (''fill'', AStr INK2),
              (''text-anchor'', AStr ''middle'')] ''offered rate (requests/sec)''"
  have "well_nested [?cap]" by simp
  from fleet_document[OF line_body_returned[OF assms(2,3) o(1-5) this], of "l_title cfg" "l_sub cfg" 940 496 940 462 "PyInt 84"] c
  show ?thesis by (simp add: o(6))
qed

lemma fleet_head_plain: "markers (fleet_head W H title sub) = []"
  by (simp add: fleet_head_def) (rule markers_map, auto)

lemma fleet_chart_drawn:
  fixes lg cfg
  defines "T \<equiv> 50 + int (length (l_sub cfg)) * 16 + 14"
  defines "PH \<equiv> 496 - T - 104"
  assumes lg: "log10_function lg" and cfg: "line_cfg_ok cfg"
    and ss: "\<forall>s \<in> set ss. safe_text (fst s) \<and> line_ok (snd s)"
  shows "\<exists>o'. fleet_chart lg cfg ss = Inr o' \<and> well_formed o' \<and>
    list_all2 (drawn_point (84, 812, l_xmax cfg) (T, PH, l_yrange cfg)) (expected_marks (l_xmax cfg) ss) (markers o')"
proof -
  note c = cfg[unfolded line_cfg_ok_def]
  let ?xm = "x_map 84 812 (l_xmax cfg)" and ?ym = "line_y_map lg T PH (lg (of_int (fst (l_yrange cfg)))) (lg (of_int (snd (l_yrange cfg))))"
  let ?cs = "concat (map (\<lambda>((label, d), col). line_curve_list (x_pos 84 812 (l_xmax cfg))
    (\<lambda>v. y_pos T PH (lg (of_int (fst (l_yrange cfg)))) (lg (of_int (snd (l_yrange cfg)))) (lg (of_int v))) (line_points d (l_xmax cfg)) col) (zip ss line_cols))"
  have TP: "0 \<le> PH" "PH \<le> 1000" "0 \<le> T" "T \<le> 1000" using c by (auto simp: T_def PH_def)
  have lo: "py_log10 lg (of_int (fst (l_yrange cfg))) = Inr (lg (of_int (fst (l_yrange cfg))))"
    and hi: "py_log10 lg (of_int (snd (l_yrange cfg))) = Inr (lg (of_int (snd (l_yrange cfg))))"
    and hw: "int_truediv 812 2 = Inr (fl (of_int 812 / of_int 2))"
    using c by (simp_all add: py_log10_def int_truediv_small)
  have ok: "\<forall>s \<in> set ss. line_ok (snd s)" using ss by blast
  then obtain band ys xs ms where b: "line_band 84 T 812 PH ?ym (l_fmt cfg) (l_band_at cfg) (l_band_label cfg) = Inr band"
      "collectE (line_y_tick 84 812 ?ym (l_fmt cfg)) (l_yticks cfg) = Inr ys"
      "x_ticks (line_x_tick T PH 812 ?xm) (l_xmax cfg) (l_xstep cfg) 0 = Inr xs"
      "collectE (line_rule T PH ?xm) (l_markers cfg) = Inr ms"
      "collectE (line_curve ?xm ?ym (l_xmax cfg)) (zip ss line_cols) = Inr ?cs"
    using line_parts_drawn[OF lg cfg TP] by metis
  have "\<exists>o'. fleet_chart lg cfg ss = Inr o' \<and> markers o' = markers ?cs"
    unfolding fleet_chart_def Let_def
    by (simp add: lo hi b hw T_def[symmetric] PH_def[symmetric] line_parts_plain(1)[OF b(1)] line_parts_plain(2)[OF b(2)] line_parts_plain(3)[OF b(3)]
        line_parts_plain(4)[OF b(4)] fleet_head_plain line_rest_plain line_legend_plain del: of_int_numeral)
  then obtain o' where o: "fleet_chart lg cfg ss = Inr o'" "markers o' = markers ?cs" by blast
  moreover have "well_formed o'" using fleet_chart_returned[OF o(1) cfg] ss by blast
  moreover have "list_all2 (drawn_point (84, 812, l_xmax cfg) (T, PH, l_yrange cfg)) (expected_marks (l_xmax cfg) ss) (markers o')"
    using line_curves_marks[OF knee_axes_line[OF lg cfg TP] TP(3,4,2) ok] unfolding o(2) by simp
  ultimately show ?thesis by blast
qed

lemma fleet_cfgs_ok: "line_cfg_ok instance_types_cfg" "line_cfg_ok ack_vs_dissemination_cfg" "line_cfg_ok aeron_vendor_cfg"
  by (simp_all add: line_cfg_ok_def instance_types_cfg_def ack_vs_dissemination_cfg_def aeron_vendor_cfg_def plain_us_def ms_or_us_def)


text \<open>C20: the fleet charts show every point of their range where it belongs, once. For each of the three charts and
  series whose labels hold no markup, whose rates are from 0 to \<open>2^40\<close> and whose latencies
  are at most \<open>10^9\<close> microseconds (they may even be zero), the chart is drawn without an
  exception and well formed. Its markers are, in order, those of \<open>expected_marks\<close>: series by
  series, the first four, which have a colour each, one for each rate up to the end of the
  axis, hollow exactly when less than 99 % of the offered rate was achieved. Each stands within a hundredth of a
  pixel of the place of its rate on the linear axis and of its latency, at least one
  microsecond, on the logarithmic axis whose upper end is at the top, and inside the plot when
  its latency is within the range of the axis.\<close>

theorem fleet_chart_correct:
  assumes "log10_function lg" "cfg \<in> {instance_types_cfg, ack_vs_dissemination_cfg, aeron_vendor_cfg}" "\<forall>s \<in> set ss. safe_text (fst s) \<and> line_ok (snd s)"
  shows "\<exists>o'. fleet_chart lg cfg ss = Inr o' \<and> well_formed o' \<and>
    (let T = 64 + 16 * int (length (l_sub cfg)) in
     list_all2 (drawn_point (84, 812, l_xmax cfg) (T, 392 - T, l_yrange cfg)) (expected_marks (l_xmax cfg) ss) (markers o'))"
proof -
  have "line_cfg_ok cfg" using assms(2) fleet_cfgs_ok by auto
  from fleet_chart_drawn[OF assms(1) this assms(3)] show ?thesis by (simp add: algebra_simps)
qed

definition sample_line :: line_data where
  "sample_line = [(100000, (900, 99990)), (50000, (0, 50000)), (150000, (70000, 120000))]"

lemma sample_line_ok: "line_ok sample_line"
  by (simp add: line_ok_def sample_line_def)

theorem fleet_chart_correct_witness:
  "\<exists>o'. fleet_chart log10_rounded instance_types_cfg [(''c7a.2xlarge'', sample_line)] = Inr o' \<and> length (markers o') = 3"
proof -
  have ok: "\<forall>s \<in> set [(''c7a.2xlarge'', sample_line)]. safe_text (fst s) \<and> line_ok (snd s)" by (simp add: sample_line_ok)
  have "length (expected_marks (l_xmax instance_types_cfg) [(''c7a.2xlarge'', sample_line)]) = 3"
    by (simp add: expected_marks_def sample_line_def instance_types_cfg_def)
  then show ?thesis using fleet_chart_correct[OF log10_rounded.log10_function_axioms _ ok, of instance_types_cfg]
    by (auto simp: Let_def dest!: list_all2_lengthD)
qed


section \<open>The script\<close>

definition fleets_root :: "string \<Rightarrow> string" where
  "fleets_root here = path_join (path_join (dirname here) ''sequencer'') ''fleets''"

definition fleets_out :: "string \<Rightarrow> string list \<Rightarrow> string" where
  "fleets_out here args = (case args of a # _ \<Rightarrow> a | [] \<Rightarrow> path_join (dirname here) ''sequencer'')"

definition fleet_charts :: "string \<Rightarrow> string list" where
  "fleet_charts out = [path_join out ''fleet-instance-types.svg'', path_join out ''fleet-ack-vs-dissemination.svg'',
     path_join out ''fleet-aeron-vendor.svg'']"

definition fleet_specs :: "string \<Rightarrow> (string \<times> string \<times> string) list" where
  "fleet_specs here =
     [(''c7a.2xlarge (AMD Genoa, 8 vCPU)'', fleets_root here @ ''/ack-c7a-2xlarge.csv'', ''sequencer''),
      (''c7a.4xlarge (AMD Genoa, 16 vCPU)'', fleets_root here @ ''/ack-c7a-4xlarge.csv'', ''sequencer''),
      (''c6in.4xlarge (Intel Ice Lake, network-optimised)'', fleets_root here @ ''/ack-c6in-4xlarge.csv'', ''sequencer''),
      (''c7i.4xlarge (Intel Sapphire Rapids)'', fleets_root here @ ''/ack-c7i-4xlarge.csv'', ''sequencer'')]"

definition aeron_specs :: "string \<Rightarrow> (string \<times> string \<times> string) list" where
  "aeron_specs here =
     [(''c6i.2xlarge (Intel Ice Lake, 8 vCPU)'', dirname here @ ''/sweep/knee-sweep-c6i.csv'', ''aeron''),
      (''c7a.2xlarge (AMD Genoa, 8 vCPU)'', dirname here @ ''/aeron/aeron.csv'', ''aeron''),
      (''c6in.4xlarge (Intel Ice Lake, network-optimised)'', fleets_root here @ ''/aeron-c6in-4xlarge.csv'', ''aeron''),
      (''c7i.4xlarge (Intel Sapphire Rapids)'', fleets_root here @ ''/aeron-c7i-4xlarge.csv'', ''aeron'')]"

lemma mkcharts_fleets_eq:
  "mkcharts_fleets lg here args =
     bindI (load_series (fleet_specs here)) (\<lambda>s1.
     bindI (write_chart (path_join (fleets_out here args) ''fleet-instance-types.svg'') (fleet_chart lg instance_types_cfg s1)) (\<lambda>_.
     bindI (readI (fleets_root here @ ''/paired-c7a-2xlarge-brpc.csv'')) (\<lambda>t.
     bindI (liftI (paired_runs t)) (\<lambda>paired.
     bindI (fleet_load (fleets_root here @ ''/paired-c7a-2xlarge-brpc-dissemination.csv'') ''sequencer-output-brpc'') (\<lambda>ach.
     bindI (write_chart (path_join (fleets_out here args) ''fleet-ack-vs-dissemination.svg'')
              (fleet_chart lg ack_vs_dissemination_cfg
                 [(''synchronous ack'', ack_series paired ach), (''dissemination (brpc output gateway)'', diss_series paired ach)])) (\<lambda>_.
     bindI (load_series (aeron_specs here)) (\<lambda>s3.
     bindI (write_chart (path_join (fleets_out here args) ''fleet-aeron-vendor.svg'') (fleet_chart lg aeron_vendor_cfg s3)) (\<lambda>_.
     bindI (printI (''wrote fleet-instance-types.svg, fleet-ack-vs-dissemination.svg, fleet-aeron-vendor.svg to '' @ fleets_out here args)) (\<lambda>_.
     returnI 0)))))))))"
  by (simp only: mkcharts_fleets_def Let_def fleet_specs_def aeron_specs_def fleets_root_def fleets_out_def)

lemma spec_paths:
  "(label, path, product) \<in> set (fleet_specs here @ aeron_specs here) \<Longrightarrow> last path = CHR ''v'' \<and> safe_text label"
  by (auto simp: fleet_specs_def aeron_specs_def)

lemma load_writes_only [frame]: "writes_only S Q (fleet_load path product)"
  unfolding fleet_load_def by (intro frame)

lemma load_series_writes_only [frame]: "writes_only S Q (load_series specs)"
  unfolding load_series_def by (auto intro!: frame)

text \<open>Loading returns what the files say and changes nothing.\<close>

lemma fleet_load_eq: "fleet_load path product w = (file_series (files w) (fleet_series product) path, w)"
  by (simp add: fleet_load_def file_series_def bindI_def io_defs split: option.split)

lemma load_series_eq: "load_series specs w = (chart_series (files w) fleet_series specs, w)"
  unfolding load_series_def by (subst load_loop[OF fleet_load_eq]) simp

lemma load_series_safe:
  assumes "load_series specs w = (Inr ss, v)" "s \<in> set ss" "set specs \<subseteq> set (fleet_specs here @ aeron_specs here)"
  shows "safe_text (fst s)"
proof (rule chart_series_safe)
  show "chart_series (files w) fleet_series specs = Inr ss" using assms(1)[unfolded load_series_eq] by auto
  show "safe_text label" if "(label, path, product) \<in> set specs" for label path product using assms(3) that spec_paths by blast
qed (rule assms(2))

lemma write_chart_writes_only:
  "path \<in> S \<Longrightarrow> (\<And>o'. r = Inr o' \<Longrightarrow> well_formed o') \<Longrightarrow> writes_only S xml_ok (write_chart path r)"
  unfolding write_chart_def by (intro frame) (auto intro: xml_ok_svg_text)

lemma mkcharts_fleets_writes_only:
  "writes_only (set (fleet_charts (fleets_out here args))) xml_ok (mkcharts_fleets lg here args)"
  unfolding mkcharts_fleets_eq
proof (intro frame write_chart_writes_only)
  fix s1 o' w v assume "load_series (fleet_specs here) w = (Inr s1, v)" "fleet_chart lg instance_types_cfg s1 = Inr o'"
  then show "well_formed o'" using load_series_safe[of "fleet_specs here" w s1 v _ here] fleet_chart_returned[OF _ fleet_cfgs_ok(1)] by (metis Un_upper1 set_append)
next
  fix o' paired ach assume "fleet_chart lg ack_vs_dissemination_cfg
    [(''synchronous ack'', ack_series paired ach), (''dissemination (brpc output gateway)'', diss_series paired ach)] = Inr o'"
  then show "well_formed o'" by (rule fleet_chart_returned[OF _ fleet_cfgs_ok(2)]) auto
next
  fix s3 o' w v assume "load_series (aeron_specs here) w = (Inr s3, v)" "fleet_chart lg aeron_vendor_cfg s3 = Inr o'"
  then show "well_formed o'" using load_series_safe[of "aeron_specs here" w s3 v _ here] fleet_chart_returned[OF _ fleet_cfgs_ok(3)] by (metis Un_upper2 set_append)
qed (simp_all add: fleet_charts_def)

text \<open>C35: what \<open>mkcharts-fleets.py\<close> may change: its three charts in the output directory and
  nothing else, whatever its input and however it ends, and a chart that changed is a
  document that the XML reader accepts.\<close>

theorem mkcharts_fleets_frame:
  "{path. files (snd (run (mkcharts_fleets lg here args) w)) path \<noteq> files w path} \<subseteq>
   {path \<in> set (fleet_charts (fleets_out here args)). \<exists>t. files (snd (run (mkcharts_fleets lg here args) w)) path = Some t \<and> xml_ok t}"
  using writes_only_run[OF mkcharts_fleets_writes_only] by blast

text \<open>A file that can be charted: absent, or every row of the product well formed and in range.\<close>

definition fleet_good :: "(string \<rightharpoonup> string) \<Rightarrow> string \<Rightarrow> string \<Rightarrow> bool" where
  "fleet_good f path product \<longleftrightarrow> (case f path of None \<Rightarrow> True
     | Some t \<Rightarrow> (case fleet_series product t of Inl e \<Rightarrow> False | Inr d \<Rightarrow> line_ok d))"

lemma fleet_good_iff: "fleet_good f path product \<longleftrightarrow> series_good f (fleet_series product) path"
  by (simp add: fleet_good_def series_good_def file_series_def line_ok_def split: option.split)

text \<open>A chart written to a path that ends like a picture leaves every table as it was.\<close>

lemma write_chart_drawn:
  assumes "r = Inr o'" "well_formed o'"
  shows "write_chart path r w = (Inr (), w\<lparr>files := (files w)(path \<mapsto> svg_text o')\<rparr>)"
  using assms by (simp add: write_chart_def bindI_def io_defs)

lemma path_join_last: "b \<noteq> [] \<Longrightarrow> last (path_join a b) = last b"
  by (simp add: path_join_def)

lemma path_join_inj: "\<not> starts_with b ''/'' \<Longrightarrow> \<not> starts_with c ''/'' \<Longrightarrow> path_join a b = path_join a c \<longleftrightarrow> b = c"
  by (simp add: path_join_def)

lemma csv_not_svg: "last p = CHR ''g'' \<Longrightarrow> last q = CHR ''v'' \<Longrightarrow> q \<noteq> p"
  by auto

lemma fleet_charts_paths: "p \<in> set (fleet_charts out) \<Longrightarrow> last p = CHR ''g''" "distinct (fleet_charts out)"
  by (auto simp: fleet_charts_def path_join_last path_join_inj starts_with_def)

lemma paired_series_ok:
  assumes "\<forall>kv \<in> set paired. 0 \<le> fst kv \<and> fst kv < 2 ^ 40 \<and> fst (snd kv) \<le> 10 ^ 9 \<and> snd (snd kv) \<le> 10 ^ 9" "line_ok ach"
  shows "line_ok (ack_series paired ach)" "line_ok (diss_series paired ach)"
proof -
  have "\<bar>achieved_at ach k\<bar> < 2 ^ 40" if "0 \<le> k" "k < 2 ^ 40" for k
  proof (cases "dict_get ach k")
    case (Some v)
    from dict_get_Some_mem[OF this] show ?thesis using assms(2) Some unfolding line_ok_def achieved_at_def by fastforce
  qed (use that in \<open>simp add: achieved_at_def\<close>)
  then show "line_ok (ack_series paired ach)" "line_ok (diss_series paired ach)"
    using assms(1) by (fastforce simp: line_ok_def ack_series_def diss_series_def)+
qed

lemma fleet_chart_wf:
  assumes "log10_function lg" "line_cfg_ok cfg" "\<forall>s \<in> set ss. safe_text (fst s) \<and> line_ok (snd s)"
  shows "\<exists>o'. fleet_chart lg cfg ss = Inr o' \<and> well_formed o'"
  using fleet_chart_drawn[OF assms] by blast

text \<open>The chart of a table whose files are good is drawn from what they say.\<close>

lemma load_series_drawn:
  assumes lg: "log10_function lg" and cfg: "line_cfg_ok cfg"
    and good: "\<And>label path product. (label, path, product) \<in> set specs \<Longrightarrow> safe_text label \<and> fleet_good (files w) path product"
  shows "\<exists>ss o'. chart_series (files w) fleet_series specs = Inr ss \<and> load_series specs w = (Inr ss, w) \<and>
    fleet_chart lg cfg ss = Inr o' \<and> well_formed o'"
proof -
  have "\<And>label path product. (label, path, product) \<in> set specs \<Longrightarrow> safe_text label \<and> series_good (files w) (fleet_series product) path"
    using good fleet_good_iff by blast
  from chart_series_good[of specs "files w" fleet_series, OF this] obtain ss where ss: "chart_series (files w) fleet_series specs = Inr ss" "\<forall>s \<in> set ss. safe_text (fst s) \<and> line_ok (snd s)"
    by blast
  moreover obtain o' where "fleet_chart lg cfg ss = Inr o'" "well_formed o'" using fleet_chart_wf[OF lg cfg ss(2)] by blast
  ultimately show ?thesis by (simp add: load_series_eq)
qed

text \<open>The three charts that the files of a run determine.\<close>

definition fleet_charts_of :: "(rat \<Rightarrow> rat) \<Rightarrow> string \<Rightarrow> (string \<rightharpoonup> string) \<Rightarrow> (int, int \<times> int) dict \<Rightarrow> line_data \<Rightarrow> svg list res list" where
  "fleet_charts_of lg here f paired ach =
     [bindE (chart_series f fleet_series (fleet_specs here)) (fleet_chart lg instance_types_cfg),
      fleet_chart lg ack_vs_dissemination_cfg
        [(''synchronous ack'', ack_series paired ach), (''dissemination (brpc output gateway)'', diss_series paired ach)],
      bindE (chart_series f fleet_series (aeron_specs here)) (fleet_chart lg aeron_vendor_cfg)]"

text \<open>C18: a run of \<open>mkcharts-fleets.py\<close> succeeds and leaves its three charts. The files of the
  series may be missing, which gives an empty series, or hold well-formed rows in range; the
  paired runs have to be there, well formed and in range. Then the exit status is 0, the last
  line says so, and each of the three files holds the complete well-formed document of its own
  chart: the instance types from the four ack files, ack against dissemination from the
  paired runs, the vendors from the four Aeron files.\<close>

theorem mkcharts_fleets_succeeds:
  assumes lg: "log10_function lg"
    and good: "\<forall>(label, path, product) \<in> set (fleet_specs here @ aeron_specs here). fleet_good (files w) path product"
      "fleet_good (files w) (fleets_root here @ ''/paired-c7a-2xlarge-brpc-dissemination.csv'') ''sequencer-output-brpc''"
    and paired: "files w (fleets_root here @ ''/paired-c7a-2xlarge-brpc.csv'') = Some t" "paired_runs t = Inr paired"
      "\<forall>kv \<in> set paired. 0 \<le> fst kv \<and> fst kv < 2 ^ 40 \<and> fst (snd kv) \<le> 10 ^ 9 \<and> snd (snd kv) \<le> 10 ^ 9"
  shows "\<exists>w' ach. run (mkcharts_fleets lg here args) w = (0, w') \<and>
    file_series (files w) (fleet_series ''sequencer-output-brpc'') (fleets_root here @ ''/paired-c7a-2xlarge-brpc-dissemination.csv'') = Inr ach \<and>
    list_all2 (chart_at (files w')) (fleet_charts (fleets_out here args)) (fleet_charts_of lg here (files w) paired ach) \<and>
    stdout w' = stdout w @ ''wrote fleet-instance-types.svg, fleet-ack-vs-dissemination.svg, fleet-aeron-vendor.svg to '' @ fleets_out here args @ [CHR 0x0A]"
proof -
  let ?out = "fleets_out here args" and ?diss = "fleets_root here @ ''/paired-c7a-2xlarge-brpc-dissemination.csv''"
  obtain p1 p2 p3 where p: "p1 = path_join ?out ''fleet-instance-types.svg''" "p2 = path_join ?out ''fleet-ack-vs-dissemination.svg''"
      "p3 = path_join ?out ''fleet-aeron-vendor.svg''" by blast
  then have ps: "fleet_charts ?out = [p1, p2, p3]" by (simp add: fleet_charts_def)
  then have pd: "distinct [p1, p2, p3]" "last p1 = CHR ''g''" "last p2 = CHR ''g''" using fleet_charts_paths(1)[of _ ?out] fleet_charts_paths(2)[of ?out] by auto
  have specs: "safe_text label \<and> fleet_good (files w) path product" if "(label, path, product) \<in> set (fleet_specs here @ aeron_specs here)" for label path product
    using spec_paths[OF that] bspec[OF good(1) that] by simp
  obtain s1 o1 where s1: "chart_series (files w) fleet_series (fleet_specs here) = Inr s1" "load_series (fleet_specs here) w = (Inr s1, w)"
      "fleet_chart lg instance_types_cfg s1 = Inr o1" "well_formed o1"
    using load_series_drawn[OF lg fleet_cfgs_ok(1), of "fleet_specs here" w] specs by (metis UnCI set_append)
  let ?w1 = "w\<lparr>files := (files w)(p1 \<mapsto> svg_text o1)\<rparr>"
  have r: "readI (fleets_root here @ ''/paired-c7a-2xlarge-brpc.csv'') ?w1 = (Inr t, ?w1)"
    using paired(1) csv_not_svg[OF pd(2)] by (simp add: readI_def)
  obtain ach where ach: "file_series (files w) (fleet_series ''sequencer-output-brpc'') ?diss = Inr ach" "line_ok ach"
    using good(2) by (auto simp: fleet_good_iff series_good_def split: sum.splits)
  then have l2: "fleet_load ?diss ''sequencer-output-brpc'' ?w1 = (Inr ach, ?w1)"
    using csv_not_svg[OF pd(2)] by (simp add: fleet_load_eq file_series_def)
  let ?s2 = "[(''synchronous ack'', ack_series paired ach), (''dissemination (brpc output gateway)'', diss_series paired ach)]"
  have "\<forall>s \<in> set ?s2. safe_text (fst s) \<and> line_ok (snd s)" using paired_series_ok[OF paired(3) ach(2)] by simp
  then obtain o2 where o2: "fleet_chart lg ack_vs_dissemination_cfg ?s2 = Inr o2" "well_formed o2"
    using fleet_chart_wf[OF lg fleet_cfgs_ok(2)] by blast
  let ?w2 = "w\<lparr>files := (files w)(p1 \<mapsto> svg_text o1, p2 \<mapsto> svg_text o2)\<rparr>"
  obtain s3 o3 where s3: "chart_series (files w) fleet_series (aeron_specs here) = Inr s3"
      "fleet_chart lg aeron_vendor_cfg s3 = Inr o3" "well_formed o3"
    using load_series_drawn[OF lg fleet_cfgs_ok(3), of "aeron_specs here" w] specs by (metis UnCI set_append)
  have "last path = CHR ''v''" if "(label, path, product) \<in> set (aeron_specs here)" for label path product
    using that spec_paths by auto
  then have "load_series (aeron_specs here) ?w2 = (Inr s3, ?w2)"
    using s3(1) csv_not_svg[OF pd(2)] csv_not_svg[OF pd(3)] by (simp add: load_series_eq chart_series_upd)
  note steps = s1(2) write_chart_drawn[OF s1(3,4), of p1 w] r l2 write_chart_drawn[OF o2, of p2 ?w1, simplified] this
    write_chart_drawn[OF s3(2,3), of p3 ?w2, simplified]
  have "mkcharts_fleets lg here args w = bindI (printI (''wrote fleet-instance-types.svg, fleet-ack-vs-dissemination.svg, fleet-aeron-vendor.svg to '' @ ?out)) (\<lambda>_.
     returnI 0) (w\<lparr>files := (files w)(p1 \<mapsto> svg_text o1, p2 \<mapsto> svg_text o2, p3 \<mapsto> svg_text o3)\<rparr>)"
    unfolding mkcharts_fleets_eq p[symmetric]
    by (subst bindI_Inr, rule steps(1), subst bindI_Inr, rule steps(2), subst bindI_Inr, rule steps(3), subst bindI_lift, simp only: paired(2) sum.case,
        subst bindI_Inr, rule steps(4), subst bindI_Inr, rule steps(5), subst bindI_Inr, rule steps(6), subst bindI_Inr, rule steps(7), rule refl)
  then show ?thesis using s1(1,3,4) o2 s3 pd(1) ach(1) unfolding ps by (simp add: run_def bindI_print returnI_def chart_at_def fleet_charts_of_def)
qed

text \<open>C36: the paired runs are not optional. If their file does not exist, the run ends with
  status 1 and prints nothing, but the first chart is written already, from the ack files;
  every other file is as before.\<close>

theorem mkcharts_fleets_missing_paired:
  assumes "log10_function lg" "\<forall>(label, path, product) \<in> set (fleet_specs here @ aeron_specs here). fleet_good (files w) path product"
    "files w (fleets_root here @ ''/paired-c7a-2xlarge-brpc.csv'') = None"
  shows "\<exists>w'. run (mkcharts_fleets lg here args) w = (1, w') \<and> stdout w' = stdout w \<and>
    chart_at (files w') (fleet_charts (fleets_out here args) ! 0)
      (bindE (chart_series (files w) fleet_series (fleet_specs here)) (fleet_chart lg instance_types_cfg)) \<and>
    (\<forall>p. p \<noteq> fleet_charts (fleets_out here args) ! 0 \<longrightarrow> files w' p = files w p)"
proof -
  let ?p = "path_join (fleets_out here args) ''fleet-instance-types.svg''"
  have specs: "safe_text label \<and> fleet_good (files w) path product" if "(label, path, product) \<in> set (fleet_specs here)" for label path product
    using spec_paths[of label path product here] bspec[OF assms(2), of "(label, path, product)"] that by simp
  obtain s1 o1 where s1: "chart_series (files w) fleet_series (fleet_specs here) = Inr s1" "load_series (fleet_specs here) w = (Inr s1, w)"
      "fleet_chart lg instance_types_cfg s1 = Inr o1" "well_formed o1"
    using load_series_drawn[OF assms(1) fleet_cfgs_ok(1) specs] by metis
  let ?w1 = "w\<lparr>files := (files w)(?p \<mapsto> svg_text o1)\<rparr>" and ?q = "fleets_root here @ ''/paired-c7a-2xlarge-brpc.csv''"
  have "?q \<noteq> ?p" by (rule csv_not_svg) (simp_all add: path_join_last)
  then have r: "readI ?q ?w1 = (Inl (FileNotFoundError ?q), ?w1)" using assms(3) by (simp add: readI_def)
  have "mkcharts_fleets lg here args w = (Inl (FileNotFoundError ?q), ?w1)"
    unfolding mkcharts_fleets_eq by (subst bindI_Inr, rule s1(2), subst bindI_Inr, rule write_chart_drawn[OF s1(3,4)], rule bindI_Inl, rule r)
  then show ?thesis using s1 by (auto simp: run_def chart_at_def fleet_charts_def)
qed

definition fleet_world :: "string option \<Rightarrow> world" where
  "fleet_world t = \<lparr>files = (\<lambda>p. if p = ''/sequencer/fleets/paired-c7a-2xlarge-brpc.csv'' then t else None), stdout = [], stderr = [], dirs = []\<rparr>"

definition paired_text :: string where
  "paired_text = concat (map (\<lambda>l. l @ [CHR 0x0A]) [''rate,ack_p50,diss_p50'', ''25000,800,900'', ''50000,,910''])"

lemma paired_text_runs: "paired_runs paired_text = Inr [(25000, (800, 900))]"
proof -
  have "csv_reader_rows paired_text = Inr [[''rate'', ''ack_p50'', ''diss_p50''], [''25000'', ''800'', ''900''], [''50000'', [], ''910'']]"
    unfolding paired_text_def by (subst csv_reader_plain) (simp_all add: plain_char_def is_crnl_def)
  then show ?thesis by (simp add: paired_runs_def csv_dict_rows_def paired_row_def row_eval)
qed

lemma fleet_world_good:
  "\<forall>(label, path, product) \<in> set (fleet_specs ''/sweep'' @ aeron_specs ''/sweep''). fleet_good (files (fleet_world t)) path product"
  "fleets_root ''/sweep'' = ''/sequencer/fleets''"
  by (simp_all add: fleet_specs_def aeron_specs_def fleets_root_def fleet_good_def fleet_world_def py_eval)

theorem mkcharts_fleets_succeeds_witness:
  "\<exists>w' ach. run (mkcharts_fleets log10_rounded ''/sweep'' [''/out'']) (fleet_world (Some paired_text)) = (0, w') \<and>
     chart_at (files w') ''/out/fleet-ack-vs-dissemination.svg''
       (fleet_charts_of log10_rounded ''/sweep'' (files (fleet_world (Some paired_text))) [(25000, (800, 900))] ach ! 1)"
proof -
  let ?w = "fleet_world (Some paired_text)"
  have "\<exists>w' ach. run (mkcharts_fleets log10_rounded ''/sweep'' [''/out'']) ?w = (0, w') \<and>
    file_series (files ?w) (fleet_series ''sequencer-output-brpc'') (fleets_root ''/sweep'' @ ''/paired-c7a-2xlarge-brpc-dissemination.csv'') = Inr ach \<and>
    list_all2 (chart_at (files w')) (fleet_charts (fleets_out ''/sweep'' [''/out'']))
      (fleet_charts_of log10_rounded ''/sweep'' (files ?w) [(25000, (800, 900))] ach) \<and>
    stdout w' = stdout ?w @ ''wrote fleet-instance-types.svg, fleet-ack-vs-dissemination.svg, fleet-aeron-vendor.svg to '' @ fleets_out ''/sweep'' [''/out''] @ [CHR 0x0A]"
    by (rule mkcharts_fleets_succeeds[OF log10_rounded.log10_function_axioms fleet_world_good(1) _ _ paired_text_runs])
      (simp_all add: fleet_world_good(2) fleet_good_def fleet_world_def)
  then obtain w' ach where "run (mkcharts_fleets log10_rounded ''/sweep'' [''/out'']) ?w = (0, w')"
    "list_all2 (chart_at (files w')) (fleet_charts (fleets_out ''/sweep'' [''/out'']))
      (fleet_charts_of log10_rounded ''/sweep'' (files ?w) [(25000, (800, 900))] ach)" by metis
  moreover from this(2) have "chart_at (files w') (fleet_charts (fleets_out ''/sweep'' [''/out'']) ! 1)
      (fleet_charts_of log10_rounded ''/sweep'' (files ?w) [(25000, (800, 900))] ach ! 1)"
    by (rule list_all2_nthD) (simp add: fleet_charts_def)
  moreover have "fleet_charts (fleets_out ''/sweep'' [''/out'']) ! 1 = ''/out/fleet-ack-vs-dissemination.svg''"
    by (simp add: fleet_charts_def fleets_out_def py_eval)
  ultimately show ?thesis by metis
qed

theorem mkcharts_fleets_missing_paired_witness:
  "\<exists>w'. run (mkcharts_fleets log10_rounded ''/sweep'' [''/out'']) (fleet_world None) = (1, w') \<and>
     files w' ''/out/fleet-instance-types.svg'' \<noteq> None \<and> files w' ''/out/fleet-aeron-vendor.svg'' = None"
proof -
  have "files (fleet_world None) (fleets_root ''/sweep'' @ ''/paired-c7a-2xlarge-brpc.csv'') = None" by (simp add: fleet_world_def)
  from mkcharts_fleets_missing_paired[OF log10_rounded.log10_function_axioms fleet_world_good(1) this, of "[''/out'']"]
  show ?thesis by (auto simp: chart_at_def fleet_charts_def fleets_out_def py_eval fleet_world_def)
qed

end
