(* ===== verification/Multi_Charts.thy ===== *)
theory Multi_Charts
  imports Fleet_Charts
begin

text \<open>
  \<open>sweep/mkcharts-multi.py\<close>: the charts of one input gateway against five. \<open>multi_load\<close>
  reads one percentile column of one product by column name and skips the rows whose cell is
  empty, \<open>multi_chart\<close> draws, \<open>mkcharts_multi\<close> is the script.
\<close>

section \<open>Loading\<close>

definition multi_row :: "string \<Rightarrow> string \<Rightarrow> (int, (int \<times> int) list) dict \<Rightarrow> csv_row \<Rightarrow> (int, (int \<times> int) list) dict res" where
  "multi_row product col acc row =
     bindE (row_get row ''product'') (\<lambda>p.
     if p \<noteq> CStr product then Inr acc
     else bindE (row_get row col) (\<lambda>v.
       if \<not> val_truthy v then Inr acc
       else bindE (bindE (row_get row ''rate'') int_of_val) (\<lambda>rate.
            bindE (int_of_val v) (\<lambda>n.
            bindE (bindE (row_get row ''achieved'') int_of_val) (\<lambda>ach.
            Inr (dict_append rate (n, ach) acc))))))"

definition multi_series :: "string \<Rightarrow> string \<Rightarrow> string \<Rightarrow> line_data res" where
  "multi_series product col t = bindE (csv_dict_rows t) (\<lambda>rows.
     bindE (foldE (multi_row product col) [] rows) (\<lambda>acc. Inr (floor_means acc)))"

definition multi_load :: "string \<Rightarrow> string \<Rightarrow> string \<Rightarrow> line_data io" where
  "multi_load path product col = bindI (existsI path) (\<lambda>e.
     if \<not> e then returnI [] else bindI (readI path) (\<lambda>t. liftI (multi_series product col t)))"

section \<open>Drawing\<close>

definition multi_head :: "int \<Rightarrow> int \<Rightarrow> string \<Rightarrow> string list \<Rightarrow> svg list" where
  "multi_head W H title sub =
     [Open ''svg'' [(''xmlns'', AStr ''http://www.w3.org/2000/svg''), (''width'', AInt W), (''height'', AInt H),
        (''viewBox'', AStr (''0 0 '' @ str_of_int W @ '' '' @ str_of_int H)), (''font-family'', AQuoted FONT),
        (''role'', AStr ''img''), (''aria-label'', AStr title)],
      Elem ''rect'' [(''width'', AInt W), (''height'', AInt H), (''fill'', AStr SURF)] [],
      text_elem [(''x'', AStr ''84''), (''y'', AStr ''30''), (''font-size'', AStr ''16''), (''font-weight'', AStr ''600''), (''fill'', AStr INK)] title] @
     map (\<lambda>(i, l). text_elem [(''x'', AStr ''84''), (''y'', AInt (50 + int i * 16)), (''font-size'', AStr ''12''), (''fill'', AStr INK2)] l)
       (zip [0..<length sub] sub)"

definition multi_chart :: "(rat \<Rightarrow> rat) \<Rightarrow> line_cfg \<Rightarrow> (string \<times> line_data) list \<Rightarrow> svg list res" where
  "multi_chart lg cfg sers =
     (let W = 940; H = 516; L = 84; R = 44; T = 50 + int (length (l_sub cfg)) * 16 + 14; B = 112;
          PW = W - L - R; PH = H - T - B in
      bindE (py_log10 lg (of_int (fst (l_yrange cfg)))) (\<lambda>ylo.
      bindE (py_log10 lg (of_int (snd (l_yrange cfg)))) (\<lambda>yhi.
      let xm = x_map L PW (l_xmax cfg); ym = line_y_map lg T PH ylo yhi in
      bindE (line_band L T PW PH ym (l_fmt cfg) (l_band_at cfg) (l_band_label cfg)) (\<lambda>band.
      bindE (collectE (line_y_tick L PW ym (l_fmt cfg)) (l_yticks cfg)) (\<lambda>ys.
      bindE (x_ticks (line_x_tick T PH PW xm) (l_xmax cfg) (l_xstep cfg) 0) (\<lambda>xs.
      bindE (int_truediv PW 2) (\<lambda>hw.
      bindE (collectE (line_rule T PH xm) (l_markers cfg)) (\<lambda>ms.
      bindE (collectE (line_curve xm ym (l_xmax cfg)) (zip sers line_cols)) (\<lambda>cs.
      Inr (multi_head W H (l_title cfg) (l_sub cfg) @ band @ ys @ [line_axis L T PW PH] @ xs @
           [text_elem [(''x'', AFix 0 (fl (of_int L + hw))), (''y'', AInt (T + PH + 42)), (''font-size'', AStr ''11''), (''fill'', AStr INK2),
              (''text-anchor'', AStr ''middle'')] ''offered rate across the whole fleet (requests/sec)''] @
           ms @ line_clip L T PW PH @ cs @ [Close ''g''] @
           line_legend W L (H - 46) (PyInt L) (map (\<lambda>((label, data), col). (label, col)) (zip sers line_cols)) @
           [Close ''svg'']))))))))))"

section \<open>The two charts\<close>

definition multi_sub :: "string list" where
  "multi_sub =
     [''One fleet, one leader (pinned to the node the clients share an AZ and placement group'',
      ''with), identical rig settings and the same 100 sender threads in total throughout.'',
      ''Percentiles come from merging every client'' @ [CHR 0x27] @ ''s raw histogram, not from averaging theirs.'',
      ''Hollow marker = the cluster fell behind the offered rate.'']"

definition multi_markers :: "(int \<times> string \<times> int) list" where
  "multi_markers = [(137000, ''1-gateway knee'', 16), (360000, ''5-gateway knee'', 32)]"

definition multi_p50_cfg :: line_cfg where
  "multi_p50_cfg = \<lparr>l_title = ''Gateway count moves the knee; node size moves the tail'', l_sub = multi_sub,
     l_xmax = 470000, l_xstep = 50000, l_yrange = (500, 60000), l_yticks = [600, 800, 1000, 2000, 5000, 20000],
     l_fmt = us_label, l_band_at = Some 1000, l_band_label = Some ''1 ms'', l_markers = multi_markers\<rparr>"

definition multi_p99_cfg :: line_cfg where
  "multi_p99_cfg = \<lparr>l_title = ''The same split, at p99'', l_sub = multi_sub,
     l_xmax = 470000, l_xstep = 50000, l_yrange = (600, 200000), l_yticks = [1000, 2000, 5000, 20000, 100000],
     l_fmt = us_label, l_band_at = None, l_band_label = None, l_markers = multi_markers\<rparr>"

definition multi_specs :: "string \<Rightarrow> (string \<times> string \<times> string) list" where
  "multi_specs seq =
     [(''1 gateway - 8-vCPU clients, 8-vCPU nodes'', seq @ ''/seq-multi-baseline.csv'', ''sequencer-multi1''),
      (''5 gateways - 8-vCPU clients, 8-vCPU nodes'', seq @ ''/seq-multi.csv'', ''sequencer-multi''),
      (''5 gateways - 4-vCPU clients, 8-vCPU nodes'', seq @ ''/seq-multi-4core.csv'', ''sequencer-multi-4c''),
      (''5 gateways - 8-vCPU clients, 16-vCPU nodes'', seq @ ''/seq-multi-bignode.csv'', ''sequencer-multi-16c'')]"

definition multi_load_series :: "string \<Rightarrow> string \<Rightarrow> (string \<times> line_data) list io" where
  "multi_load_series seq col = forI (\<lambda>acc (label, path, product).
     bindI (multi_load path product col) (\<lambda>d. returnI (acc @ [(label, d)]))) [] (multi_specs seq)"

definition mkcharts_multi :: "(rat \<Rightarrow> rat) \<Rightarrow> string \<Rightarrow> string list \<Rightarrow> int io" where
  "mkcharts_multi lg here args =
     (let seq = path_join (dirname here) ''sequencer''; out = (case args of a # _ \<Rightarrow> a | [] \<Rightarrow> seq) in
      bindI (multi_load_series seq ''p50'') (\<lambda>s1.
      bindI (write_chart (out @ ''/multi-gateway-p50.svg'') (multi_chart lg multi_p50_cfg s1)) (\<lambda>_.
      bindI (multi_load_series seq ''p99'') (\<lambda>s2.
      bindI (write_chart (out @ ''/multi-gateway-p99.svg'') (multi_chart lg multi_p99_cfg s2)) (\<lambda>_.
      bindI (printI (''wrote multi-gateway-p50.svg, multi-gateway-p99.svg to '' @ out)) (\<lambda>_.
      returnI 0))))))"


section \<open>The series\<close>

definition multi_read :: "string \<Rightarrow> string \<Rightarrow> csv_row \<Rightarrow> (int \<times> int \<times> int) option res" where
  "multi_read product col row =
     bindE (row_get row ''product'') (\<lambda>p.
     if p \<noteq> CStr product then Inr None
     else bindE (row_get row col) (\<lambda>v.
       if \<not> val_truthy v then Inr None
       else bindE (bindE (row_get row ''rate'') int_of_val) (\<lambda>rate.
            bindE (int_of_val v) (\<lambda>n.
            bindE (bindE (row_get row ''achieved'') int_of_val) (\<lambda>ach.
            Inr (Some (rate, n, ach)))))))"

interpretation multi_loader: series_loader "multi_row product col" "multi_read product col" for product col
  by unfold_locales (auto simp: multi_row_def multi_read_def bindE_assoc intro!: bindE_cong)

text \<open>C22: a multi-gateway series is the mean of the runs that have the percentile. The rows of the
  product whose cell in the column is empty do not count, so a run without a merged
  percentile never pulls a mean to zero; everything else is as in the fleet charts: one point
  per rate, means rounded down, the exception of a malformed row as result.\<close>

theorem multi_series_correct:
  "\<exists>rows. csv_dict_rows t = Inr rows \<and>
    (case mapE (multi_read product col) rows of Inl e \<Rightarrow> multi_series product col t = Inl e
     | Inr ms \<Rightarrow> \<exists>d. multi_series product col t = Inr d \<and> series_of ms d)"
proof -
  obtain rows where "csv_dict_rows t = Inr rows" using csv_reader_total[of t] by (auto simp: csv_dict_rows_def)
  then show ?thesis using multi_loader.series_means[of product col rows]
    by (cases "mapE (multi_read product col) rows") (auto simp: multi_series_def)
qed


section \<open>The charts are drawn\<close>

lemma multi_head_split: "multi_head W H title sub = svg_open W H title # tl (multi_head W H title sub)"
  by (simp add: multi_head_def svg_open_def)

lemma multi_head_nested:
  assumes "safe_text title" "list_all safe_text sub"
  shows "well_nested (tl (multi_head W H title sub))"
proof -
  have "well_nested (map (\<lambda>(i, l). text_elem (a i) l) xs)"
    if "\<And>i. safe_tag ''text'' (a i)" "\<forall>il \<in> set xs. safe_text (snd il)" for a :: "nat \<Rightarrow> attr list" and xs
    using that(2) by (induction xs) (auto simp del: safe_tag_def simp: that(1))
  moreover have "\<forall>il \<in> set (zip [0..<length sub] sub). safe_text (snd il)"
    using assms(2) by (auto simp: list_all_iff dest: set_zip_rightD)
  ultimately show ?thesis using assms(1) by (simp add: multi_head_def)
qed

lemma multi_document:
  assumes "well_nested o'" "safe_text title" "CHR 0x22 \<notin> set title" "list_all safe_text sub"
  shows "well_formed (multi_head W H title sub @ o' @ [Close ''svg''])"
proof -
  have "well_nested (tl (multi_head W H title sub) @ o')" using assms multi_head_nested by simp
  from svg_open_safe[OF this assms(2,3), of W H] show ?thesis by (subst multi_head_split) simp
qed

lemma multi_chart_returned:
  assumes "multi_chart lg cfg ss = Inr o'" "line_cfg_ok cfg" "\<And>s. s \<in> set ss \<Longrightarrow> safe_text (fst s)"
  shows "well_formed o'"
proof -
  note c = assms(2)[unfolded line_cfg_ok_def]
  from assms(1) obtain T PH ym xm band ys xs ms cs x y where
      o: "line_band 84 T 812 PH ym (l_fmt cfg) (l_band_at cfg) (l_band_label cfg) = Inr band"
      "collectE (line_y_tick 84 812 ym (l_fmt cfg)) (l_yticks cfg) = Inr ys"
      "x_ticks (line_x_tick T PH 812 xm) (l_xmax cfg) (l_xstep cfg) 0 = Inr xs"
      "collectE (line_rule T PH xm) (l_markers cfg) = Inr ms"
      "collectE (line_curve xm ym (l_xmax cfg)) (zip ss line_cols) = Inr cs"
      "o' = multi_head 940 516 (l_title cfg) (l_sub cfg) @ band @ ys @ [line_axis 84 T 812 PH] @ xs @
           [text_elem [(''x'', AFix 0 x), (''y'', AInt y), (''font-size'', AStr ''11''), (''fill'', AStr INK2),
              (''text-anchor'', AStr ''middle'')] ''offered rate across the whole fleet (requests/sec)''] @
           ms @ line_clip 84 T 812 PH @ cs @ [Close ''g''] @
           line_legend 940 84 470 (PyInt 84) (map (\<lambda>((label, data), col). (label, col)) (zip ss line_cols)) @ [Close ''svg'']"
    by (simp add: multi_chart_def Let_def bindE_eq_Inr) blast
  let ?cap = "text_elem [(''x'', AFix 0 x), (''y'', AInt y), (''font-size'', AStr ''11''), (''fill'', AStr INK2),
              (''text-anchor'', AStr ''middle'')] ''offered rate across the whole fleet (requests/sec)''"
  have "well_nested [?cap]" by simp
  from multi_document[OF line_body_returned[OF assms(2,3) o(1-5) this], of "l_title cfg" "l_sub cfg" 940 516 940 470 "PyInt 84"] c
  show ?thesis by (simp add: o(6))
qed

lemma multi_head_plain: "markers (multi_head W H title sub) = []"
  by (simp add: multi_head_def) (rule markers_map, auto)

lemma multi_chart_drawn:
  fixes lg cfg
  defines "T \<equiv> 50 + int (length (l_sub cfg)) * 16 + 14"
  defines "PH \<equiv> 516 - T - 112"
  assumes lg: "log10_function lg" and cfg: "line_cfg_ok cfg"
    and ss: "\<forall>s \<in> set ss. safe_text (fst s) \<and> line_ok (snd s)"
  shows "\<exists>o'. multi_chart lg cfg ss = Inr o' \<and> well_formed o' \<and>
    list_all2 (drawn_point (84, 812, l_xmax cfg) (T, PH, l_yrange cfg)) (expected_marks (l_xmax cfg) ss) (markers o')"
proof -
  note c = cfg[unfolded line_cfg_ok_def]
  let ?xm = "x_map 84 812 (l_xmax cfg)" and ?ym = "line_y_map lg T PH (lg (of_int (fst (l_yrange cfg)))) (lg (of_int (snd (l_yrange cfg))))"
  let ?cs = "concat (map (\<lambda>((label, d), col). line_curve_list (x_pos 84 812 (l_xmax cfg))
    (\<lambda>v. y_pos T PH (lg (of_int (fst (l_yrange cfg)))) (lg (of_int (snd (l_yrange cfg)))) (lg (of_int v))) (line_points d (l_xmax cfg)) col) (zip ss line_cols))"
  have TP: "0 \<le> PH" "PH \<le> 1000" "0 \<le> T" "T \<le> 1000" using c by (auto simp: T_def PH_def)
  have lo: "py_log10 lg (of_int (fst (l_yrange cfg))) = Inr (lg (of_int (fst (l_yrange cfg))))"
    and hi: "py_log10 lg (of_int (snd (l_yrange cfg))) = Inr (lg (of_int (snd (l_yrange cfg))))"
    and hw: "int_truediv 812 2 = Inr (fl (of_int 812 / of_int 2))"
    using c by (simp_all add: py_log10_def int_truediv_small)
  have ok: "\<forall>s \<in> set ss. line_ok (snd s)" using ss by blast
  then obtain band ys xs ms where b: "line_band 84 T 812 PH ?ym (l_fmt cfg) (l_band_at cfg) (l_band_label cfg) = Inr band"
      "collectE (line_y_tick 84 812 ?ym (l_fmt cfg)) (l_yticks cfg) = Inr ys"
      "x_ticks (line_x_tick T PH 812 ?xm) (l_xmax cfg) (l_xstep cfg) 0 = Inr xs"
      "collectE (line_rule T PH ?xm) (l_markers cfg) = Inr ms"
      "collectE (line_curve ?xm ?ym (l_xmax cfg)) (zip ss line_cols) = Inr ?cs"
    using line_parts_drawn[OF lg cfg TP] by metis
  have "\<exists>o'. multi_chart lg cfg ss = Inr o' \<and> markers o' = markers ?cs"
    unfolding multi_chart_def Let_def
    by (simp add: lo hi b hw T_def[symmetric] PH_def[symmetric] line_parts_plain(1)[OF b(1)] line_parts_plain(2)[OF b(2)] line_parts_plain(3)[OF b(3)]
        line_parts_plain(4)[OF b(4)] multi_head_plain line_rest_plain line_legend_plain del: of_int_numeral)
  then obtain o' where o: "multi_chart lg cfg ss = Inr o'" "markers o' = markers ?cs" by blast
  moreover have "well_formed o'" using multi_chart_returned[OF o(1) cfg] ss by blast
  moreover have "list_all2 (drawn_point (84, 812, l_xmax cfg) (T, PH, l_yrange cfg)) (expected_marks (l_xmax cfg) ss) (markers o')"
    using line_curves_marks[OF knee_axes_line[OF lg cfg TP] TP(3,4,2) ok] unfolding o(2) by simp
  ultimately show ?thesis by blast
qed

lemma multi_cfgs_ok: "line_cfg_ok multi_p50_cfg" "line_cfg_ok multi_p99_cfg"
  by (simp_all add: line_cfg_ok_def multi_p50_cfg_def multi_p99_cfg_def multi_sub_def multi_markers_def)


text \<open>C23: the multi-gateway charts show every point of their range where it belongs, once. For both charts and
  series whose labels hold no markup, whose rates are from 0 to \<open>2^40\<close> and whose latencies
  are at most \<open>10^9\<close> microseconds (they may even be zero), the chart is drawn without an
  exception and well formed. Its markers are, in order, those of \<open>expected_marks\<close>: series by
  series, the first four, which have a colour each, one for each rate up to the end of the
  axis, hollow exactly when less than 99 % of the offered rate was achieved. Each stands within a hundredth of a
  pixel of the place of its rate on the linear axis and of its latency, at least one
  microsecond, on the logarithmic axis whose upper end is at the top, and inside the plot when
  its latency is within the range of the axis.\<close>

theorem multi_chart_correct:
  assumes "log10_function lg" "cfg \<in> {multi_p50_cfg, multi_p99_cfg}" "\<forall>s \<in> set ss. safe_text (fst s) \<and> line_ok (snd s)"
  shows "\<exists>o'. multi_chart lg cfg ss = Inr o' \<and> well_formed o' \<and>
    (let T = 64 + 16 * int (length (l_sub cfg)) in
     list_all2 (drawn_point (84, 812, l_xmax cfg) (T, 404 - T, l_yrange cfg)) (expected_marks (l_xmax cfg) ss) (markers o'))"
proof -
  have "line_cfg_ok cfg" using assms(2) multi_cfgs_ok by auto
  from multi_chart_drawn[OF assms(1) this assms(3)] show ?thesis by (simp add: algebra_simps)
qed

theorem multi_chart_correct_witness:
  "\<exists>o'. multi_chart log10_rounded multi_p50_cfg [(''1 gateway'', sample_line)] = Inr o' \<and> length (markers o') = 3"
proof -
  have ok: "\<forall>s \<in> set [(''1 gateway'', sample_line)]. safe_text (fst s) \<and> line_ok (snd s)" by (simp add: sample_line_ok)
  have "length (expected_marks (l_xmax multi_p50_cfg) [(''1 gateway'', sample_line)]) = 3"
    by (simp add: expected_marks_def sample_line_def multi_p50_cfg_def)
  then show ?thesis using multi_chart_correct[OF log10_rounded.log10_function_axioms _ ok, of multi_p50_cfg]
    by (auto simp: Let_def dest!: list_all2_lengthD)
qed


section \<open>The script\<close>

definition multi_out :: "string \<Rightarrow> string list \<Rightarrow> string" where
  "multi_out here args = (case args of a # _ \<Rightarrow> a | [] \<Rightarrow> path_join (dirname here) ''sequencer'')"

definition multi_charts :: "string \<Rightarrow> string list" where
  "multi_charts out = [out @ ''/multi-gateway-p50.svg'', out @ ''/multi-gateway-p99.svg'']"

lemma mkcharts_multi_eq:
  "mkcharts_multi lg here args =
     bindI (multi_load_series (path_join (dirname here) ''sequencer'') ''p50'') (\<lambda>s1.
     bindI (write_chart (multi_out here args @ ''/multi-gateway-p50.svg'') (multi_chart lg multi_p50_cfg s1)) (\<lambda>_.
     bindI (multi_load_series (path_join (dirname here) ''sequencer'') ''p99'') (\<lambda>s2.
     bindI (write_chart (multi_out here args @ ''/multi-gateway-p99.svg'') (multi_chart lg multi_p99_cfg s2)) (\<lambda>_.
     bindI (printI (''wrote multi-gateway-p50.svg, multi-gateway-p99.svg to '' @ multi_out here args)) (\<lambda>_.
     returnI 0)))))"
  by (simp only: mkcharts_multi_def Let_def multi_out_def)

lemma multi_specs_paths: "(label, path, product) \<in> set (multi_specs seq) \<Longrightarrow> last path = CHR ''v'' \<and> safe_text label"
  by (auto simp: multi_specs_def)

lemma multi_load_series_writes_only [frame]: "writes_only S Q (multi_load_series seq col)"
  unfolding multi_load_series_def multi_load_def by (auto intro!: frame)

text \<open>Loading returns what the files say and changes nothing.\<close>

definition multi_series_of :: "(string \<rightharpoonup> string) \<Rightarrow> string \<Rightarrow> string \<Rightarrow> (string \<times> line_data) list res" where
  "multi_series_of f here col = chart_series f (\<lambda>product. multi_series product col) (multi_specs (path_join (dirname here) ''sequencer''))"

lemma multi_load_eq: "multi_load path product col w = (file_series (files w) (multi_series product col) path, w)"
  by (simp add: multi_load_def file_series_def bindI_def io_defs split: option.split)

lemma multi_load_series_eq: "multi_load_series (path_join (dirname here) ''sequencer'') col w = (multi_series_of (files w) here col, w)"
  unfolding multi_load_series_def multi_series_of_def
  by (subst load_loop[where parse = "\<lambda>product. multi_series product col"]) (simp_all add: multi_load_eq)

lemma multi_chart_loaded:
  assumes "multi_load_series (path_join (dirname here) ''sequencer'') col w = (Inr ss, v)" "multi_chart lg cfg ss = Inr o'" "line_cfg_ok cfg"
  shows "well_formed o'"
  using assms(2,3)
proof (rule multi_chart_returned)
  have "chart_series (files w) (\<lambda>product. multi_series product col) (multi_specs (path_join (dirname here) ''sequencer'')) = Inr ss"
    using assms(1)[unfolded multi_load_series_eq] unfolding multi_series_of_def by auto
  from chart_series_safe[OF this] show "safe_text (fst s)" if "s \<in> set ss" for s
    using that multi_specs_paths by blast
qed

lemma mkcharts_multi_writes_only:
  "writes_only (set (multi_charts (multi_out here args))) xml_ok (mkcharts_multi lg here args)"
  unfolding mkcharts_multi_eq
proof (intro frame write_chart_writes_only)
  fix ss o' w v assume "multi_load_series (path_join (dirname here) ''sequencer'') ''p50'' w = (Inr ss, v)" "multi_chart lg multi_p50_cfg ss = Inr o'"
  then show "well_formed o'" using multi_cfgs_ok(1) by (rule multi_chart_loaded)
next
  fix ss o' w v assume "multi_load_series (path_join (dirname here) ''sequencer'') ''p99'' w = (Inr ss, v)" "multi_chart lg multi_p99_cfg ss = Inr o'"
  then show "well_formed o'" using multi_cfgs_ok(2) by (rule multi_chart_loaded)
qed (simp_all add: multi_charts_def)

text \<open>C40: what \<open>mkcharts-multi.py\<close> may change: its two charts in the output directory and nothing
  else, whatever its input and however it ends, and a chart that changed is a document that
  the XML reader accepts.\<close>

theorem mkcharts_multi_frame:
  "{path. files (snd (run (mkcharts_multi lg here args) w)) path \<noteq> files w path} \<subseteq>
   {path \<in> set (multi_charts (multi_out here args)). \<exists>t. files (snd (run (mkcharts_multi lg here args) w)) path = Some t \<and> xml_ok t}"
  using writes_only_run[OF mkcharts_multi_writes_only] by blast

text \<open>A file that can be charted: absent, or with both columns well formed and in range.\<close>

definition multi_good :: "(string \<rightharpoonup> string) \<Rightarrow> string \<Rightarrow> string \<Rightarrow> string \<Rightarrow> bool" where
  "multi_good f path product col \<longleftrightarrow> (case f path of None \<Rightarrow> True
     | Some t \<Rightarrow> (case multi_series product col t of Inl e \<Rightarrow> False | Inr d \<Rightarrow> line_ok d))"

lemma multi_good_iff: "multi_good f path product col \<longleftrightarrow> series_good f (multi_series product col) path"
  by (simp add: multi_good_def series_good_def file_series_def line_ok_def split: option.split)

lemma multi_series_of_good:
  assumes "\<forall>(label, path, product) \<in> set (multi_specs (path_join (dirname here) ''sequencer'')). multi_good f path product col"
  shows "\<exists>ss. multi_series_of f here col = Inr ss \<and> (\<forall>s \<in> set ss. safe_text (fst s) \<and> line_ok (snd s))"
  unfolding multi_series_of_def
proof (rule chart_series_good)
  fix label path product assume m: "(label, path, product) \<in> set (multi_specs (path_join (dirname here) ''sequencer''))"
  then show "safe_text label \<and> series_good f (multi_series product col) path"
    using multi_specs_paths[OF m] bspec[OF assms m] by (simp add: multi_good_iff)
qed

lemma multi_series_of_upd: "last p = CHR ''g'' \<Longrightarrow> multi_series_of (f(p \<mapsto> t)) here col = multi_series_of f here col"
  unfolding multi_series_of_def by (rule chart_series_upd) (metis csv_not_svg multi_specs_paths)

text \<open>C21: a run of \<open>mkcharts-multi.py\<close> succeeds and leaves both charts, drawn from the files.
  Any of the four series files may be missing, which gives an empty series; the hypothesis is
  that those that exist hold well-formed rows in range in both columns. Then the exit status
  is 0, the last line says so, and the p50 file holds the complete well-formed document of the
  p50 chart of the p50 columns, the p99 file that of the p99 chart of the p99 columns.\<close>

theorem mkcharts_multi_succeeds:
  assumes lg: "log10_function lg"
    and good: "\<forall>(label, path, product) \<in> set (multi_specs (path_join (dirname here) ''sequencer'')).
      \<forall>col \<in> {''p50'', ''p99''}. multi_good (files w) path product col"
  shows "\<exists>w'. run (mkcharts_multi lg here args) w = (0, w') \<and>
    chart_at (files w') (multi_out here args @ ''/multi-gateway-p50.svg'')
      (bindE (multi_series_of (files w) here ''p50'') (multi_chart lg multi_p50_cfg)) \<and>
    chart_at (files w') (multi_out here args @ ''/multi-gateway-p99.svg'')
      (bindE (multi_series_of (files w) here ''p99'') (multi_chart lg multi_p99_cfg)) \<and>
    stdout w' = stdout w @ ''wrote multi-gateway-p50.svg, multi-gateway-p99.svg to '' @ multi_out here args @ [CHR 0x0A]"
proof -
  let ?out = "multi_out here args"
  obtain p1 p2 where p: "p1 = ?out @ ''/multi-gateway-p50.svg''" "p2 = ?out @ ''/multi-gateway-p99.svg''" by blast
  then have pd: "p1 \<noteq> p2" "last p1 = CHR ''g''" by simp_all
  have g: "\<exists>ss. multi_series_of (files w) here col = Inr ss \<and> (\<forall>s \<in> set ss. safe_text (fst s) \<and> line_ok (snd s))"
    if "col \<in> {''p50'', ''p99''}" for col
    using good that by (intro multi_series_of_good) auto
  obtain s1 where s1: "multi_series_of (files w) here ''p50'' = Inr s1" "\<forall>s \<in> set s1. safe_text (fst s) \<and> line_ok (snd s)"
    using g[of "''p50''"] by blast
  obtain o1 where o1: "multi_chart lg multi_p50_cfg s1 = Inr o1" "well_formed o1"
    using multi_chart_drawn[OF lg multi_cfgs_ok(1) s1(2)] by blast
  obtain s2 where s2: "multi_series_of (files w) here ''p99'' = Inr s2" "\<forall>s \<in> set s2. safe_text (fst s) \<and> line_ok (snd s)"
    using g[of "''p99''"] by blast
  obtain o2 where o2: "multi_chart lg multi_p99_cfg s2 = Inr o2" "well_formed o2"
    using multi_chart_drawn[OF lg multi_cfgs_ok(2) s2(2)] by blast
  let ?w1 = "w\<lparr>files := (files w)(p1 \<mapsto> svg_text o1)\<rparr>"
  have l1: "multi_load_series (path_join (dirname here) ''sequencer'') ''p50'' w = (Inr s1, w)"
    and l2: "multi_load_series (path_join (dirname here) ''sequencer'') ''p99'' ?w1 = (Inr s2, ?w1)"
    using s1(1) s2(1) pd(2) by (simp_all add: multi_load_series_eq multi_series_of_upd)
  have "mkcharts_multi lg here args w = bindI (printI (''wrote multi-gateway-p50.svg, multi-gateway-p99.svg to '' @ ?out)) (\<lambda>_. returnI 0)
      (w\<lparr>files := (files w)(p1 \<mapsto> svg_text o1, p2 \<mapsto> svg_text o2)\<rparr>)"
    unfolding mkcharts_multi_eq p[symmetric]
    by (subst bindI_Inr, rule l1, subst bindI_Inr, rule write_chart_drawn[OF o1], subst bindI_Inr, rule l2,
        subst bindI_Inr, rule write_chart_drawn[OF o2]) simp
  then show ?thesis using o1 o2 s1(1) s2(1) pd(1) unfolding p[symmetric]
    by (simp add: run_def bindI_print returnI_def chart_at_def)
qed

text \<open>A world with one series file: two runs at one rate, one of them without a p99.\<close>

definition multi_text :: string where
  "multi_text = concat (map (\<lambda>l. l @ [CHR 0x0A])
     [''product,rate,achieved,p50,p99'', ''sequencer-multi,100000,100000,800,1500'', ''sequencer-multi,100000,99990,900,''])"

definition multi_world :: world where
  "multi_world = \<lparr>files = [''/sequencer/seq-multi.csv'' \<mapsto> multi_text], stdout = [], stderr = [], dirs = []\<rparr>"

lemma multi_text_series:
  "multi_series ''sequencer-multi'' ''p50'' multi_text = Inr [(100000, (850, 99995))]"
  "multi_series ''sequencer-multi'' ''p99'' multi_text = Inr [(100000, (1500, 100000))]"
proof -
  have r: "csv_reader_rows multi_text = Inr [[''product'', ''rate'', ''achieved'', ''p50'', ''p99''],
      [''sequencer-multi'', ''100000'', ''100000'', ''800'', ''1500''], [''sequencer-multi'', ''100000'', ''99990'', ''900'', []]]"
    unfolding multi_text_def by (subst csv_reader_plain) (simp_all add: plain_char_def is_crnl_def)
  show "multi_series ''sequencer-multi'' ''p50'' multi_text = Inr [(100000, (850, 99995))]"
    by (simp add: multi_series_def csv_dict_rows_def r multi_row_def row_eval floor_means_def dict_append_def)
  show "multi_series ''sequencer-multi'' ''p99'' multi_text = Inr [(100000, (1500, 100000))]"
    by (simp add: multi_series_def csv_dict_rows_def r multi_row_def row_eval floor_means_def dict_append_def)
qed

theorem mkcharts_multi_succeeds_witness:
  "\<exists>w' o'. run (mkcharts_multi log10_rounded ''/sweep'' []) multi_world = (0, w') \<and>
     multi_chart log10_rounded multi_p99_cfg
       [(''1 gateway - 8-vCPU clients, 8-vCPU nodes'', []), (''5 gateways - 8-vCPU clients, 8-vCPU nodes'', [(100000, (1500, 100000))]),
        (''5 gateways - 4-vCPU clients, 8-vCPU nodes'', []), (''5 gateways - 8-vCPU clients, 16-vCPU nodes'', [])] = Inr o' \<and>
     files w' ''/sequencer/multi-gateway-p99.svg'' = Some (svg_text o')"
proof -
  have "\<forall>(label, path, product) \<in> set (multi_specs (path_join (dirname ''/sweep'') ''sequencer'')).
      \<forall>col \<in> {''p50'', ''p99''}. multi_good (files multi_world) path product col"
    by (simp add: multi_specs_def multi_good_def multi_world_def py_eval multi_text_series line_ok_def)
  from mkcharts_multi_succeeds[OF log10_rounded.log10_function_axioms this, of "[]"]
  show ?thesis by (auto simp: chart_at_def multi_out_def py_eval multi_series_of_def chart_series_def multi_specs_def file_series_def multi_world_def multi_text_series)
qed

lemma ordinary_multi_series_of: "ordinary (multi_series_of f here col)"
proof -
  have "ordinary (multi_row product col acc row)" for product acc row unfolding multi_row_def by (intro ordinary)
  then show ?thesis unfolding multi_series_of_def by (intro ordinary_chart_series) (auto simp: multi_series_def intro!: ordinary)
qed

text \<open>C39: a malformed series file stops \<open>mkcharts-multi.py\<close>. If a file of the table exists and
  reading a column of it raises, the run ends with status 1 and prints nothing. A bad p50
  column leaves every file as it was; when only the p99 columns are bad, the p50 chart is
  written already and is the only file that changes.\<close>

theorem mkcharts_multi_malformed:
  assumes lg: "log10_function lg"
    and bad: "(label, path, product) \<in> set (multi_specs (path_join (dirname here) ''sequencer''))" "files w path = Some t"
      "multi_series product col t = Inl e" "col \<in> {''p50'', ''p99''}"
    and good: "col = ''p99'' \<Longrightarrow> \<forall>(label, path, product) \<in> set (multi_specs (path_join (dirname here) ''sequencer'')). multi_good (files w) path product ''p50''"
  shows "\<exists>w'. run (mkcharts_multi lg here args) w = (1, w') \<and> stdout w' = stdout w \<and>
    (\<forall>p. (col = ''p99'' \<longrightarrow> p \<noteq> multi_out here args @ ''/multi-gateway-p50.svg'') \<longrightarrow> files w' p = files w p) \<and>
    (col = ''p99'' \<longrightarrow> chart_at (files w') (multi_out here args @ ''/multi-gateway-p50.svg'')
      (bindE (multi_series_of (files w) here ''p50'') (multi_chart lg multi_p50_cfg)))"
proof -
  let ?p = "multi_out here args @ ''/multi-gateway-p50.svg''"
  have "file_series (files w) (multi_series product col) path = Inl e" using bad by (simp add: file_series_def)
  from chart_series_fails[OF bad(1), of "files w" "\<lambda>product. multi_series product col", OF this]
  obtain e' where e: "multi_series_of (files w) here col = Inl e'" unfolding multi_series_of_def by blast
  then have o: "exit_status (Inl e') = 1" "\<And>s. e' \<noteq> SystemExitMsg s"
    using ordinary_multi_series_of[of "files w" here col] by (auto simp: ordinary_def exit_ordinary)
  show ?thesis
  proof (cases "col = ''p99''")
    case False
    then have "multi_load_series (path_join (dirname here) ''sequencer'') ''p50'' w = (Inl e', w)" using e bad(4) by (simp add: multi_load_series_eq)
    then have "mkcharts_multi lg here args w = (Inl e', w)" unfolding mkcharts_multi_eq by (rule bindI_Inl)
    then show ?thesis using o False by (auto simp: run_def split: py_error.split)
  next
    case True
    obtain s1 where s1: "multi_series_of (files w) here ''p50'' = Inr s1" "\<forall>s \<in> set s1. safe_text (fst s) \<and> line_ok (snd s)"
      using multi_series_of_good[OF good[OF True]] by blast
    obtain o1 where o1: "multi_chart lg multi_p50_cfg s1 = Inr o1" "well_formed o1"
      using multi_chart_drawn[OF lg multi_cfgs_ok(1) s1(2)] by blast
    let ?w1 = "w\<lparr>files := (files w)(?p \<mapsto> svg_text o1)\<rparr>"
    have l1: "multi_load_series (path_join (dirname here) ''sequencer'') ''p50'' w = (Inr s1, w)"
      and l2: "multi_load_series (path_join (dirname here) ''sequencer'') ''p99'' ?w1 = (Inl e', ?w1)"
      using s1(1) e True by (simp_all add: multi_load_series_eq multi_series_of_upd)
    have "mkcharts_multi lg here args w = (Inl e', ?w1)" unfolding mkcharts_multi_eq
      by (subst bindI_Inr, rule l1, subst bindI_Inr, rule write_chart_drawn[OF o1], rule bindI_Inl, rule l2)
    then show ?thesis using o True o1 s1(1) by (auto simp: run_def chart_at_def split: py_error.split)
  qed
qed

definition broken_text :: string where
  "broken_text = concat (map (\<lambda>l. l @ [CHR 0x0A]) [''product,rate,achieved,p50,p99'', ''sequencer-multi,100000,100000,800,1.5''])"

definition broken_world :: world where
  "broken_world = multi_world\<lparr>files := [''/sequencer/seq-multi.csv'' \<mapsto> broken_text]\<rparr>"

theorem mkcharts_multi_malformed_witness:
  "\<exists>w'. run (mkcharts_multi log10_rounded ''/sweep'' []) broken_world = (1, w') \<and>
     files w' ''/sequencer/multi-gateway-p50.svg'' \<noteq> None \<and> files w' ''/sequencer/multi-gateway-p99.svg'' = None"
proof -
  have r: "csv_reader_rows broken_text = Inr [[''product'', ''rate'', ''achieved'', ''p50'', ''p99''],
      [''sequencer-multi'', ''100000'', ''100000'', ''800'', ''1.5'']]"
    unfolding broken_text_def by (subst csv_reader_plain) (simp_all add: plain_char_def is_crnl_def)
  have p50: "multi_series ''sequencer-multi'' ''p50'' broken_text = Inr [(100000, (800, 100000))]"
    and p99: "multi_series ''sequencer-multi'' ''p99'' broken_text = Inl ValueError"
    by (simp_all add: multi_series_def csv_dict_rows_def r multi_row_def row_eval floor_means_def dict_append_def)
  have bad: "(''5 gateways - 8-vCPU clients, 8-vCPU nodes'', ''/sequencer/seq-multi.csv'', ''sequencer-multi'')
      \<in> set (multi_specs (path_join (dirname ''/sweep'') ''sequencer''))" "files broken_world ''/sequencer/seq-multi.csv'' = Some broken_text"
    by (simp_all add: multi_specs_def broken_world_def py_eval)
  have good: "\<forall>(label, path, product) \<in> set (multi_specs (path_join (dirname ''/sweep'') ''sequencer'')). multi_good (files broken_world) path product ''p50''"
    using p50 by (simp add: multi_specs_def multi_good_def broken_world_def py_eval line_ok_def)
  from mkcharts_multi_malformed[OF log10_rounded.log10_function_axioms bad p99 _ good, of "[]"]
  show ?thesis by (auto simp: chart_at_def multi_out_def py_eval broken_world_def)
qed

end
