(* ===== verification/Palette.thy ===== *)
theory Palette
  imports Py_Float Py_Dict Py_IO
begin

text \<open>
  \<open>sweep/validate_palette.py\<close>: the check that every pair of chart colours stays apart for
  normal and for dichromatic vision. Distances are computed in OKLab, after the
  simulation of the deficiency in linear light.

  Two operations on floats are not fixed by IEEE 754: the power \<open>**\<close> is the C library's
  \<open>pow\<close>, and \<open>sum\<close> accumulates plainly up to Python 3.11 and with a compensation from 3.12
  on. Both are fields of the record \<open>float_lib\<close>, an argument of the definitions.
\<close>

section \<open>The model\<close>

record float_lib =
  lib_pow :: "rat \<Rightarrow> rat \<Rightarrow> rat"
  lib_sum :: "rat list \<Rightarrow> rat"

definition NORMAL_FLOOR :: rat where "NORMAL_FLOOR = 15"
definition CVD_TARGET :: rat where "CVD_TARGET = 8"
definition CVD_FLOOR :: rat where "CVD_FLOOR = 6"

text \<open>\<open>int(s, 16)\<close>: white space around it, a sign, an optional \<open>0x\<close>, and digits between
  which single underscores may stand.\<close>

definition hex_val :: "char \<Rightarrow> nat option" where
  "hex_val c = (let n = of_char c :: nat in
     if 48 \<le> n \<and> n \<le> 57 then Some (n - 48)
     else if 97 \<le> n \<and> n \<le> 102 then Some (n - 87)
     else if 65 \<le> n \<and> n \<le> 70 then Some (n - 55) else None)"

fun hex_digits :: "nat \<Rightarrow> string \<Rightarrow> nat option" where
  "hex_digits acc [] = None"
| "hex_digits acc [c] = map_option (\<lambda>d. 16 * acc + d) (hex_val c)"
| "hex_digits acc (c # d # s) = (case hex_val c of None \<Rightarrow> None
     | Some v \<Rightarrow> if d = CHR ''_'' then hex_digits (16 * acc + v) s else hex_digits (16 * acc + v) (d # s))"

definition hex_literal :: "string \<Rightarrow> nat option" where
  "hex_literal s = (if starts_with s ''0x'' \<or> starts_with s ''0X''
     then (let t = drop 2 s in hex_digits 0 (if t \<noteq> [] \<and> hd t = CHR ''_'' then tl t else t))
     else hex_digits 0 s)"

definition py_int16 :: "string \<Rightarrow> int res" where
  "py_int16 s = (let t = strip s in
     case (if t \<noteq> [] \<and> hd t = CHR ''-'' then map_option (\<lambda>n. - int n) (hex_literal (tl t))
           else if t \<noteq> [] \<and> hd t = CHR ''+'' then map_option int (hex_literal (tl t))
           else map_option int (hex_literal t))
     of Some n \<Rightarrow> Inr n | None \<Rightarrow> Inl ValueError)"

type_synonym rgb = "rat \<times> rat \<times> rat"

text \<open>One channel: \<open>c / 12.92 if c <= 0.04045 else ((c + 0.055) / 1.055) ** 2.4\<close>.\<close>

definition channel :: "float_lib \<Rightarrow> rat \<Rightarrow> rat" where
  "channel lib c = (if c \<le> fl (4045 / 100000) then fl (c / fl (1292 / 100))
     else lib_pow lib (fl (fl (c + fl (55 / 1000)) / fl (1055 / 1000))) (fl (24 / 10)))"

definition hex_to_linear :: "float_lib \<Rightarrow> string \<Rightarrow> rgb res" where
  "hex_to_linear lib h0 = (let h = dropWhile (\<lambda>c. c = CHR ''#'') h0 in
     bindE (mapE (\<lambda>i. bindE (py_int16 (take 2 (drop i h))) (\<lambda>n. Inr (fl (of_int n / 255)))) [0, 2, 4]) (\<lambda>srgb.
     Inr (channel lib (srgb ! 0), channel lib (srgb ! 1), channel lib (srgb ! 2))))"

text \<open>\<open>a * x + b * y + c * z\<close> for three literals: products first, added from the left.\<close>

definition dot3 :: "rat \<Rightarrow> rat \<Rightarrow> rat \<Rightarrow> rgb \<Rightarrow> rat" where
  "dot3 a b c v = (case v of (x, y, z) \<Rightarrow> fl (fl (fl (fl a * x) + fl (fl b * y)) + fl (fl c * z)))"

text \<open>The OKLab rows with a subtraction are written with a negative coefficient, which gives the
  same double: rounding commutes with the change of sign (\<open>fl_minus\<close>).\<close>

definition linear_to_oklab :: "float_lib \<Rightarrow> rgb \<Rightarrow> rgb" where
  "linear_to_oklab lib rgb =
     (let l = dot3 (4122214708 / 10 ^ 10) (5363325363 / 10 ^ 10) (514459929 / 10 ^ 10) rgb;
          m = dot3 (2119034982 / 10 ^ 10) (6806995451 / 10 ^ 10) (1073969566 / 10 ^ 10) rgb;
          s = dot3 (883024619 / 10 ^ 10) (2817188376 / 10 ^ 10) (6299787005 / 10 ^ 10) rgb;
          root = (\<lambda>v. lib_pow lib (max v 0) (fl (1 / 3)));
          lms = (root l, root m, root s)
      in (dot3 (2104542553 / 10 ^ 10) (7936177850 / 10 ^ 10) (- 40720468 / 10 ^ 10) lms,
          dot3 (19779984951 / 10 ^ 10) (- 24285922050 / 10 ^ 10) (4505937099 / 10 ^ 10) lms,
          dot3 (259040371 / 10 ^ 10) (7827717662 / 10 ^ 10) (- 8086757660 / 10 ^ 10) lms))"

datatype cvd = Protan | Deutan | Tritan

text \<open>The dichromat matrices, and the order of the dictionary \<open>CVD\<close>.\<close>

fun cvd_matrix :: "cvd \<Rightarrow> rgb \<times> rgb \<times> rgb" where
  "cvd_matrix Protan = ((11238 / 10 ^ 5, 88762 / 10 ^ 5, 0), (11238 / 10 ^ 5, 88762 / 10 ^ 5, 0), (401 / 10 ^ 5, - 401 / 10 ^ 5, 1))"
| "cvd_matrix Deutan = ((29275 / 10 ^ 5, 70725 / 10 ^ 5, 0), (29275 / 10 ^ 5, 70725 / 10 ^ 5, 0), (- 2234 / 10 ^ 5, 2234 / 10 ^ 5, 1))"
| "cvd_matrix Tritan = ((1, 14461 / 10 ^ 5, - 14461 / 10 ^ 5), (0, 1, 0), (0, 15594 / 10 ^ 5, 84406 / 10 ^ 5))"

definition CVD :: "cvd list" where
  "CVD = [Protan, Deutan, Tritan]"

text \<open>\<open>sum(m[i][j] * rgb[j] for j in range(3))\<close>.\<close>

definition row_sum :: "float_lib \<Rightarrow> rgb \<Rightarrow> rgb \<Rightarrow> rat" where
  "row_sum lib row v = (case row of (a, b, c) \<Rightarrow> case v of (x, y, z) \<Rightarrow>
     lib_sum lib [fl (fl a * x), fl (fl b * y), fl (fl c * z)])"

definition simulate :: "float_lib \<Rightarrow> rgb \<Rightarrow> cvd \<Rightarrow> rgb" where
  "simulate lib rgb kind = (case cvd_matrix kind of (r0, r1, r2) \<Rightarrow>
     (row_sum lib r0 rgb, row_sum lib r1 rgb, row_sum lib r2 rgb))"

text \<open>\<open>100.0 * sum((x - y) ** 2 for x, y in zip(la, lb)) ** 0.5\<close>.\<close>

definition delta_e :: "float_lib \<Rightarrow> rgb \<Rightarrow> rgb \<Rightarrow> rat" where
  "delta_e lib a b = (case linear_to_oklab lib a of (l1, m1, s1) \<Rightarrow> case linear_to_oklab lib b of (l2, m2, s2) \<Rightarrow>
     fl (100 * lib_pow lib (lib_sum lib [lib_pow lib (fl (l1 - l2)) 2, lib_pow lib (fl (m1 - m2)) 2, lib_pow lib (fl (s1 - s2)) 2]) (1 / 2)))"

definition relative_luminance :: "rgb \<Rightarrow> rat" where
  "relative_luminance rgb = dot3 (2126 / 10 ^ 4) (7152 / 10 ^ 4) (722 / 10 ^ 4) rgb"

definition contrast :: "rgb \<Rightarrow> rgb \<Rightarrow> rat res" where
  "contrast a b =
     (let la = relative_luminance a; lb = relative_luminance b; hi = max la lb; lo = min la lb;
          d = fl (lo + fl (5 / 100))
      in if d = 0 then Inl ZeroDivisionError else Inr (fl (fl (hi + fl (5 / 100)) / d)))"

section \<open>The check\<close>

definition verdict :: "rat \<Rightarrow> rat \<Rightarrow> string \<times> int" where
  "verdict normal worst_cvd =
     (if normal < NORMAL_FLOOR then (''FAIL normal-vision floor'', 2)
      else if worst_cvd < CVD_FLOOR then (''FAIL cvd'', 2)
      else if worst_cvd < CVD_TARGET then (''warn: needs labels'', 1)
      else (''pass'', 0))"

text \<open>\<open>itertools.combinations(colours, 2)\<close>.\<close>

fun combinations2 :: "'a list \<Rightarrow> ('a \<times> 'a) list" where
  "combinations2 [] = []"
| "combinations2 (x # xs) = map (Pair x) xs @ combinations2 xs"

definition sims :: "float_lib \<Rightarrow> rgb \<Rightarrow> rgb \<Rightarrow> rat list" where
  "sims lib a b = map (\<lambda>k. delta_e lib (simulate lib a k) (simulate lib b k)) CVD"

definition worst_cvd :: "float_lib \<Rightarrow> rgb \<Rightarrow> rgb \<Rightarrow> rat" where
  "worst_cvd lib a b = (let s = sims lib a b in foldl min (hd s) (tl s))"

definition num_cell :: "nat \<Rightarrow> nat \<Rightarrow> rat \<Rightarrow> string" where
  "num_cell w n x = rjust w (fmt_fixed n x)"

text \<open>One pair of names: the severity found so far, and the row printed.\<close>

definition check_pair :: "float_lib \<Rightarrow> (string, rgb) dict \<Rightarrow> int \<Rightarrow> (string \<times> string) \<times> (string \<times> string) \<Rightarrow> int io" where
  "check_pair lib lin worst_fail pr =
     (let na = fst (fst pr); nb = fst (snd pr) in
      bindI (liftI (dict_index (\<lambda>k. k) lin na)) (\<lambda>a.
      bindI (liftI (dict_index (\<lambda>k. k) lin nb)) (\<lambda>b.
      let normal = delta_e lib a b; v = verdict normal (worst_cvd lib a b) in
      bindI (printI (ljust 44 (na @ '' / '' @ nb) @ num_cell 8 1 normal @ concat (map (num_cell 8 1) (sims lib a b)) @ ''  '' @ fst v)) (\<lambda>_.
      returnI (max worst_fail (snd v))))))"

definition check_contrast :: "(string, rgb) dict \<Rightarrow> rgb \<Rightarrow> unit \<Rightarrow> string \<times> string \<Rightarrow> unit io" where
  "check_contrast lin surf u nh =
     bindI (liftI (dict_index (\<lambda>k. k) lin (fst nh))) (\<lambda>rgb.
     bindI (liftI (contrast rgb surf)) (\<lambda>c.
     printI (''  '' @ ljust 28 (fst nh) @ snd nh @ ''  '' @ num_cell 5 2 c @ '':1'' @
             (if 3 \<le> c then [] else ''  WARN: needs a visible label''))))"

text \<open>\<open>{name: hex_to_linear(h) for name, h in colours}\<close>: a repeated name keeps its last
  colour.\<close>

definition linear_table :: "float_lib \<Rightarrow> (string \<times> string) list \<Rightarrow> (string, rgb) dict res" where
  "linear_table lib colours = foldE (\<lambda>d (name, h). bindE (hex_to_linear lib h) (\<lambda>v. Inr (dict_set name v d))) [] colours"

definition check :: "float_lib \<Rightarrow> (string \<times> string) list \<Rightarrow> string \<Rightarrow> int io" where
  "check lib colours surface =
     bindI (liftI (linear_table lib colours)) (\<lambda>lin.
     let n = int (length colours) in
     bindI (printI (str_of_int n @ '' colours, all '' @ str_of_int (n * (n - 1) div 2) @ '' pairs'' @ [CHR 0x0A])) (\<lambda>_.
     bindI (printI (ljust 44 ''pair'' @ rjust 8 ''normal'' @ rjust 8 ''protan'' @ rjust 8 ''deutan'' @ rjust 8 ''tritan'' @ ''  verdict'')) (\<lambda>_.
     bindI (forI (check_pair lib lin) 0 (combinations2 colours)) (\<lambda>worst_fail.
     bindI (printI ([CHR 0x0A] @ ''contrast against surface '' @ surface)) (\<lambda>_.
     bindI (liftI (hex_to_linear lib surface)) (\<lambda>surf.
     bindI (forI (check_contrast lin surf) () colours) (\<lambda>_.
     returnI worst_fail)))))))"

definition default_entries :: "(string \<times> string) list" where
  "default_entries = [(''C1 ack/fix-journal'', ''#2a78d6''), (''C2 relay/fix-inline'', ''#eb6834''), (''C3 output-brpc'', ''#1baf7a''),
     (''C4 direct/output-grpc'', ''#b5179e''), (''C5 output-websocket'', ''#6d28d9''), (''quickfix (7th)'', ''#a16207''),
     (''INK2 braft floor'', ''#52514e'')]"

definition palette_entries :: "string list \<Rightarrow> (string \<times> string) list" where
  "palette_entries args = (case args of a # _ \<Rightarrow> map (\<lambda>h. (strip h, strip h)) (split_on (CHR '','') a) | [] \<Rightarrow> default_entries)"

text \<open>\<open>sys.exit(check(entries))\<close>.\<close>

definition validate_palette :: "float_lib \<Rightarrow> string list \<Rightarrow> int io" where
  "validate_palette lib args =
     bindI (check lib (palette_entries args) ''#fcfcfb'') (\<lambda>n. raiseI (SystemExit n))"


section \<open>Pairs\<close>

lemma combinations2_index:
  "combinations2 xs = concat (map (\<lambda>i. map (\<lambda>j. (xs ! i, xs ! j)) [Suc i..<length xs]) [0..<length xs])"
proof (induction xs)
  case (Cons x xs)
  have "map (Pair x) xs = map (\<lambda>j. (x, (x # xs) ! j)) [Suc 0..<Suc (length xs)]"
    by (rule nth_equalityI) (simp_all del: upt_Suc)
  moreover have "[0..<Suc n] = 0 # map Suc [0..<n]" "[Suc (Suc i)..<Suc n] = map Suc [Suc i..<n]" for n i
    by (simp_all add: upt_conv_Cons map_Suc_upt)
  ultimately show ?case using Cons by (simp add: comp_def del: upt_Suc)
qed simp

lemma combinations2_length: "length (combinations2 xs) * 2 = length xs * (length xs - 1)"
proof (induction xs)
  case (Cons x xs)
  then show ?case by (cases xs) (auto simp: algebra_simps)
qed simp

lemma combinations2_map: "combinations2 (map f xs) = map (map_prod f f) (combinations2 xs)"
  by (induction xs) (auto simp: map_prod_def)

lemma combinations2_mem: "(x, y) \<in> set (combinations2 xs) \<longleftrightarrow> (\<exists>i j. i < j \<and> j < length xs \<and> x = xs ! i \<and> y = xs ! j)"
proof -
  have "set (combinations2 xs) = (\<Union>i < length xs. (\<lambda>j. (xs ! i, xs ! j)) ` {Suc i..<length xs})"
    unfolding combinations2_index by (simp add: atLeast0LessThan)
  also have "(x, y) \<in> \<dots> \<longleftrightarrow> (\<exists>i j. i < j \<and> j < length xs \<and> x = xs ! i \<and> y = xs ! j)"
  proof
    assume "\<exists>i j. i < j \<and> j < length xs \<and> x = xs ! i \<and> y = xs ! j"
    then obtain i j where ij: "i < j" "j < length xs" "x = xs ! i" "y = xs ! j" by blast
    then show "(x, y) \<in> (\<Union>i < length xs. (\<lambda>j. (xs ! i, xs ! j)) ` {Suc i..<length xs})"
      by (intro UN_I[of i] image_eqI[of _ _ j]) auto
  qed (auto simp: Suc_le_eq, blast)
  finally show ?thesis .
qed

text \<open>Every pair of colours is checked, once. The pairs are exactly those of a position and a
  later one, in order, and the count printed in the first line is their number.\<close>

lemma combinations2_all_pairs:
  "combinations2 xs = concat (map (\<lambda>i. map (\<lambda>j. (xs ! i, xs ! j)) [Suc i..<length xs]) [0..<length xs]) \<and>
   int (length (combinations2 xs)) = int (length xs) * (int (length xs) - 1) div 2"
proof -
  have "int (length (combinations2 xs)) * 2 = int (length xs) * (int (length xs) - 1)"
    using arg_cong[OF combinations2_length[of xs], of int] by (cases xs) (simp_all add: algebra_simps)
  then show ?thesis using combinations2_index[of xs] by simp
qed

section \<open>Colours\<close>

text \<open>Six hexadecimal digits after the sharp sign.\<close>

definition hex_colour :: "string \<Rightarrow> bool" where
  "hex_colour h \<longleftrightarrow> (let t = dropWhile (\<lambda>c. c = CHR ''#'') h in length t = 6 \<and> list_all (\<lambda>c. hex_val c \<noteq> None) t)"

lemma hex_val_bound: "hex_val c = Some v \<Longrightarrow> v < 16"
  by (auto simp: hex_val_def Let_def split: if_splits)

lemma hex_val_plain: "hex_val c \<noteq> None \<Longrightarrow> \<not> is_space c \<and> c \<noteq> CHR ''-'' \<and> c \<noteq> CHR ''+'' \<and> c \<noteq> CHR ''_'' \<and> c \<noteq> CHR ''x'' \<and> c \<noteq> CHR ''X''"
  by (auto simp: hex_val_def is_space_def Let_def split: if_splits)

lemma py_int16_two:
  assumes "hex_val c = Some u" "hex_val d = Some v"
  shows "py_int16 [c, d] = Inr (16 * int u + int v)" and "0 \<le> 16 * int u + int v" and "16 * int u + int v \<le> 255"
proof -
  have p: "\<not> is_space c" "\<not> is_space d" "c \<noteq> CHR ''-''" "c \<noteq> CHR ''+''" "d \<noteq> CHR ''x''" "d \<noteq> CHR ''X''" "d \<noteq> CHR ''_''"
    using hex_val_plain[of c] hex_val_plain[of d] assms by auto
  then have "strip [c, d] = [c, d]" by (intro strip_id) simp
  then show "py_int16 [c, d] = Inr (16 * int u + int v)"
    using p assms by (simp add: py_int16_def hex_literal_def starts_with_def Let_def)
  show "0 \<le> 16 * int u + int v" "16 * int u + int v \<le> 255"
    using hex_val_bound[OF assms(1)] hex_val_bound[OF assms(2)] by auto
qed

text \<open>What the check relies on in the C library's power: it is not negative on a base that is not
  negative, zero for the base zero and a positive exponent, and even for the exponent two; and
  a sum of zeros is zero.\<close>

locale float_lib_laws =
  fixes lib :: float_lib
  assumes pow_nonneg: "0 \<le> x \<Longrightarrow> 0 \<le> lib_pow lib x y"
    and pow_zero: "0 < y \<Longrightarrow> lib_pow lib 0 y = 0"
    and pow_even: "lib_pow lib (- x) 2 = lib_pow lib x 2"
    and sum_zeros: "lib_sum lib [0, 0, 0] = 0"
begin

lemma channel_nonneg: "0 \<le> c \<Longrightarrow> 0 \<le> channel lib c"
proof -
  assume c: "0 \<le> c"
  have k: "0 \<le> fl (55 / 1000)" "0 \<le> fl (1055 / 1000)" "0 \<le> fl (1292 / 100)" by (simp_all add: fl_nonneg)
  then have "0 \<le> fl (fl (c + fl (55 / 1000)) / fl (1055 / 1000))" using c by (metis fl_nonneg divide_nonneg_nonneg add_nonneg_nonneg)
  then show ?thesis using c k by (auto simp: channel_def intro!: fl_nonneg pow_nonneg)
qed

text \<open>A colour in linear light, with channels that are not negative.\<close>

lemma hex_to_linear_total:
  assumes "hex_colour h"
  shows "\<exists>r g b. hex_to_linear lib h = Inr (r, g, b) \<and> 0 \<le> r \<and> 0 \<le> g \<and> 0 \<le> b"
proof -
  define t where "t = dropWhile (\<lambda>c. c = CHR ''#'') h"
  have "length t = 6" "list_all (\<lambda>c. hex_val c \<noteq> None) t" using assms by (auto simp: hex_colour_def t_def Let_def)
  then obtain c0 c1 c2 c3 c4 c5 where t: "t = [c0, c1, c2, c3, c4, c5]"
    by (auto simp: numeral_eq_Suc length_Suc_conv)
  obtain v0 v1 v2 v3 v4 v5 where v: "hex_val c0 = Some v0" "hex_val c1 = Some v1" "hex_val c2 = Some v2"
      "hex_val c3 = Some v3" "hex_val c4 = Some v4" "hex_val c5 = Some v5"
    using \<open>list_all (\<lambda>c. hex_val c \<noteq> None) t\<close> unfolding t by auto
  have nn: "0 \<le> channel lib (fl (of_int n / 255))" if "0 \<le> n" for n
    using that by (intro channel_nonneg fl_nonneg) simp
  note nn[OF py_int16_two(2)[OF v(1,2)]] nn[OF py_int16_two(2)[OF v(3,4)]] nn[OF py_int16_two(2)[OF v(5,6)]]
  then show ?thesis
    using py_int16_two(1)[OF v(1,2)] py_int16_two(1)[OF v(3,4)] py_int16_two(1)[OF v(5,6)]
    by (simp add: hex_to_linear_def Let_def t numeral_eq_Suc flip: t_def)
qed

lemma delta_e_sym: "delta_e lib a b = delta_e lib b a"
proof -
  have "lib_pow lib (fl (x - y)) 2 = lib_pow lib (fl (y - x)) 2" for x y
    using pow_even[of "fl (y - x)"] fl_minus[of "y - x"] by simp
  then show ?thesis by (simp add: delta_e_def split: prod.splits)
qed

lemma delta_e_self: "delta_e lib a a = 0"
  by (simp add: delta_e_def pow_zero sum_zeros split: prod.splits)

end

text \<open>A library that has these laws: powers rounded down to 60 binary places, squares and sums
  rounded to the nearest double.\<close>

definition lib_rounded :: float_lib where
  "lib_rounded = \<lparr>lib_pow = (\<lambda>x y. if y = 2 then fl (x * x) else if x = 0 then 0
      else of_int \<lfloor>(real_of_rat x) powr (real_of_rat y) * 2 ^ 60\<rfloor> / 2 ^ 60),
    lib_sum = foldl (\<lambda>a x. fl (a + x)) 0\<rparr>"

interpretation lib_rounded: float_lib_laws lib_rounded
  by unfold_locales (auto simp: lib_rounded_def intro!: fl_nonneg)

text \<open>The colour distance does not depend on the order of a pair, and no colour differs from
  itself: the matrix of distances that is printed above the diagonal is the whole matrix.\<close>

lemma delta_e_symmetric:
  assumes "float_lib_laws lib"
  shows "delta_e lib a b = delta_e lib b a \<and> delta_e lib a a = 0"
  using float_lib_laws.delta_e_sym[OF assms] float_lib_laws.delta_e_self[OF assms] by blast

section \<open>The exit status\<close>

text \<open>A colour of the palette in linear light, and the two distances of a pair.\<close>

definition colour :: "float_lib \<Rightarrow> string \<Rightarrow> rgb" where
  "colour lib h = projr (hex_to_linear lib h)"

definition normal_distance :: "float_lib \<Rightarrow> string \<Rightarrow> string \<Rightarrow> rat" where
  "normal_distance lib a b = delta_e lib (colour lib a) (colour lib b)"

definition cvd_distance :: "float_lib \<Rightarrow> string \<Rightarrow> string \<Rightarrow> rat" where
  "cvd_distance lib a b = worst_cvd lib (colour lib a) (colour lib b)"

definition severity :: "float_lib \<Rightarrow> string \<times> string \<Rightarrow> int" where
  "severity lib ab = snd (verdict (normal_distance lib (fst ab) (snd ab)) (cvd_distance lib (fst ab) (snd ab)))"

lemma severity_cases:
  "severity lib (a, b) = 2 \<longleftrightarrow> normal_distance lib a b < 15 \<or> cvd_distance lib a b < 6"
  "severity lib (a, b) = 0 \<longleftrightarrow> 15 \<le> normal_distance lib a b \<and> 8 \<le> cvd_distance lib a b"
  "severity lib ab \<in> {0, 1, 2}"
  by (auto simp: severity_def verdict_def NORMAL_FLOOR_def CVD_FLOOR_def CVD_TARGET_def)

text \<open>Names determine colours: in the default palette the names differ, on the command line a
  colour is its own name.\<close>

definition named :: "(string \<times> string) list \<Rightarrow> bool" where
  "named entries \<longleftrightarrow> (\<forall>x \<in> set entries. \<forall>y \<in> set entries. fst x = fst y \<longrightarrow> snd x = snd y)"

lemma palette_entries_named: "named (palette_entries args)"
proof (cases args)
  case Nil
  then show ?thesis by (simp add: named_def palette_entries_def default_entries_def)
next
  case (Cons a as)
  then show ?thesis by (auto simp: named_def palette_entries_def)
qed

lemma linear_table_get:
  assumes "\<forall>x \<in> set entries. hex_to_linear lib (snd x) = Inr (colour lib (snd x))" "named entries"
  shows "\<exists>lin. linear_table lib entries = Inr lin \<and> (\<forall>x \<in> set entries. dict_get lin (fst x) = Some (colour lib (snd x)))"
proof -
  have "\<exists>lin. foldE (\<lambda>d (name, h). bindE (hex_to_linear lib h) (\<lambda>v. Inr (dict_set name v d))) d xs = Inr lin \<and>
      (\<forall>n. n \<notin> fst ` set xs \<longrightarrow> dict_get lin n = dict_get d n) \<and>
      (\<forall>x \<in> set xs. dict_get lin (fst x) = Some (colour lib (snd x)))"
    if "set xs \<subseteq> set entries" for d xs
    using that
  proof (induction xs arbitrary: d)
    case (Cons x xs)
    obtain name h where x: "x = (name, h)" by fastforce
    have hx: "hex_to_linear lib h = Inr (colour lib h)" using Cons.prems assms(1) x by auto
    obtain lin where lin: "foldE (\<lambda>d (name, h). bindE (hex_to_linear lib h) (\<lambda>v. Inr (dict_set name v d))) (dict_set name (colour lib h) d) xs = Inr lin"
        "\<forall>n. n \<notin> fst ` set xs \<longrightarrow> dict_get lin n = dict_get (dict_set name (colour lib h) d) n"
        "\<forall>x \<in> set xs. dict_get lin (fst x) = Some (colour lib (snd x))"
      using Cons.IH[of "dict_set name (colour lib h) d"] Cons.prems by (elim meta_impE exE conjE) simp_all
    have "dict_get lin name = Some (colour lib h)"
    proof (cases "name \<in> fst ` set xs")
      case True
      then obtain y where y: "y \<in> set xs" "fst y = name" by auto
      moreover have "x \<in> set entries" "y \<in> set entries" using y(1) Cons.prems by auto
      ultimately have "snd y = h" using assms(2) x unfolding named_def by (metis fst_conv snd_conv)
      then show ?thesis using lin(3) y by auto
    qed (use lin(2) in \<open>simp add: dict_get_set\<close>)
    then show ?case using lin hx by (intro exI[of _ lin]) (simp add: x dict_get_set)
  qed simp
  from this[of entries "[]"] show ?thesis by (auto simp: linear_table_def)
qed

lemma check_pair_step:
  assumes "dict_get lin (fst (fst pr)) = Some a" "dict_get lin (fst (snd pr)) = Some b"
  shows "check_pair lib lin k pr = bindI (printI (ljust 44 (fst (fst pr) @ '' / '' @ fst (snd pr)) @ num_cell 8 1 (delta_e lib a b) @
      concat (map (num_cell 8 1) (sims lib a b)) @ ''  '' @ fst (verdict (delta_e lib a b) (worst_cvd lib a b)))) (\<lambda>_.
      returnI (max k (snd (verdict (delta_e lib a b) (worst_cvd lib a b)))))"
  using assms by (simp add: check_pair_def Let_def fun_eq_iff bindI_lift dict_index_def)

lemma check_pairs_status:
  assumes "\<forall>pr \<in> set prs. dict_get lin (fst (fst pr)) = Some (colour lib (snd (fst pr))) \<and> dict_get lin (fst (snd pr)) = Some (colour lib (snd (snd pr)))"
  shows "\<exists>out. forI (check_pair lib lin) k prs w = (Inr (foldl max k (map (\<lambda>pr. severity lib (snd (fst pr), snd (snd pr))) prs)), w\<lparr>stdout := out\<rparr>)"
  using assms
proof (induction prs arbitrary: k w)
  case Nil
  then show ?case by (intro exI[of _ "stdout w"]) (simp add: returnI_def)
next
  case (Cons pr prs)
  let ?k = "max k (severity lib (snd (fst pr), snd (snd pr)))"
  obtain s where "check_pair lib lin k pr = bindI (printI s) (\<lambda>_. returnI ?k)"
    using Cons.prems check_pair_step[of lin pr "colour lib (snd (fst pr))" "colour lib (snd (snd pr))" lib k]
    by (auto simp only: severity_def normal_distance_def cvd_distance_def fst_conv snd_conv list.set_intros)
  then have o: "check_pair lib lin k pr w = (Inr ?k, w\<lparr>stdout := stdout w @ s @ [CHR 0x0A]\<rparr>)" by (simp add: bindI_print returnI_def)
  obtain out where "forI (check_pair lib lin) ?k prs (w\<lparr>stdout := stdout w @ s @ [CHR 0x0A]\<rparr>) =
      (Inr (foldl max ?k (map (\<lambda>pr. severity lib (snd (fst pr), snd (snd pr))) prs)), w\<lparr>stdout := out\<rparr>)"
    using Cons.IH[of ?k "w\<lparr>stdout := stdout w @ s @ [CHR 0x0A]\<rparr>"] Cons.prems by auto
  then show ?case using forI_Inr[of "check_pair lib lin" k pr w, OF o] by auto
qed


lemma contrast_total:
  assumes "0 \<le> relative_luminance a" "0 \<le> relative_luminance b"
  shows "\<exists>c. contrast a b = Inr c"
proof -
  have "fl (fl (5 / 100)) \<le> fl (min (relative_luminance a) (relative_luminance b) + fl (5 / 100))"
    using assms by (intro fl_mono) simp
  moreover have "0 < fl (fl (5 / 100))" by code_simp
  ultimately show ?thesis by (auto simp: contrast_def Let_def)
qed

lemma luminance_nonneg: "0 \<le> r \<Longrightarrow> 0 \<le> g \<Longrightarrow> 0 \<le> b \<Longrightarrow> 0 \<le> relative_luminance (r, g, b)"
proof -
  assume "0 \<le> r" "0 \<le> g" "0 \<le> b"
  moreover have "0 \<le> fl (2126 / 10 ^ 4)" "0 \<le> fl (7152 / 10 ^ 4)" "0 \<le> fl (722 / 10 ^ 4)" by (rule fl_nonneg; simp)+
  ultimately have "0 \<le> fl (fl (2126 / 10 ^ 4) * r)" "0 \<le> fl (fl (7152 / 10 ^ 4) * g)" "0 \<le> fl (fl (722 / 10 ^ 4) * b)"
    by (metis fl_nonneg mult_nonneg_nonneg)+
  then show ?thesis unfolding relative_luminance_def dot3_def prod.case by (metis fl_nonneg add_nonneg_nonneg)
qed

context float_lib_laws
begin

lemma hex_colour_linear: "hex_colour h \<Longrightarrow> hex_to_linear lib h = Inr (colour lib h) \<and> 0 \<le> relative_luminance (colour lib h)"
  using hex_to_linear_total[of h] luminance_nonneg unfolding colour_def by (metis sum.sel(2))

lemma check_contrasts:
  assumes "\<forall>x \<in> set xs. dict_get lin (fst x) = Some (colour lib (snd x)) \<and> hex_colour (snd x)" "hex_colour s"
  shows "\<exists>out. forI (check_contrast lin (colour lib s)) () xs w = (Inr (), w\<lparr>stdout := out\<rparr>)"
  using assms(1)
proof (induction xs arbitrary: w)
  case Nil
  then show ?case by (intro exI[of _ "stdout w"]) (simp add: returnI_def)
next
  case (Cons x xs)
  obtain c where c: "contrast (colour lib (snd x)) (colour lib s) = Inr c"
    using contrast_total[of "colour lib (snd x)" "colour lib s"] hex_colour_linear[of "snd x"] hex_colour_linear[OF assms(2)] Cons.prems by auto
  have "dict_get lin (fst x) = Some (colour lib (snd x))" using Cons.prems by simp
  then obtain t where "check_contrast lin (colour lib s) () x = printI t"
    using c that[OF ext] by (simp add: check_contrast_def bindI_lift dict_index_def)
  then have o: "check_contrast lin (colour lib s) () x w = (Inr (), w\<lparr>stdout := stdout w @ t @ [CHR 0x0A]\<rparr>)" by (simp add: printI_def)
  obtain out where "forI (check_contrast lin (colour lib s)) () xs (w\<lparr>stdout := stdout w @ t @ [CHR 0x0A]\<rparr>) = (Inr (), w\<lparr>stdout := out\<rparr>)"
    using Cons.IH[of "w\<lparr>stdout := stdout w @ t @ [CHR 0x0A]\<rparr>"] Cons.prems by auto
  then show ?case using forI_Inr[of "check_contrast lin (colour lib s)" "()" x w, OF o] by auto
qed

lemma check_status:
  assumes "\<forall>x \<in> set xs. hex_colour (snd x)" "named xs" "hex_colour s"
  shows "\<exists>out. check lib xs s w = (Inr (foldl max 0 (map (severity lib) (combinations2 (map snd xs)))), w\<lparr>stdout := out\<rparr>)"
proof -
  have "\<forall>x \<in> set xs. hex_to_linear lib (snd x) = Inr (colour lib (snd x))" using assms(1) hex_colour_linear by blast
  from linear_table_get[OF this assms(2)]
  obtain lin where lin: "linear_table lib xs = Inr lin" "\<forall>x \<in> set xs. dict_get lin (fst x) = Some (colour lib (snd x))" by blast
  have prs: "\<forall>pr \<in> set (combinations2 xs). fst pr \<in> set xs \<and> snd pr \<in> set xs"
  proof
    fix pr assume "pr \<in> set (combinations2 xs)"
    then have "(fst pr, snd pr) \<in> set (combinations2 xs)" by simp
    then obtain i j where "i < j" "j < length xs" "fst pr = xs ! i" "snd pr = xs ! j" unfolding combinations2_mem by blast
    then show "fst pr \<in> set xs \<and> snd pr \<in> set xs" by auto
  qed
  then have P: "\<exists>out. forI (check_pair lib lin) 0 (combinations2 xs) v =
      (Inr (foldl max 0 (map (\<lambda>pr. severity lib (snd (fst pr), snd (snd pr))) (combinations2 xs))), v\<lparr>stdout := out\<rparr>)" for v
    using lin(2) by (intro check_pairs_status) blast
  have eq: "map (\<lambda>pr. severity lib (snd (fst pr), snd (snd pr))) (combinations2 xs) = map (severity lib) (combinations2 (map snd xs))"
    by (simp add: combinations2_map map_prod_def case_prod_beta)
  have C: "\<exists>out. forI (check_contrast lin (colour lib s)) () xs v = (Inr (), v\<lparr>stdout := out\<rparr>)" for v
    using lin(2) assms by (intro check_contrasts) auto
  define h1 where "h1 = str_of_int (int (length xs)) @ '' colours, all '' @ str_of_int (int (length xs) * (int (length xs) - 1) div 2) @ '' pairs'' @ [CHR 0x0A]"
  define h2 where "h2 = ljust 44 ''pair'' @ rjust 8 ''normal'' @ rjust 8 ''protan'' @ rjust 8 ''deutan'' @ rjust 8 ''tritan'' @ ''  verdict''"
  let ?u = "w\<lparr>stdout := stdout w @ h1 @ [CHR 0x0A]\<rparr>"
  let ?v = "?u\<lparr>stdout := stdout ?u @ h2 @ [CHR 0x0A]\<rparr>"
  obtain out where o: "forI (check_pair lib lin) 0 (combinations2 xs) ?v =
      (Inr (foldl max 0 (map (severity lib) (combinations2 (map snd xs)))), w\<lparr>stdout := out\<rparr>)"
    using P[of ?v] unfolding eq by auto
  define h3 where "h3 = [CHR 0x0A] @ ''contrast against surface '' @ s"
  obtain out' where o': "forI (check_contrast lin (colour lib s)) () xs (w\<lparr>stdout := out @ h3 @ [CHR 0x0A]\<rparr>) = (Inr (), w\<lparr>stdout := out'\<rparr>)"
    using C[of "w\<lparr>stdout := out @ h3 @ [CHR 0x0A]\<rparr>"] by auto
  have "check lib xs s w = (Inr (foldl max 0 (map (severity lib) (combinations2 (map snd xs)))), w\<lparr>stdout := out'\<rparr>)"
    unfolding check_def Let_def bindI_lift lin(1) sum.case h1_def[symmetric] h2_def[symmetric] h3_def[symmetric] bindI_print
    by (subst bindI_Inr, rule o) (simp add: hex_colour_linear[OF assms(3)] bindI_def[of "forI (check_contrast lin (colour lib s)) () xs"] o' returnI_def)
  then show ?thesis by blast
qed

end


lemma surface_hex: "hex_colour ''#fcfcfb''"
  by (simp add: hex_colour_def hex_val_def)

lemma foldl_max_status:
  fixes xs :: "int list"
  assumes "\<forall>x \<in> set xs. x \<in> {0, 1, 2}"
  shows "foldl max 0 xs \<in> {0, 1, 2}" "foldl max 0 xs = 0 \<longleftrightarrow> (\<forall>x \<in> set xs. x = 0)" "foldl max 0 xs = 2 \<longleftrightarrow> 2 \<in> set xs"
proof -
  obtain m where m: "foldl max 0 xs = m" "m = 0 \<or> m \<in> set xs" "0 \<le> m" "\<forall>x \<in> set xs. x \<le> m"
    using foldl_max[of 0 xs] by simp
  show "foldl max 0 xs \<in> {0, 1, 2}" using m(2) assms unfolding m(1) by blast
  show "foldl max 0 xs = 0 \<longleftrightarrow> (\<forall>x \<in> set xs. x = 0)"
    unfolding m(1) using m(2-4) assms by (metis insertE order_antisym_conv singletonD zero_le_numeral zero_le_one)
  show "foldl max 0 xs = 2 \<longleftrightarrow> 2 \<in> set xs"
    unfolding m(1) using m(2-4) assms by (metis insertE not_numeral_le_zero numeral_le_one_iff semiring_norm(69) singletonD zero_neq_numeral)
qed

lemma validate_palette_severity:
  assumes "float_lib_laws lib" "\<forall>x \<in> set (palette_entries args). hex_colour (snd x)"
  shows "fst (run (validate_palette lib args) w) = foldl max 0 (map (severity lib) (combinations2 (map snd (palette_entries args))))"
proof -
  obtain out where "check lib (palette_entries args) ''#fcfcfb'' w =
      (Inr (foldl max 0 (map (severity lib) (combinations2 (map snd (palette_entries args))))), w\<lparr>stdout := out\<rparr>)"
    using float_lib_laws.check_status[OF assms palette_entries_named surface_hex] by blast
  then show ?thesis by (simp add: run_def validate_palette_def bindI_def raiseI_def)
qed

text \<open>The worst deficiency is the least of the three distances.\<close>

lemma le_worst_cvd:
  "x \<le> worst_cvd lib a b \<longleftrightarrow> (\<forall>k \<in> {Protan, Deutan, Tritan}. x \<le> delta_e lib (simulate lib a k) (simulate lib b k))"
  by (auto simp: worst_cvd_def sims_def CVD_def)

lemma worst_cvd_less:
  "worst_cvd lib a b < x \<longleftrightarrow> (\<exists>k \<in> {Protan, Deutan, Tritan}. delta_e lib (simulate lib a k) (simulate lib b k) < x)"
  using le_worst_cvd[of x lib a b] by (simp add: not_le[symmetric])

lemma all_pairs: "(\<forall>ab \<in> set (combinations2 xs). P (fst ab) (snd ab)) \<longleftrightarrow> (\<forall>j < length xs. \<forall>i < j. P (xs ! i) (xs ! j))"
  using combinations2_mem[of _ _ xs] by (metis prod.collapse fst_conv snd_conv)

text \<open>C12: the exit status of \<open>validate_palette.py\<close> is the verdict on the whole palette. For
  colours of six hexadecimal digits it is 0 exactly when the colours at any two positions are
  at least 15 apart for normal vision and at least 8 apart as seen with protanopia, with
  deuteranopia and with tritanopia; 2 exactly when two positions hold colours closer than 15
  for normal vision or closer than 6 with one of the three deficiencies; and 1 otherwise.\<close>

theorem validate_palette_status:
  fixes lib args w
  defines "status \<equiv> fst (run (validate_palette lib args) w)" and "n \<equiv> length (palette_entries args)"
    and "c \<equiv> \<lambda>i. colour lib (snd (palette_entries args ! i))"
  assumes "float_lib_laws lib" "\<forall>x \<in> set (palette_entries args). hex_colour (snd x)"
  shows "(status = 0 \<longleftrightarrow> (\<forall>j < n. \<forall>i < j. 15 \<le> delta_e lib (c i) (c j) \<and>
        (\<forall>k \<in> {Protan, Deutan, Tritan}. 8 \<le> delta_e lib (simulate lib (c i) k) (simulate lib (c j) k)))) \<and>
    (status = 2 \<longleftrightarrow> (\<exists>j < n. \<exists>i < j. delta_e lib (c i) (c j) < 15 \<or>
        (\<exists>k \<in> {Protan, Deutan, Tritan}. delta_e lib (simulate lib (c i) k) (simulate lib (c j) k) < 6))) \<and>
    status \<in> {0, 1, 2}"
proof -
  let ?hs = "map snd (palette_entries args)"
  let ?sev = "map (severity lib) (combinations2 ?hs)"
  have S: "status = foldl max 0 ?sev" unfolding status_def by (rule validate_palette_severity[OF assms(4,5)])
  have "\<forall>x \<in> set ?sev. x \<in> {0, 1, 2}" using severity_cases(3)[of lib] by auto
  note F = foldl_max_status[OF this]
  have hs: "(\<forall>j < n. \<forall>i < j. Q (colour lib (?hs ! i)) (colour lib (?hs ! j))) \<longleftrightarrow> (\<forall>j < n. \<forall>i < j. Q (c i) (c j))" for Q
    by (intro all_cong1 imp_cong refl) (simp add: c_def n_def)
  have "(\<forall>x \<in> set ?sev. x = 0) \<longleftrightarrow> (\<forall>ab \<in> set (combinations2 ?hs). severity lib (fst ab, snd ab) = 0)" by simp
  also have "\<dots> \<longleftrightarrow> (\<forall>j < n. \<forall>i < j. severity lib (?hs ! i, ?hs ! j) = 0)"
    using all_pairs[of ?hs "\<lambda>a b. severity lib (a, b) = 0"] by (simp add: n_def)
  also have "\<dots> \<longleftrightarrow> (\<forall>j < n. \<forall>i < j. 15 \<le> delta_e lib (c i) (c j) \<and>
      (\<forall>k \<in> {Protan, Deutan, Tritan}. 8 \<le> delta_e lib (simulate lib (c i) k) (simulate lib (c j) k)))"
    unfolding severity_cases(2) normal_distance_def cvd_distance_def le_worst_cvd by (rule hs)
  finally have Z: "(\<forall>x \<in> set ?sev. x = 0) \<longleftrightarrow> \<dots>" .
  have "2 \<notin> set ?sev \<longleftrightarrow> (\<forall>ab \<in> set (combinations2 ?hs). severity lib (fst ab, snd ab) \<noteq> 2)" by auto
  also have "\<dots> \<longleftrightarrow> (\<forall>j < n. \<forall>i < j. severity lib (?hs ! i, ?hs ! j) \<noteq> 2)"
    using all_pairs[of ?hs "\<lambda>a b. severity lib (a, b) \<noteq> 2"] by (simp add: n_def)
  also have "\<dots> \<longleftrightarrow> (\<forall>j < n. \<forall>i < j. \<not> (delta_e lib (c i) (c j) < 15 \<or>
      (\<exists>k \<in> {Protan, Deutan, Tritan}. delta_e lib (simulate lib (c i) k) (simulate lib (c j) k) < 6)))"
    unfolding severity_cases(1) normal_distance_def cvd_distance_def worst_cvd_less by (rule hs)
  finally have T: "2 \<in> set ?sev \<longleftrightarrow> (\<exists>j < n. \<exists>i < j. delta_e lib (c i) (c j) < 15 \<or>
      (\<exists>k \<in> {Protan, Deutan, Tritan}. delta_e lib (simulate lib (c i) k) (simulate lib (c j) k) < 6))" by blast
  show ?thesis using F unfolding S Z T by blast
qed

text \<open>C24: the same colour twice never passes. A palette on the command line in which one colour
  stands at two places fails with status 2, wherever the two places are.\<close>

theorem equal_colours_fail:
  assumes "float_lib_laws lib" "\<forall>x \<in> set (palette_entries args). hex_colour (snd x)"
    "i < j" "j < length (palette_entries args)" "snd (palette_entries args ! i) = snd (palette_entries args ! j)"
  shows "fst (run (validate_palette lib args) w) = 2"
proof -
  let ?hs = "map snd (palette_entries args)" and ?h = "snd (palette_entries args ! i)"
  have "(?h, ?h) \<in> set (combinations2 ?hs)"
    unfolding combinations2_mem using assms(3-5) by (intro exI[of _ i] exI[of _ j]) simp
  moreover have "severity lib (?h, ?h) = 2"
    using float_lib_laws.delta_e_self[OF assms(1)] by (simp add: severity_cases(1) normal_distance_def)
  ultimately have "2 \<in> set (map (severity lib) (combinations2 ?hs))" by (metis image_eqI set_map)
  moreover have "\<forall>x \<in> set (map (severity lib) (combinations2 ?hs)). x \<in> {0, 1, 2}" using severity_cases(3)[of lib] by auto
  ultimately show ?thesis unfolding validate_palette_severity[OF assms(1,2)] by (simp add: foldl_max_status(3))
qed

lemma sample_palette: "palette_entries [''#2a78d6, #eb6834,#2a78d6''] = map (\<lambda>h. (h, h)) [''#2a78d6'', ''#eb6834'', ''#2a78d6'']"
  "\<forall>x \<in> set (map (\<lambda>h. (h, h)) [''#2a78d6'', ''#eb6834'', ''#2a78d6'']). hex_colour (snd x)"
  by (simp_all add: palette_entries_def strip_def is_space_def hex_colour_def hex_val_def)

theorem validate_palette_status_witness:
  "fst (run (validate_palette lib_rounded [''#2a78d6, #eb6834,#2a78d6'']) \<lparr>files = Map.empty, stdout = [], stderr = [], dirs = []\<rparr>) = 2 \<and>
   fst (run (validate_palette lib_rounded [''#2a78d6'']) \<lparr>files = Map.empty, stdout = [], stderr = [], dirs = []\<rparr>) = 0"
proof
  let ?p = "palette_entries [''#2a78d6, #eb6834,#2a78d6'']"
  have "\<forall>x \<in> set ?p. hex_colour (snd x)" using sample_palette by simp
  note S = validate_palette_status[OF lib_rounded.float_lib_laws_axioms this]
  have "delta_e lib_rounded (colour lib_rounded (snd (?p ! 0))) (colour lib_rounded (snd (?p ! 2))) < 15"
    by (simp add: sample_palette lib_rounded.delta_e_self)
  moreover have "0 < (2 :: nat)" "2 < length ?p" by (simp_all add: sample_palette)
  ultimately show "fst (run (validate_palette lib_rounded [''#2a78d6, #eb6834,#2a78d6'']) \<lparr>files = Map.empty, stdout = [], stderr = [], dirs = []\<rparr>) = 2"
    using S by blast
next
  have p: "palette_entries [''#2a78d6''] = [(''#2a78d6'', ''#2a78d6'')]" by (simp add: palette_entries_def strip_def is_space_def)
  then have "\<forall>x \<in> set (palette_entries [''#2a78d6'']). hex_colour (snd x)" by (simp add: hex_colour_def hex_val_def)
  from validate_palette_status[OF lib_rounded.float_lib_laws_axioms this]
  show "fst (run (validate_palette lib_rounded [''#2a78d6'']) \<lparr>files = Map.empty, stdout = [], stderr = [], dirs = []\<rparr>) = 0"
    by (simp add: p)
qed

theorem equal_colours_fail_witness:
  "fst (run (validate_palette lib_rounded [''#2a78d6, #eb6834,#2a78d6'']) \<lparr>files = Map.empty, stdout = [], stderr = [], dirs = []\<rparr>) = 2"
  using equal_colours_fail[OF lib_rounded.float_lib_laws_axioms, of "[''#2a78d6, #eb6834,#2a78d6'']" 0 2] sample_palette by simp

end
