(* ===== verification/Spec2Isabelle.thy ===== *)
theory Spec2Isabelle
  imports Safe_Plan Merge_Hdr Mk_Charts Multi_Charts Palette
begin

text \<open>
  A verification library for the Python programs of \<open>raft-tests\<close>.

  The repository measures raft implementations (braft, openraft, Aeron) and a sequencer built
  on braft. The load generators and servers are C++, Rust and Java; what turns a measurement
  into a decision is Python: six scripts that guard a deployment, merge the histograms of the
  clients, aggregate sweeps, draw the published charts and check the chart colours. All six
  are modelled here from their first to their last statement, as functions from the command
  line and a \<open>world\<close> (files, output streams) to an exit status and a new world.

  \<^bold>\<open>Parts and theories.\<close>

  \<^item> \<open>Py_Prelude\<close>, \<open>Py_Float\<close>, \<open>Py_Dict\<close>, \<open>Py_IO\<close>, \<open>Py_Csv\<close>: the Python the scripts use.
    Exceptions are values (\<open>py_error + 'a\<close>, sequenced by \<open>bindE\<close>); a script is a state
    transformer (\<open>bindI\<close>, \<open>forI\<close>, \<open>run\<close>) in which what was written or printed before an
    exception stays; a float is the rational it denotes and every operation rounds to
    binary64, ties to even (\<open>fl\<close>), subnormal numbers included; a \<open>dict\<close> is an association
    list in insertion order (locales \<open>ordered_dict\<close> and \<open>grouping_dict\<close>, interpreted on
    \<open>dict_get\<close>, \<open>dict_set\<close> and \<open>dict_append\<close>); \<open>csv.reader\<close> is the state machine of
    CPython's \<open>_csv\<close> module, total on files read in text mode. \<open>writes_only\<close> bounds where a
    script may write and what, and \<open>ordinary\<close> says that an exception ends the process with
    status 1; both are proved by introduction rules over the text of a definition.
  \<^item> \<open>Safe_Plan\<close>: \<open>deploy/assert-safe-plan.py\<close>, the guard before \<open>terraform apply\<close>, from the
    outcome of \<open>json.load\<close> on: a value, the caught decode error or an uncaught exception. It
    exits 0 exactly when nothing would be deleted or the operator allowed it; its loop refines
    an abstract classification of the plan, and its report lists every change.
  \<^item> \<open>Merge_Hdr\<close>: \<open>sweep/merge-hdr.py\<close>. The merged percentiles are the quantiles of the
    union of the samples, whatever the order of the files, ordered and between those of the
    clients; the rank of p99.9 is computed in binary64 and can be one too high, with the
    exact condition; the exit status tells a missing or malformed file, an empty merge and a
    complete one apart.
  \<^item> \<open>Svg\<close>: the documents the charts append to. An element is a value, \<open>svg_text\<close> its text;
    \<open>well_formed\<close> says that the tags nest and that no text or attribute breaks out.
    \<open>Svg_Text\<close> reads that text back with a small XML reader, \<open>xml_ok\<close>, one character at a
    time with a stack of open elements, and shows that it accepts every well-formed document.
  \<^item> \<open>Chart_Geometry\<close>, \<open>Chart_Layout\<close>, \<open>Chart_Data\<close>, \<open>Knee_Charts\<close>, \<open>Round_Trips\<close>,
    \<open>Knee_Text\<close>, \<open>Mk_Charts\<close>: \<open>sweep/mkcharts.py\<close>, in the order of the source. The two axes and the tick
    loop; \<open>legend\<close>, \<open>legend_rows\<close> and \<open>wrap_sub\<close>; the aggregation \<open>D\<close>; \<open>head\<close>, \<open>axes\<close>,
    \<open>series\<close>, \<open>knee-curves.svg\<close>, the table \<open>CFG\<close> and the charts of the products; the table
    \<open>RT\<close>, the colour check and the two comparison charts; the script. The lemmas follow a
    number from the file to the picture: curves are exact means (\<open>mean_exact\<close> shows that the
    detour over a double changes nothing below \<open>2^52\<close>), each point has its one marker, within
    a hundredth of a pixel of the real-valued positions \<open>rate_x\<close> and \<open>latency_y\<close> and hollow
    exactly below 99 % of the offered rate, documents are well formed, and a run
    ends with every chart written or with the error and the files the theorems name. Without
    any assumption on the input, what a routine returns is well formed (\<open>Knee_Text\<close>), so a
    run that fails half way leaves no broken chart either (\<open>mkcharts_frame\<close>).
  \<^item> \<open>Line_Charts\<close>, \<open>Fleet_Charts\<close>, \<open>Multi_Charts\<close>: \<open>sweep/mkcharts-fleets.py\<close> and
    \<open>sweep/mkcharts-multi.py\<close>, which repeat each other's drawing code; the common lines are
    \<open>Line_Charts\<close>. The locale \<open>series_loader\<close> states how a loop over rows becomes a series and
    is interpreted on both loaders; \<open>chart_series\<close> says which series the files of a chart
    hold, and \<open>chart_at\<close> that a file holds the text of a given chart, so the theorems on the
    two scripts tie every file they write to the files they read.
  \<^item> \<open>Palette\<close>: \<open>sweep/validate_palette.py\<close>. Its exit status is the verdict over all pairs of
    positions and all three deficiencies.

  \<^bold>\<open>How the parts interact.\<close> The scripts share files, not memory. \<open>merge-hdr.py\<close> prints the
  rows that a sweep appends to a CSV file; \<open>mkcharts.py\<close> and its two siblings read those
  files and write SVG files, \<open>mkcharts.py\<close> refuses to draw two series in one colour, and the
  colours themselves are checked by \<open>validate_palette.py\<close>. Inside \<open>mkcharts.py\<close> the data \<open>D\<close>
  passes from the aggregation to the charts, which is where \<open>Mk_Charts\<close> composes the lemmas of
  the other theories (\<open>chart_rows_data\<close>, \<open>knee_phase\<close>, \<open>round_trip_phase\<close>).

  \<^bold>\<open>What is a parameter.\<close> \<open>math.log10\<close> (\<open>lg\<close>) and the power \<open>**\<close> and \<open>sum\<close> on floats
  (\<open>float_lib\<close>) belong to the C library and to the version of Python. The locale
  \<open>log10_function\<close> asks for an error of at most \<open>2^(-40)\<close> on the integers from 1 to \<open>10^9\<close>,
  hundreds of times what C libraries document; \<open>float_lib_laws\<close> asks for the sign, the zero and
  the evenness of the power. Both are interpreted on concrete functions, so no theorem is
  vacuous. The directory of a script is an argument, \<open>here\<close>.

  \<^bold>\<open>Bounds.\<close> Rates and counts below \<open>2^40\<close> and latencies up to \<open>10^9\<close> microseconds are exact
  in binary64 with room for the arithmetic of the charts; coordinates are bounded by the
  canvas. No definition has fuel: every recursion is structural or has a measure, except the one
  loop of the sources that can run forever, the ticks of an axis with a step of zero or less:
  \<open>x_loop\<close> is a partial function in the option monad, and \<open>x_ticks_terminates\<close> says exactly
  when it does not return.

  \<^bold>\<open>Findings.\<close> The rank of p99.9 (\<open>p999_rank_bounds\<close>, \<open>p999_off_by_one\<close>); two series of the table \<open>RT\<close> that one
  Makefile target draws together share a colour (\<open>direct_and_grpc_clash\<close>); an unmeasured label
  point stops the whole run (\<open>mkcharts_label_missing\<close>); two averaging rules where the comments
  promise one (\<open>averaging_rules_differ\<close>).

  \<^bold>\<open>Not modelled.\<close> Parsing JSON text (the guard's model starts at the value that
  \<open>json.load\<close> returns or at its exception; lone surrogates in its strings are not
  represented); permissions, the creation of directories by \<open>os.makedirs\<close> (an empty name
  included) and their existence for \<open>open(..., "w")\<close>; integers and floats of unbounded size beyond what \<open>float_of_int\<close> and
  \<open>int_truediv\<close> raise; Unicode digits and white space in \<open>int\<close>. The C++, Rust and Java load
  generators and servers, the Makefiles, the Terraform files and the shell drivers are other
  languages, networks and threads, and are listed in the manifest as such.

  \<^bold>\<open>Still to do.\<close> The verdict on the default palette, which needs bounds on the power function;
  the legends of the fleet charts; the exact text of the rows that \<open>merge-hdr.py\<close> prints as
  input of the chart scripts.
\<close>

end
